(* ===== verification/Prelude.thy ===== *)
theory Prelude
  imports
    Main
    "HOL-Library.Char_ord"
    "HOL-Library.Code_Target_Nat"
    "HOL-Library.List_Lexorder"
    "HOL-Library.Product_Lexorder"
begin

text \<open>
  Shared vocabulary of the development: programs that read and write a state and may stop
  with an error, database transactions as all-or-nothing programs, ordered maps and sets
  (the \<^verbatim>\<open>BTreeMap\<close> and \<^verbatim>\<open>BTreeSet\<close> of the Rust standard library), tables as lists of
  rows, and the Rust integer types as \<open>nat\<close> or \<open>int\<close> with their bounds written out.
\<close>

named_theorems prog_simps \<open>unfolding of programs run from a given state\<close>
named_theorems ok_intros \<open>introduction rules for success triples\<close>

section \<open>Programs over a state\<close>

text \<open>
  A program takes the state and returns an error or a value, and the state it leaves. The
  state is returned on an error too: a statement that ran before the failing one has had its
  effect, unless a transaction takes it back.
\<close>

type_synonym ('s, 'e, 'a) prog = "'s \<Rightarrow> ('e + 'a) \<times> 's"

definition ret :: "'a \<Rightarrow> ('s, 'e, 'a) prog" where
  "ret x s = (Inr x, s)"

definition raise :: "'e \<Rightarrow> ('s, 'e, 'a) prog" where
  "raise e s = (Inl e, s)"

definition andThen :: "('s, 'e, 'a) prog \<Rightarrow> ('a \<Rightarrow> ('s, 'e, 'b) prog) \<Rightarrow> ('s, 'e, 'b) prog" where
  "andThen m f s = (case m s of (Inl e, t) \<Rightarrow> (Inl e, t) | (Inr x, t) \<Rightarrow> f x t)"

definition reads :: "('s \<Rightarrow> 'a) \<Rightarrow> ('s, 'e, 'a) prog" where
  "reads f s = (Inr (f s), s)"

definition writes :: "('s \<Rightarrow> 's) \<Rightarrow> ('s, 'e, unit) prog" where
  "writes f s = (Inr (), f s)"

text \<open>\<^verbatim>\<open>?\<close> on a value that is already a result.\<close>

definition lift_result :: "'e + 'a \<Rightarrow> ('s, 'e, 'a) prog" where
  "lift_result r s = (r, s)"

text \<open>A \<^verbatim>\<open>for\<close> loop whose body threads local variables \<open>acc\<close>.\<close>

fun for_each :: "('x \<Rightarrow> 'acc \<Rightarrow> ('s, 'e, 'acc) prog) \<Rightarrow> 'x list \<Rightarrow> 'acc \<Rightarrow> ('s, 'e, 'acc) prog" where
  "for_each body [] acc = ret acc"
| "for_each body (x # xs) acc = andThen (body x acc) (for_each body xs)"

text \<open>
  A transaction: an error inside it drops the transaction without a commit, so the state
  is the one before it.
\<close>

definition in_tx :: "('s, 'e, 'a) prog \<Rightarrow> ('s, 'e, 'a) prog" where
  "in_tx m s = (case m s of (Inl e, _) \<Rightarrow> (Inl e, s) | (Inr x, t) \<Rightarrow> (Inr x, t))"

lemma ret_iff [prog_simps, simp]: "ret x s = (r, t) \<longleftrightarrow> r = Inr x \<and> t = s"
  by (auto simp: ret_def)

lemma raise_iff [prog_simps, simp]: "raise e s = (r, t) \<longleftrightarrow> r = Inl e \<and> t = s"
  by (auto simp: raise_def)

lemma reads_iff [prog_simps, simp]: "reads f s = (r, t) \<longleftrightarrow> r = Inr (f s) \<and> t = s"
  by (auto simp: reads_def)

lemma writes_iff [prog_simps, simp]: "writes f s = (r, t) \<longleftrightarrow> r = Inr () \<and> t = f s"
  by (auto simp: writes_def)

lemma lift_result_iff [prog_simps, simp]: "lift_result r s = (r', t) \<longleftrightarrow> r' = r \<and> t = s"
  by (auto simp: lift_result_def)

lemma andThen_Inr [prog_simps]:
  "andThen m f s = (Inr y, t) \<longleftrightarrow> (\<exists>x u. m s = (Inr x, u) \<and> f x u = (Inr y, t))"
  by (auto simp: andThen_def split: prod.splits sum.splits)

lemma andThen_Inl [prog_simps]:
  "andThen m f s = (Inl e, t) \<longleftrightarrow>
     m s = (Inl e, t) \<or> (\<exists>x u. m s = (Inr x, u) \<and> f x u = (Inl e, t))"
  by (auto simp: andThen_def split: prod.splits sum.splits)

lemma in_tx_Inr [prog_simps]: "in_tx m s = (Inr y, t) \<longleftrightarrow> m s = (Inr y, t)"
  by (auto simp: in_tx_def split: prod.splits sum.splits)

lemma in_tx_Inl [prog_simps]: "in_tx m s = (Inl e, t) \<longleftrightarrow> t = s \<and> (\<exists>u. m s = (Inl e, u))"
  by (auto simp: in_tx_def split: prod.splits sum.splits)

text \<open>
  Success triples \<open>ok P m Q\<close>: run from a state in \<open>P\<close>, if \<open>m\<close> succeeds then its value and
  final state are in \<open>Q\<close>. Invariants \<open>keeps P m\<close>: whatever the outcome, \<open>P\<close> is kept.
\<close>

definition ok :: "('s \<Rightarrow> bool) \<Rightarrow> ('s, 'e, 'a) prog \<Rightarrow> ('a \<Rightarrow> 's \<Rightarrow> bool) \<Rightarrow> bool" where
  "ok P m Q \<longleftrightarrow> (\<forall>s x t. P s \<longrightarrow> m s = (Inr x, t) \<longrightarrow> Q x t)"

definition keeps :: "('s \<Rightarrow> bool) \<Rightarrow> ('s, 'e, 'a) prog \<Rightarrow> bool" where
  "keeps P m \<longleftrightarrow> (\<forall>s r t. P s \<longrightarrow> m s = (r, t) \<longrightarrow> P t)"

lemma okI: "(\<And>s x t. P s \<Longrightarrow> m s = (Inr x, t) \<Longrightarrow> Q x t) \<Longrightarrow> ok P m Q"
  by (auto simp: ok_def)

lemma okD: "ok P m Q \<Longrightarrow> P s \<Longrightarrow> m s = (Inr x, t) \<Longrightarrow> Q x t"
  by (auto simp: ok_def)

lemma ok_ret [ok_intros]: "(\<And>s. P s \<Longrightarrow> Q x s) \<Longrightarrow> ok P (ret x) Q"
  by (auto simp: ok_def)

lemma ok_raise [ok_intros]: "ok P (raise e) Q"
  by (auto simp: ok_def)

lemma ok_reads [ok_intros]: "(\<And>s. P s \<Longrightarrow> Q (f s) s) \<Longrightarrow> ok P (reads f) Q"
  by (auto simp: ok_def)

lemma ok_writes [ok_intros]: "(\<And>s. P s \<Longrightarrow> Q () (f s)) \<Longrightarrow> ok P (writes f) Q"
  by (auto simp: ok_def)

lemma ok_lift_result [ok_intros]: "(\<And>s x. P s \<Longrightarrow> r = Inr x \<Longrightarrow> Q x s) \<Longrightarrow> ok P (lift_result r) Q"
  by (auto simp: ok_def)

lemma ok_andThen: "ok P m R \<Longrightarrow> (\<And>x. ok (R x) (f x) Q) \<Longrightarrow> ok P (andThen m f) Q"
  by (fastforce simp: ok_def andThen_Inr)

lemma ok_weaken: "ok P m Q \<Longrightarrow> (\<And>s. P' s \<Longrightarrow> P s) \<Longrightarrow> (\<And>x s. Q x s \<Longrightarrow> Q' x s) \<Longrightarrow> ok P' m Q'"
  unfolding ok_def by blast

lemma ok_in_tx: "ok P m Q \<Longrightarrow> ok P (in_tx m) Q"
  by (auto simp: ok_def in_tx_Inr)

lemma ok_for_each:
  assumes "\<And>x acc. x \<in> set xs \<Longrightarrow> ok (I acc) (body x acc) I"
  shows "ok (I acc) (for_each body xs acc) I"
  using assms
proof (induction xs arbitrary: acc)
  case Nil
  show ?case by (simp add: ok_ret)
next
  case (Cons x xs)
  have "ok (I acc) (body x acc) I" by (rule Cons.prems) simp
  moreover have "ok (I a) (for_each body xs a) I" for a
    by (rule Cons.IH) (simp add: Cons.prems)
  ultimately show ?case by (simp add: ok_andThen)
qed

text \<open>A transaction keeps what its successful runs keep: a failed one changes nothing.\<close>

lemma keeps_in_tx: "ok P m (\<lambda>_. P) \<Longrightarrow> keeps P (in_tx m)"
  unfolding keeps_def
proof (intro allI impI)
  fix s r t
  assume "ok P m (\<lambda>_. P)" "P s" "in_tx m s = (r, t)"
  then show "P t"
    by (cases "m s"; cases "fst (m s)") (auto simp: in_tx_def dest: okD)
qed

lemma keeps_andThen:
  assumes m: "keeps P m" and f: "\<And>x. keeps P (f x)"
  shows "keeps P (andThen m f)"
  unfolding keeps_def
proof (intro allI impI)
  fix s r t
  assume s: "P s" and run: "andThen m f s = (r, t)"
  obtain q u where q: "m s = (q, u)" by (cases "m s")
  then have u: "P u" using m s by (auto simp: keeps_def)
  show "P t"
  proof (cases q)
    case (Inl e)
    with run q u show ?thesis by (simp add: andThen_def)
  next
    case (Inr x)
    with run q have "f x u = (r, t)" by (simp add: andThen_def)
    with f [of x] u show ?thesis by (auto simp: keeps_def)
  qed
qed

lemma keeps_ret: "keeps P (ret x)"
  by (auto simp: keeps_def)

lemma keeps_raise: "keeps P (raise e)"
  by (auto simp: keeps_def)

lemma keeps_reads: "keeps P (reads f)"
  by (auto simp: keeps_def)

lemma keeps_lift_result: "keeps P (lift_result r)"
  by (auto simp: keeps_def)

lemma keepsD: "keeps P m \<Longrightarrow> P s \<Longrightarrow> m s = (r, t) \<Longrightarrow> P t"
  by (auto simp: keeps_def)

lemma keeps_snd: "keeps P m \<Longrightarrow> P s \<Longrightarrow> P (snd (m s))"
  by (cases "m s") (auto simp: keeps_def)

lemmas keeps_intros = keeps_ret keeps_raise keeps_reads keeps_lift_result keeps_andThen

text \<open>\<^verbatim>\<open>?\<close> between results that touch no state.\<close>

definition bind_result :: "'e + 'a \<Rightarrow> ('a \<Rightarrow> 'e + 'b) \<Rightarrow> 'e + 'b" where
  "bind_result r f = (case r of Inl e \<Rightarrow> Inl e | Inr x \<Rightarrow> f x)"

fun map_result :: "('x \<Rightarrow> 'e + 'y) \<Rightarrow> 'x list \<Rightarrow> 'e + 'y list" where
  "map_result f [] = Inr []"
| "map_result f (x # xs) =
     bind_result (f x) (\<lambda>y. bind_result (map_result f xs) (\<lambda>ys. Inr (y # ys)))"

lemma bind_result_Inr [prog_simps]:
  "bind_result r f = Inr y \<longleftrightarrow> (\<exists>x. r = Inr x \<and> f x = Inr y)"
  by (auto simp: bind_result_def split: sum.splits)

lemma bind_result_Inl [prog_simps]:
  "bind_result r f = Inl e \<longleftrightarrow> r = Inl e \<or> (\<exists>x. r = Inr x \<and> f x = Inl e)"
  by (auto simp: bind_result_def split: sum.splits)

lemma bind_result_simps [simp]: "bind_result (Inl e) f = Inl e" "bind_result (Inr x) f = f x"
  by (simp_all add: bind_result_def)

lemma map_result_Inr: "map_result f xs = Inr ys \<longleftrightarrow> list_all2 (\<lambda>x y. f x = Inr y) xs ys"
  by (induction xs arbitrary: ys) (auto simp: bind_result_Inr list_all2_Cons1)

section \<open>Ordered maps and sets\<close>

text \<open>
  \<^verbatim>\<open>BTreeMap\<close> as an association list in ascending key order: \<open>btree_insert\<close> is \<^verbatim>\<open>insert\<close>,
  \<open>btree_upsert\<close> is \<^verbatim>\<open>entry(k).and_modify(f).or_insert(v)\<close>; iteration is the list itself.
  \<^verbatim>\<open>BTreeSet\<close> is an ascending list without duplicates with \<open>bset_insert\<close>.
\<close>

fun btree_upsert :: "'k::linorder \<Rightarrow> ('v \<Rightarrow> 'v) \<Rightarrow> 'v \<Rightarrow> ('k \<times> 'v) list \<Rightarrow> ('k \<times> 'v) list" where
  "btree_upsert k f v [] = [(k, v)]"
| "btree_upsert k f v ((l, w) # m) =
     (if k = l then (l, f w) # m
      else if k < l then (k, v) # (l, w) # m
      else (l, w) # btree_upsert k f v m)"

definition btree_insert :: "'k::linorder \<Rightarrow> 'v \<Rightarrow> ('k \<times> 'v) list \<Rightarrow> ('k \<times> 'v) list" where
  "btree_insert k v m = btree_upsert k (\<lambda>_. v) v m"

definition btree_collect :: "('x \<Rightarrow> 'k::linorder) \<Rightarrow> 'x list \<Rightarrow> ('k \<times> 'x) list" where
  "btree_collect key xs = fold (\<lambda>x m. btree_insert (key x) x m) xs []"

definition btree_ok :: "('k::linorder \<times> 'v) list \<Rightarrow> bool" where
  "btree_ok m \<longleftrightarrow> sorted (map fst m) \<and> distinct (map fst m)"

definition bset_insert :: "'k::linorder \<Rightarrow> 'k list \<Rightarrow> 'k list" where
  "bset_insert k ks = insort_insert k ks"

definition bset_of :: "'k::linorder list \<Rightarrow> 'k list" where
  "bset_of xs = fold bset_insert xs []"

text \<open>The contract of an ordered map, as the code that keeps \<^verbatim>\<open>BTreeMap\<close>s relies on it.\<close>

locale ordered_map =
  fixes empty :: 'm
    and upsert :: "'k::linorder \<Rightarrow> ('v \<Rightarrow> 'v) \<Rightarrow> 'v \<Rightarrow> 'm \<Rightarrow> 'm"
    and lookup :: "'m \<Rightarrow> 'k \<Rightarrow> 'v option"
    and entries :: "'m \<Rightarrow> ('k \<times> 'v) list"
    and invar :: "'m \<Rightarrow> bool"
  assumes invar_empty: "invar empty"
    and invar_upsert: "invar m \<Longrightarrow> invar (upsert k f v m)"
    and lookup_empty: "lookup empty k = None"
    and lookup_upsert:
      "invar m \<Longrightarrow> lookup (upsert k f v m) l =
         (if l = k then Some (case lookup m k of None \<Rightarrow> v | Some w \<Rightarrow> f w) else lookup m l)"
    and entries_lookup: "invar m \<Longrightarrow> (k, v) \<in> set (entries m) \<longleftrightarrow> lookup m k = Some v"
    and entries_sorted: "invar m \<Longrightarrow> sorted (map fst (entries m)) \<and> distinct (map fst (entries m))"
begin

lemma lookup_insert:
  "invar m \<Longrightarrow> lookup (upsert k (\<lambda>_. v) v m) l = (if l = k then Some v else lookup m l)"
  by (simp add: lookup_upsert split: option.splits)

lemma invar_fold_insert:
  "invar m \<Longrightarrow> invar (fold (\<lambda>x. upsert (key x) (\<lambda>_. g x) (g x)) xs m)"
  by (induction xs arbitrary: m) (auto simp: invar_upsert)

text \<open>Collecting a list into a map keeps the last element of each key.\<close>

lemma lookup_fold_insert:
  "invar m \<Longrightarrow> lookup (fold (\<lambda>x. upsert (key x) (\<lambda>_. g x) (g x)) xs m) k =
     (case find (\<lambda>x. key x = k) (rev xs) of None \<Rightarrow> lookup m k | Some x \<Rightarrow> Some (g x))"
proof (induction xs arbitrary: m)
  case Nil
  then show ?case by simp
next
  case (Cons x xs)
  have find_snoc: "find p (ys @ [y]) =
      (case find p ys of None \<Rightarrow> if p y then Some y else None | Some z \<Rightarrow> Some z)" for p ys and y :: 'a
    by (induction ys) auto
  from Cons show ?case
    by (auto simp: invar_upsert lookup_insert find_snoc split: option.splits)
qed

lemma entries_keys: "invar m \<Longrightarrow> k \<in> fst ` set (entries m) \<longleftrightarrow> lookup m k \<noteq> None"
  using entries_lookup [of m k] by (auto simp: image_iff) (metis fst_conv)

end

text \<open>The sorted association list fulfils the contract.\<close>

lemma map_of_btree_upsert:
  "btree_ok m \<Longrightarrow> map_of (btree_upsert k f v m) l =
     (if l = k then Some (case map_of m k of None \<Rightarrow> v | Some w \<Rightarrow> f w) else map_of m l)"
proof (induction k f v m rule: btree_upsert.induct)
  case (1 k f v)
  then show ?case by simp
next
  case (2 k f v k' w m)
  have notin: "k < k' \<Longrightarrow> map_of m k = None"
    using "2.prems" by (force simp: btree_ok_def map_of_eq_None_iff)
  from 2 notin show ?case by (auto simp: btree_ok_def)
qed

lemma keys_btree_upsert: "fst ` set (btree_upsert k f v m) = insert k (fst ` set m)"
  by (induction k f v m rule: btree_upsert.induct) auto

lemma btree_ok_upsert: "btree_ok m \<Longrightarrow> btree_ok (btree_upsert k f v m)"
proof (induction k f v m rule: btree_upsert.induct)
  case (1 k f v)
  then show ?case by (simp add: btree_ok_def)
next
  case (2 k f v k' w m)
  then show ?case by (auto simp: btree_ok_def keys_btree_upsert)
qed

interpretation btree: ordered_map "[]" btree_upsert map_of "\<lambda>m. m" btree_ok
proof (standard, goal_cases)
  case 1 show ?case by (simp add: btree_ok_def)
next
  case (2 m k f v) then show ?case by (rule btree_ok_upsert)
next
  case 3 show ?case by simp
next
  case (4 m k f v l) then show ?case by (rule map_of_btree_upsert)
next
  case (5 m k v) then show ?case by (simp add: btree_ok_def)
next
  case (6 m) then show ?case by (simp add: btree_ok_def)
qed

lemma map_of_btree_collect:
  "map_of (btree_collect key xs) k = find (\<lambda>x. key x = k) (rev xs)"
  unfolding btree_collect_def btree_insert_def
  using btree.lookup_fold_insert [of "[]" key "\<lambda>x. x" xs k]
  by (simp add: btree_ok_def split: option.splits)

lemma btree_ok_collect: "btree_ok (btree_collect key xs)"
  unfolding btree_collect_def btree_insert_def
  by (rule btree.invar_fold_insert) (simp add: btree_ok_def)

lemma btree_collect_distinct_keys: "distinct (map fst (btree_collect key xs))"
  using btree_ok_collect by (auto simp: btree_ok_def)

lemmas btree_collect_lookup = map_of_is_SomeI [OF btree_collect_distinct_keys]

lemma btree_collect_entry:
  assumes "(k, x) \<in> set (btree_collect key xs)"
  shows "x \<in> set xs \<and> key x = k"
proof -
  have "map_of (btree_collect key xs) k = Some x"
    using assms by (rule btree_collect_lookup)
  then have "find (\<lambda>x. key x = k) (rev xs) = Some x" by (simp only: map_of_btree_collect)
  then obtain i where "i < length (rev xs)" "key (rev xs ! i) = k" "x = rev xs ! i"
    unfolding find_Some_iff by blast
  then show ?thesis using nth_mem [of i "rev xs"] by simp
qed

lemma btree_collect_None: "map_of (btree_collect key xs) k = None \<longleftrightarrow> k \<notin> key ` set xs"
  by (auto simp: map_of_btree_collect find_None_iff)

lemma btree_collect_keys: "map key (map snd (btree_collect key xs)) = map fst (btree_collect key xs)"
  unfolding map_map by (rule map_cong [OF refl]) (metis btree_collect_entry comp_apply surjective_pairing)

lemma btree_collect_value:
  assumes "x \<in> set (map snd (btree_collect key xs))"
  shows "map_of (btree_collect key xs) (key x) = Some x"
proof -
  from assms obtain k where k: "(k, x) \<in> set (btree_collect key xs)" by auto
  then have "k = key x" by (auto dest: btree_collect_entry)
  with k show ?thesis by (simp add: btree_collect_lookup)
qed

lemma key_unique:
  "distinct (map key t) \<Longrightarrow> r \<in> set t \<Longrightarrow> r' \<in> set t \<Longrightarrow> key r = key r' \<Longrightarrow> r = r'"
  by (auto simp: distinct_map inj_on_def)

text \<open>Collecting rows with distinct keys loses none.\<close>

lemma btree_collect_distinct:
  assumes "distinct (map key xs)"
  shows "(k, x) \<in> set (btree_collect key xs) \<longleftrightarrow> x \<in> set xs \<and> key x = k"
proof
  assume "x \<in> set xs \<and> key x = k"
  moreover from this have "map_of (btree_collect key xs) k \<noteq> None" by (auto simp: btree_collect_None)
  then obtain y where "(k, y) \<in> set (btree_collect key xs)" by (auto dest: map_of_SomeD)
  ultimately show "(k, x) \<in> set (btree_collect key xs)"
    using btree_collect_entry [of k y key xs] key_unique [OF assms] by metis
qed (rule btree_collect_entry)

lemma btree_collect_values:
  assumes "distinct (map key xs)"
  shows "set (map snd (btree_collect key xs)) = set xs"
proof -
  have "x \<in> snd ` set (btree_collect key xs) \<longleftrightarrow> x \<in> set xs" for x
    using btree_collect_distinct [OF assms, of "key x" x] btree_collect_entry [of _ x key xs]
    by (force simp: image_iff)
  then show ?thesis by auto
qed

lemma set_bset_insert [simp]: "set (bset_insert k ks) = insert k (set ks)"
  by (simp add: bset_insert_def set_insort_insert)

lemma sorted_bset_insert [simp]: "sorted ks \<Longrightarrow> sorted (bset_insert k ks)"
  by (simp add: bset_insert_def sorted_insort_insert)

lemma distinct_bset_insert [simp]: "distinct ks \<Longrightarrow> distinct (bset_insert k ks)"
  by (simp add: bset_insert_def distinct_insort_insert)

lemma bset_fold:
  "set (fold bset_insert xs ks) = set xs \<union> set ks"
  "sorted ks \<Longrightarrow> sorted (fold bset_insert xs ks)"
  "distinct ks \<Longrightarrow> distinct (fold bset_insert xs ks)"
  by (induction xs arbitrary: ks) auto

lemma set_bset_of [simp]: "set (bset_of xs) = set xs"
  and sorted_bset_of [simp]: "sorted (bset_of xs)"
  and distinct_bset_of [simp]: "distinct (bset_of xs)"
  by (simp_all add: bset_of_def bset_fold)

section \<open>Tables\<close>

text \<open>
  A table is the list of its rows in \<^verbatim>\<open>rowid\<close> order. \<open>update_where\<close> is
  \<^verbatim>\<open>UPDATE t SET .. WHERE ..\<close>, \<open>next_rowid\<close> is what SQLite gives a new row of an
  \<^verbatim>\<open>INTEGER PRIMARY KEY\<close> table: one more than the largest.
\<close>

definition update_where :: "('r \<Rightarrow> bool) \<Rightarrow> ('r \<Rightarrow> 'r) \<Rightarrow> 'r list \<Rightarrow> 'r list" where
  "update_where p f t = map (\<lambda>r. if p r then f r else r) t"

definition next_rowid :: "int list \<Rightarrow> int" where
  "next_rowid ids = (if ids = [] then 1 else Max (set ids) + 1)"

definition find_key :: "('r \<Rightarrow> 'k) \<Rightarrow> 'k \<Rightarrow> 'r list \<Rightarrow> 'r option" where
  "find_key key k t = find (\<lambda>r. key r = k) t"

text \<open>\<^verbatim>\<open>ORDER BY key DESC LIMIT 1\<close> and \<^verbatim>\<open>ORDER BY key ASC LIMIT 1\<close>.\<close>

definition last_by :: "('r \<Rightarrow> 'k::linorder) \<Rightarrow> 'r list \<Rightarrow> 'r option" where
  "last_by key t = (case rev (sort_key key t) of [] \<Rightarrow> None | r # _ \<Rightarrow> Some r)"

definition first_by :: "('r \<Rightarrow> 'k::linorder) \<Rightarrow> 'r list \<Rightarrow> 'r option" where
  "first_by key t = (case sort_key key t of [] \<Rightarrow> None | r # _ \<Rightarrow> Some r)"

lemma last_by_None [simp]: "last_by key t = None \<longleftrightarrow> t = []"
proof -
  have "sort_key key t = [] \<longleftrightarrow> t = []" by (metis set_empty set_sort)
  then show ?thesis by (cases "rev (sort_key key t)") (auto simp: last_by_def)
qed

lemma last_by_Some:
  assumes "last_by key t = Some r"
  shows "r \<in> set t" "\<And>x. x \<in> set t \<Longrightarrow> key x \<le> key r"
proof -
  from assms obtain xs where "rev (sort_key key t) = r # xs"
    by (auto simp: last_by_def split: list.splits)
  then have sorted: "sort_key key t = rev xs @ [r]" by (simp add: rev_eq_Cons_iff)
  then show "r \<in> set t" by (metis in_set_conv_decomp set_sort)
  fix x assume "x \<in> set t"
  then have "x \<in> set (rev xs @ [r])" by (metis sorted set_sort)
  moreover have "sorted (map key (rev xs @ [r]))" by (metis sorted sorted_sort_key)
  ultimately show "key x \<le> key r" by (auto simp: sorted_append)
qed

lemma first_by_None [simp]: "first_by key t = None \<longleftrightarrow> t = []"
proof -
  have "sort_key key t = [] \<longleftrightarrow> t = []" by (metis set_empty set_sort)
  then show ?thesis by (cases "sort_key key t") (auto simp: first_by_def)
qed

lemma first_by_Some:
  assumes "first_by key t = Some r"
  shows "r \<in> set t" "\<And>x. x \<in> set t \<Longrightarrow> key r \<le> key x"
proof -
  from assms obtain xs where sorted: "sort_key key t = r # xs"
    by (auto simp: first_by_def split: list.splits)
  then show "r \<in> set t" by (metis list.set_intros(1) set_sort)
  fix x assume "x \<in> set t"
  then have "x \<in> set (r # xs)" by (metis sorted set_sort)
  moreover have "sorted (map key (r # xs))" by (metis sorted sorted_sort_key)
  ultimately show "key r \<le> key x" by auto
qed

lemma length_update_where [simp]: "length (update_where p f t) = length t"
  by (simp add: update_where_def)

lemma set_update_where:
  "set (update_where p f t) = f ` {r \<in> set t. p r} \<union> {r \<in> set t. \<not> p r}"
  by (auto simp: update_where_def)

lemma in_update_where:
  assumes "row \<in> set (update_where p f t)"
  obtains x where "x \<in> set t" "row = (if p x then f x else x)"
proof -
  from assms have "row \<in> (\<lambda>x. if p x then f x else x) ` set t" by (simp only: update_where_def set_map)
  then show thesis using that by (rule imageE)
qed

lemma next_rowid_greater:
  assumes "i \<in> set ids"
  shows "i < next_rowid ids"
proof -
  from assms have "i \<le> Max (set ids)" by simp
  with assms show ?thesis by (auto simp: next_rowid_def)
qed

lemma next_rowid_fresh: "next_rowid ids \<notin> set ids"
  using next_rowid_greater by blast

lemma find_SomeD: "find p t = Some r \<Longrightarrow> r \<in> set t \<and> p r"
  by (auto simp: find_Some_iff)

lemma find_key_Some: "find_key key k t = Some r \<Longrightarrow> r \<in> set t \<and> key r = k"
  by (auto simp: find_key_def find_Some_iff)

lemma find_key_None: "find_key key k t = None \<longleftrightarrow> k \<notin> key ` set t"
  by (auto simp: find_key_def find_None_iff)

lemma find_key_unique:
  "distinct (map key t) \<Longrightarrow> r \<in> set t \<Longrightarrow> find_key key (key r) t = Some r"
  by (induction t) (auto simp: find_key_def)

lemma find_key_append:
  "find_key key k (t @ u) = (case find_key key k t of None \<Rightarrow> find_key key k u | Some r \<Rightarrow> Some r)"
  by (induction t) (auto simp: find_key_def)

text \<open>
  The contract of an update that does not write the key column: keys stay distinct and rows
  are found where they were.
\<close>

locale key_preserving =
  fixes key :: "'r \<Rightarrow> 'k"
    and upd :: "'r \<Rightarrow> 'r"
  assumes key_upd: "key (upd r) = key r"
begin

lemma keys_update_where: "map key (update_where p upd t) = map key t"
  by (induction t) (auto simp: update_where_def key_upd)

lemma key_image_update_where: "key ` set (update_where p upd t) = key ` set t"
  by (metis keys_update_where set_map)

lemma find_update_where:
  "find_key key k (update_where p upd t) =
     (case find_key key k t of None \<Rightarrow> None | Some r \<Rightarrow> Some (if p r then upd r else r))"
  by (induction t) (auto simp: update_where_def find_key_def key_upd)

lemma find_update_key:
  "find_key key k (update_where (\<lambda>r. key r = l) upd t) =
     (if k = l then map_option upd (find_key key k t) else find_key key k t)"
  by (auto simp: find_update_where split: option.splits dest: find_key_Some)

end

end
