(* ===== verification/Rust_Std.thy ===== *)
theory Rust_Std
  imports Prelude "HOL-Library.Word"
begin

text \<open>
  The parts of the Rust standard library the program computes with: integer bounds,
  saturating and checked operations, parsing and printing of integers, and the string
  functions. A \<^verbatim>\<open>str\<close> is the list of its UTF-8 bytes (a HOL \<open>string\<close>), so lengths and the
  order of strings are those of the bytes, as in Rust and in SQLite's \<^verbatim>\<open>BINARY\<close> collation.
\<close>

section \<open>Integers\<close>

abbreviation u16_max :: nat where "u16_max \<equiv> 65535"
abbreviation u32_max :: nat where "u32_max \<equiv> 4294967295"
abbreviation u64_max :: nat where "u64_max \<equiv> 18446744073709551615"
abbreviation i64_max :: int where "i64_max \<equiv> 9223372036854775807"
abbreviation i64_min :: int where "i64_min \<equiv> -9223372036854775808"

definition in_i64 :: "int \<Rightarrow> bool" where
  "in_i64 x \<longleftrightarrow> i64_min \<le> x \<and> x \<le> i64_max"

text \<open>\<^verbatim>\<open>saturating_add\<close>, \<^verbatim>\<open>saturating_mul\<close>; \<^verbatim>\<open>saturating_sub\<close> is subtraction on \<open>nat\<close>.\<close>

definition sat_add_u32 :: "nat \<Rightarrow> nat \<Rightarrow> nat" where
  "sat_add_u32 a b = min (a + b) u32_max"

definition sat_mul_u64 :: "nat \<Rightarrow> nat \<Rightarrow> nat" where
  "sat_mul_u64 a b = min (a * b) u64_max"

text \<open>\<^verbatim>\<open>u32::try_from\<close> and \<^verbatim>\<open>u64::try_from\<close> of an \<^verbatim>\<open>i64\<close>, \<^verbatim>\<open>i64::try_from\<close> of a \<^verbatim>\<open>u64\<close>.\<close>

definition u32_try_from :: "int \<Rightarrow> nat option" where
  "u32_try_from x = (if 0 \<le> x \<and> x \<le> int u32_max then Some (nat x) else None)"

definition u64_try_from :: "int \<Rightarrow> nat option" where
  "u64_try_from x = (if 0 \<le> x \<and> x \<le> int u64_max then Some (nat x) else None)"

definition i64_try_from :: "nat \<Rightarrow> int option" where
  "i64_try_from n = (if int n \<le> i64_max then Some (int n) else None)"

text \<open>\<^verbatim>\<open>i64\<close> addition in a release build wraps around; the checked operations give \<^verbatim>\<open>None\<close>.\<close>

definition wrap_i64 :: "int \<Rightarrow> int" where
  "wrap_i64 x = (x + 2 ^ 63) mod 2 ^ 64 - 2 ^ 63"

definition checked_i64 :: "int \<Rightarrow> int option" where
  "checked_i64 x = (if in_i64 x then Some x else None)"

lemma wrap_i64_id: "in_i64 x \<Longrightarrow> wrap_i64 x = x"
  by (simp add: wrap_i64_def in_i64_def)

lemma checked_i64_Some [simp]: "checked_i64 x = Some y \<longleftrightarrow> y = x \<and> in_i64 x"
  by (auto simp: checked_i64_def)

section \<open>Decimal numbers\<close>

definition digit_char :: "nat \<Rightarrow> char" where
  "digit_char d = char_of (48 + d)"

definition digit_of :: "char \<Rightarrow> nat" where
  "digit_of c = of_char c - 48"

definition is_ascii_digit :: "char \<Rightarrow> bool" where
  "is_ascii_digit c \<longleftrightarrow> 48 \<le> (of_char c :: nat) \<and> (of_char c :: nat) \<le> 57"

fun show_nat :: "nat \<Rightarrow> string" where
  "show_nat n = (if n < 10 then [digit_char n] else show_nat (n div 10) @ [digit_char (n mod 10)])"

declare show_nat.simps [simp del]

definition show_int :: "int \<Rightarrow> string" where
  "show_int i = (if i < 0 then CHR ''-'' # show_nat (nat (- i)) else show_nat (nat i))"

definition digits_value :: "string \<Rightarrow> nat" where
  "digits_value s = foldl (\<lambda>a c. 10 * a + digit_of c) 0 s"

text \<open>
  \<^verbatim>\<open>str::parse\<close> for the unsigned types with largest value \<open>mx\<close>: an optional \<^verbatim>\<open>+\<close>, at least
  one digit, nothing else, no overflow.
\<close>

definition parse_unsigned :: "nat \<Rightarrow> string \<Rightarrow> nat option" where
  "parse_unsigned mx s =
     (let ds = (case s of [] \<Rightarrow> [] | c # r \<Rightarrow> if c = CHR ''+'' then r else s)
      in if ds = [] \<or> \<not> list_all is_ascii_digit ds \<or> mx < digits_value ds then None
         else Some (digits_value ds))"

lemma of_char_digit_char [simp]: "d < 10 \<Longrightarrow> (of_char (digit_char d) :: nat) = 48 + d"
  by (simp add: digit_char_def)

lemma digit_of_digit_char [simp]: "d < 10 \<Longrightarrow> digit_of (digit_char d) = d"
  by (simp add: digit_of_def)

lemma is_ascii_digit_digit_char [simp]: "d < 10 \<Longrightarrow> is_ascii_digit (digit_char d)"
  by (simp add: is_ascii_digit_def)

lemma digit_char_digit_of: "is_ascii_digit c \<Longrightarrow> digit_char (digit_of c) = c"
  by (simp add: digit_char_def digit_of_def is_ascii_digit_def)

lemma digit_of_less: "is_ascii_digit c \<Longrightarrow> digit_of c < 10"
  unfolding digit_of_def is_ascii_digit_def by arith

lemma digits_value_Nil [simp]: "digits_value [] = 0"
  by (simp add: digits_value_def)

lemma digits_value_snoc [simp]: "digits_value (s @ [c]) = 10 * digits_value s + digit_of c"
  by (simp add: digits_value_def)

lemma digits_value_append:
  "digits_value (s @ t) = digits_value s * 10 ^ length t + digits_value t"
  by (induction t rule: rev_induct) (simp_all flip: append_assoc)

lemma digits_value_show_nat [simp]: "digits_value (show_nat n) = n"
  by (induction n rule: show_nat.induct) (subst show_nat.simps, simp add: digits_value_def)

lemma show_nat_digits: "list_all is_ascii_digit (show_nat n)"
  by (induction n rule: show_nat.induct) (subst show_nat.simps, simp)

lemma show_nat_not_Nil [simp]: "show_nat n \<noteq> []"
  by (subst show_nat.simps) simp

lemma show_nat_inject [simp]: "show_nat m = show_nat n \<longleftrightarrow> m = n"
  by (metis digits_value_show_nat)

lemma digits_value_less: "list_all is_ascii_digit s \<Longrightarrow> digits_value s < 10 ^ length s"
proof (induction s rule: rev_induct)
  case Nil
  then show ?case by simp
next
  case (snoc c s)
  then show ?case using digit_of_less [of c] by simp
qed

lemma hd_show_nat: "is_ascii_digit (hd (show_nat n))"
  using show_nat_digits [of n] by (cases "show_nat n") auto

lemma parse_unsigned_show_nat: "n \<le> mx \<Longrightarrow> parse_unsigned mx (show_nat n) = Some n"
proof -
  assume "n \<le> mx"
  moreover have "show_nat n \<noteq> CHR ''+'' # r" for r
    using hd_show_nat [of n] by (auto simp: is_ascii_digit_def)
  ultimately show ?thesis
    by (cases "show_nat n") (use show_nat_digits [of n] digits_value_show_nat [of n] in
      \<open>auto simp: parse_unsigned_def Let_def\<close>)
qed

lemma parse_unsigned_bound: "parse_unsigned mx s = Some n \<Longrightarrow> n \<le> mx"
  by (auto simp: parse_unsigned_def Let_def split: if_splits)

lemma dash_not_digit: "\<not> is_ascii_digit (CHR ''-'')"
  by (simp add: is_ascii_digit_def)

lemma show_int_inject [simp]: "show_int i = show_int j \<longleftrightarrow> i = j"
proof
  assume eq: "show_int i = show_int j"
  have "i < 0 \<longleftrightarrow> j < 0"
    using eq hd_show_nat [of "nat i"] hd_show_nat [of "nat j"] dash_not_digit
    by (auto simp: show_int_def split: if_splits) (metis list.sel(1))+
  with eq show "i = j" by (auto simp: show_int_def split: if_splits)
qed simp

text \<open>A decimal number never contains a character that is no digit, nor a sign.\<close>

lemma show_int_chars: "c \<in> set (show_int i) \<Longrightarrow> is_ascii_digit c \<or> c = CHR ''-''"
  using show_nat_digits [of "nat i"] show_nat_digits [of "nat (- i)"]
  by (auto simp: show_int_def list_all_iff split: if_splits)

section \<open>Strings\<close>

text \<open>
  \<^verbatim>\<open>str::trim\<close> removes Unicode white space at both ends. The white-space code points are the
  ASCII ones and those below with two or three UTF-8 bytes; UTF-8 is self-synchronising, so
  matching the bytes is matching the code points.
\<close>

definition ascii_ws :: "char list" where
  "ascii_ws = [CHR 0x09, CHR 0x0A, CHR 0x0B, CHR 0x0C, CHR 0x0D, CHR 0x20]"

definition ws2 :: "(char \<times> char) list" where
  "ws2 = [(CHR 0xC2, CHR 0x85), (CHR 0xC2, CHR 0xA0)]"

definition ws3 :: "(char \<times> char \<times> char) list" where
  "ws3 =
     [(CHR 0xE1, CHR 0x9A, CHR 0x80),
      (CHR 0xE2, CHR 0x80, CHR 0x80), (CHR 0xE2, CHR 0x80, CHR 0x81),
      (CHR 0xE2, CHR 0x80, CHR 0x82), (CHR 0xE2, CHR 0x80, CHR 0x83),
      (CHR 0xE2, CHR 0x80, CHR 0x84), (CHR 0xE2, CHR 0x80, CHR 0x85),
      (CHR 0xE2, CHR 0x80, CHR 0x86), (CHR 0xE2, CHR 0x80, CHR 0x87),
      (CHR 0xE2, CHR 0x80, CHR 0x88), (CHR 0xE2, CHR 0x80, CHR 0x89),
      (CHR 0xE2, CHR 0x80, CHR 0x8A), (CHR 0xE2, CHR 0x80, CHR 0xA8),
      (CHR 0xE2, CHR 0x80, CHR 0xA9), (CHR 0xE2, CHR 0x80, CHR 0xAF),
      (CHR 0xE2, CHR 0x81, CHR 0x9F), (CHR 0xE3, CHR 0x80, CHR 0x80)]"

fun strip_front ::
  "(char \<times> char) list \<Rightarrow> (char \<times> char \<times> char) list \<Rightarrow> string \<Rightarrow> string" where
  "strip_front w2 w3 [] = []"
| "strip_front w2 w3 (a # s) =
     (if a \<in> set ascii_ws then strip_front w2 w3 s
      else case s of [] \<Rightarrow> [a] | b # s2 \<Rightarrow>
        if (a, b) \<in> set w2 then strip_front w2 w3 s2
        else case s2 of [] \<Rightarrow> [a, b] | c # s3 \<Rightarrow>
          if (a, b, c) \<in> set w3 then strip_front w2 w3 s3 else a # s)"

definition trim_start :: "string \<Rightarrow> string" where
  "trim_start s = strip_front ws2 ws3 s"

definition trim_end :: "string \<Rightarrow> string" where
  "trim_end s = rev (strip_front (map (\<lambda>(a, b). (b, a)) ws2) (map (\<lambda>(a, b, c). (c, b, a)) ws3) (rev s))"

definition trim :: "string \<Rightarrow> string" where
  "trim s = trim_end (trim_start s)"

text \<open>\<^verbatim>\<open>trim_end_matches('/')\<close>, \<^verbatim>\<open>split_once(c)\<close>, \<^verbatim>\<open>split(c)\<close>, \<^verbatim>\<open>join\<close>, \<^verbatim>\<open>to_ascii_lowercase\<close>.\<close>

definition trim_end_char :: "char \<Rightarrow> string \<Rightarrow> string" where
  "trim_end_char c s = rev (dropWhile (\<lambda>x. x = c) (rev s))"

fun split_once :: "char \<Rightarrow> string \<Rightarrow> (string \<times> string) option" where
  "split_once c [] = None"
| "split_once c (x # s) =
     (if x = c then Some ([], s) else map_option (\<lambda>(l, r). (x # l, r)) (split_once c s))"

fun split_char :: "char \<Rightarrow> string \<Rightarrow> string list" where
  "split_char c [] = [[]]"
| "split_char c (x # s) =
     (if x = c then [] # split_char c s
      else case split_char c s of [] \<Rightarrow> [[x]] | w # ws \<Rightarrow> (x # w) # ws)"

fun join_with :: "string \<Rightarrow> string list \<Rightarrow> string" where
  "join_with sep [] = []"
| "join_with sep [x] = x"
| "join_with sep (x # y # xs) = x @ sep @ join_with sep (y # xs)"

definition ascii_lower_char :: "char \<Rightarrow> char" where
  "ascii_lower_char c =
     (let n = of_char c :: nat in if 65 \<le> n \<and> n \<le> 90 then char_of (n + 32) else c)"

definition to_ascii_lowercase :: "string \<Rightarrow> string" where
  "to_ascii_lowercase s = map ascii_lower_char s"

definition is_ascii_hexdigit :: "char \<Rightarrow> bool" where
  "is_ascii_hexdigit c \<longleftrightarrow>
     (let n = of_char c :: nat
      in (48 \<le> n \<and> n \<le> 57) \<or> (65 \<le> n \<and> n \<le> 70) \<or> (97 \<le> n \<and> n \<le> 102))"

text \<open>\<^verbatim>\<open>value.trim().is_empty()\<close>: the test the service uses for a blank field.\<close>

definition is_blank :: "string \<Rightarrow> bool" where
  "is_blank s \<longleftrightarrow> trim s = []"

definition nonblank :: "string option \<Rightarrow> string option" where
  "nonblank v = (case v of None \<Rightarrow> None | Some s \<Rightarrow> if is_blank s then None else Some s)"

lemma split_once_Some: "split_once c s = Some (l, r) \<Longrightarrow> s = l @ c # r \<and> c \<notin> set l"
  by (induction s arbitrary: l) (auto split: if_splits)

lemma split_once_append: "c \<notin> set l \<Longrightarrow> split_once c (l @ c # r) = Some (l, r)"
  by (induction l) auto

lemma split_once_None: "split_once c s = None \<longleftrightarrow> c \<notin> set s"
  by (induction s) auto

lemma split_char_notin: "c \<notin> set s \<Longrightarrow> split_char c s = [s]"
  by (induction s) auto

lemma split_char_join:
  assumes "xs \<noteq> []" and "\<And>x. x \<in> set xs \<Longrightarrow> c \<notin> set x"
  shows "split_char c (join_with [c] xs) = xs"
proof -
  have app: "c \<notin> set u \<Longrightarrow> split_char c (u @ c # v) = u # split_char c v" for u v
    by (induction u) auto
  from assms show ?thesis
    by (induction "[c]" xs rule: join_with.induct) (simp_all add: split_char_notin app)
qed

lemma strip_front_id:
  "s \<noteq> [] \<Longrightarrow> (\<And>c. c \<in> set s \<Longrightarrow> 33 \<le> (of_char c :: nat) \<and> (of_char c :: nat) \<le> 126) \<Longrightarrow>
   (\<And>a b. (a, b) \<in> set w2 \<Longrightarrow> 127 < (of_char a :: nat)) \<Longrightarrow>
   (\<And>a b c. (a, b, c) \<in> set w3 \<Longrightarrow> 127 < (of_char a :: nat)) \<Longrightarrow> strip_front w2 w3 s = s"
proof -
  assume s: "s \<noteq> []" and ascii: "\<And>c. c \<in> set s \<Longrightarrow> 33 \<le> (of_char c :: nat) \<and> (of_char c :: nat) \<le> 126"
    and w2: "\<And>a b. (a, b) \<in> set w2 \<Longrightarrow> 127 < (of_char a :: nat)"
    and w3: "\<And>a b c. (a, b, c) \<in> set w3 \<Longrightarrow> 127 < (of_char a :: nat)"
  obtain a r where ar: "s = a # r" using s by (cases s) auto
  have a: "33 \<le> (of_char a :: nat)" "(of_char a :: nat) \<le> 126" using ascii ar by auto
  have "a \<notin> set ascii_ws" using a(1) by (auto simp: ascii_ws_def)
  moreover have "(a, b) \<notin> set w2" for b using a(2) w2 [of a b] by auto
  moreover have "(a, b, c) \<notin> set w3" for b c using a(2) w3 [of a b c] by auto
  ultimately show ?thesis by (simp add: ar split: list.split)
qed

text \<open>Trimming leaves a string of visible ASCII characters as it is.\<close>

lemma trim_visible:
  assumes "\<And>c. c \<in> set s \<Longrightarrow> 33 \<le> (of_char c :: nat) \<and> (of_char c :: nat) \<le> 126"
  shows "trim s = s"
proof (cases "s = []")
  case True
  then show ?thesis by (simp add: trim_def trim_start_def trim_end_def)
next
  case False
  have "trim_start s = s"
    unfolding trim_start_def by (rule strip_front_id) (use False assms in \<open>auto simp: ws2_def ws3_def\<close>)
  moreover have "trim_end s = s"
    unfolding trim_end_def
    by (subst strip_front_id) (use False assms in \<open>auto simp: ws2_def ws3_def\<close>)
  ultimately show ?thesis by (simp add: trim_def)
qed

end
