(* ===== verification/App_Error.thy ===== *)
theory App_Error
  imports Rust_Std
begin

text \<open>
  The error type of the service (\<^verbatim>\<open>src/error.rs\<close>) and its HTTP form. The database variant
  carries what the code distinguishes of a \<^verbatim>\<open>rusqlite::Error\<close>: a constraint violation, no
  row where one is required, an integer overflow in an aggregate, anything else.
\<close>

datatype sqlite_error =
    ConstraintViolation string
  | QueryReturnedNoRows
  | IntegerOverflow
  | SqlInputError string
  | OtherSqliteError string

datatype app_error =
    InvalidConfig string
  | InvalidRequest string
  | NotFound string
  | StartupIntegrity string
  | Wallet string
  | Database sqlite_error
  | Io string
  | Json string
  | Http string
  | TimeFormat string
  | TimeParse string

type_synonym 'a result = "app_error + 'a"

text \<open>The status codes \<^verbatim>\<open>into_response\<close> chooses.\<close>

definition http_status :: "app_error \<Rightarrow> nat" where
  "http_status e =
     (case e of
        InvalidConfig _ \<Rightarrow> 400
      | InvalidRequest _ \<Rightarrow> 400
      | StartupIntegrity _ \<Rightarrow> 400
      | NotFound _ \<Rightarrow> 404
      | _ \<Rightarrow> 500)"

definition is_singleton_insert_conflict :: "sqlite_error \<Rightarrow> bool" where
  "is_singleton_insert_conflict e = (case e of ConstraintViolation _ \<Rightarrow> True | _ \<Rightarrow> False)"

definition is_retryable_lightwalletd_error :: "app_error \<Rightarrow> bool" where
  "is_retryable_lightwalletd_error e = (case e of Wallet _ \<Rightarrow> True | _ \<Rightarrow> False)"

lemma http_status_range: "http_status e \<in> {400, 404, 500}"
  by (cases e) (simp_all add: http_status_def)

lemma http_status_404: "http_status e = 404 \<longleftrightarrow> (\<exists>m. e = NotFound m)"
  by (cases e) (simp_all add: http_status_def)

end
