(* ===== verification/Zec_Amount.thy ===== *)
theory Zec_Amount
  imports App_Error
begin

text \<open>
  Amounts: zatoshis as \<open>int\<close> within \<^verbatim>\<open>i64\<close>, ZEC decimals as text (\<^verbatim>\<open>parse_zec_amount\<close>,
  \<^verbatim>\<open>payment_status_for\<close> and \<^verbatim>\<open>remaining_amount\<close> of \<^verbatim>\<open>src/service.rs\<close>,
  \<^verbatim>\<open>format_zat_as_zec\<close> and the arrays of \<^verbatim>\<open>src/db.rs\<close>). The lemmas show that printing and
  parsing are inverse, that parsing never leaves \<^verbatim>\<open>i64\<close>, and how the status of a payment
  depends on the total.
\<close>

section \<open>Printing and parsing\<close>

abbreviation zat_per_zec :: nat where "zat_per_zec \<equiv> 100000000"

definition pad_left_zero :: "nat \<Rightarrow> string \<Rightarrow> string" where
  "pad_left_zero w s = replicate (w - length s) (CHR ''0'') @ s"

definition pad_right_zero :: "nat \<Rightarrow> string \<Rightarrow> string" where
  "pad_right_zero w s = s @ replicate (w - length s) (CHR ''0'')"

definition format_zat_as_zec :: "int \<Rightarrow> string" where
  "format_zat_as_zec value_zat =
     (let sign = (if value_zat < 0 then ''-'' else []);
          absolute = nat \<bar>value_zat\<bar>;
          whole = absolute div zat_per_zec;
          fractional = absolute mod zat_per_zec
      in sign @ show_nat whole @ ''.'' @ pad_left_zero 8 (show_nat fractional))"

definition format_zat_array :: "int list \<Rightarrow> string list" where
  "format_zat_array values = map format_zat_as_zec values"

definition encode_zat_array :: "int list option \<Rightarrow> string option" where
  "encode_zat_array values =
     map_option (\<lambda>vs. ''['' @ join_with '','' (map show_int vs) @ '']'') values"

definition parse_zec_amount :: "string \<Rightarrow> int option" where
  "parse_zec_amount text =
     (let v = trim text;
          (whole, fraction) = (case split_once (CHR ''.'') v of Some p \<Rightarrow> p | None \<Rightarrow> (v, []))
      in if whole = [] \<and> fraction = [] then None
         else if 8 < length fraction \<or> \<not> list_all is_ascii_digit whole
                \<or> \<not> list_all is_ascii_digit fraction then None
         else case (if whole = [] then Some 0 else parse_unsigned (nat i64_max) whole) of
             None \<Rightarrow> None
           | Some w \<Rightarrow>
               (case (if fraction = [] then Some 0
                      else parse_unsigned (nat i64_max) (pad_right_zero 8 fraction)) of
                  None \<Rightarrow> None
                | Some f \<Rightarrow>
                    (case checked_i64 (int w * int zat_per_zec) of
                       None \<Rightarrow> None
                     | Some z \<Rightarrow> checked_i64 (z + int f))))"

text \<open>What a parsed amount can be: between zero and the largest \<^verbatim>\<open>i64\<close>.\<close>

lemma parse_zec_amount_range:
  assumes "parse_zec_amount s = Some v"
  shows "0 \<le> v" and "in_i64 v"
  using assms
  by (auto simp: parse_zec_amount_def Let_def split: if_splits option.splits prod.splits)

lemma length_show_nat_less: "n < 10 ^ k \<Longrightarrow> 0 < k \<Longrightarrow> length (show_nat n) \<le> k"
proof (induction n arbitrary: k rule: show_nat.induct)
  case (1 n)
  show ?case
  proof (cases "n < 10")
    case True
    with "1.prems" show ?thesis by (subst show_nat.simps) simp
  next
    case False
    obtain j where j: "k = Suc j" using "1.prems"(2) by (cases k) auto
    have "0 < j" using False "1.prems" j by (cases j) auto
    moreover have "n div 10 < 10 ^ j" using "1.prems" j by (simp add: less_mult_imp_div_less mult.commute)
    ultimately have "length (show_nat (n div 10)) \<le> j" using "1.IH" False by blast
    with False j show ?thesis by (subst show_nat.simps) simp
  qed
qed

lemma digits_value_zeros: "digits_value (replicate k (CHR ''0'')) = 0"
  by (induction k) (simp_all add: replicate_append_same [symmetric] digit_of_def)

lemma pad_left_zero_digits:
  assumes "n < 10 ^ w" and "0 < w"
  shows "length (pad_left_zero w (show_nat n)) = w"
    and "digits_value (pad_left_zero w (show_nat n)) = n"
    and "list_all is_ascii_digit (pad_left_zero w (show_nat n))"
  using length_show_nat_less [OF assms] show_nat_digits [of n]
  by (auto simp: pad_left_zero_def digits_value_append digits_value_zeros list_all_iff is_ascii_digit_def)

lemma digit_visible: "is_ascii_digit c \<Longrightarrow> 33 \<le> (of_char c :: nat) \<and> (of_char c :: nat) \<le> 126"
  by (simp add: is_ascii_digit_def)

lemma dot_not_digit: "\<not> is_ascii_digit (CHR ''.'')"
  by (simp add: is_ascii_digit_def)

lemma parse_unsigned_digits:
  assumes "list_all is_ascii_digit s" and "s \<noteq> []" and "digits_value s \<le> mx"
  shows "parse_unsigned mx s = Some (digits_value s)"
proof -
  obtain c r where "s = c # r" using assms(2) by (cases s) auto
  moreover have "c \<noteq> CHR ''+''" using assms(1) calculation by (auto simp: is_ascii_digit_def)
  ultimately show ?thesis using assms by (auto simp: parse_unsigned_def)
qed

lemma parse_zec_amount_parts:
  assumes w: "list_all is_ascii_digit w" "w \<noteq> []" and f: "list_all is_ascii_digit f" "length f = 8"
    and fits: "in_i64 (int (digits_value w) * int zat_per_zec + int (digits_value f))"
  shows "parse_zec_amount (w @ ''.'' @ f) =
    Some (int (digits_value w) * int zat_per_zec + int (digits_value f))"
proof -
  have tr: "trim (w @ ''.'' @ f) = w @ ''.'' @ f"
    by (rule trim_visible) (use w f digit_visible in \<open>auto simp: list_all_iff\<close>)
  have sp: "split_once (CHR ''.'') (w @ ''.'' @ f) = Some (w, f)"
    using w dot_not_digit by (auto simp: list_all_iff intro!: split_once_append)
  have bound: "digits_value w \<le> nat i64_max" "digits_value f \<le> nat i64_max"
    "in_i64 (int (digits_value w) * int zat_per_zec)"
    using fits by (auto simp: in_i64_def)
  have "parse_unsigned (nat i64_max) w = Some (digits_value w)"
    by (rule parse_unsigned_digits [OF w bound(1)])
  moreover have "parse_unsigned (nat i64_max) f = Some (digits_value f)"
    by (rule parse_unsigned_digits) (use f bound in auto)
  ultimately show ?thesis using w f fits bound tr sp
    by (auto simp: parse_zec_amount_def Let_def pad_right_zero_def checked_i64_def)
qed

lemma parse_format_zat:
  assumes "0 \<le> v" and "v \<le> i64_max"
  shows "parse_zec_amount (format_zat_as_zec v) = Some v"
proof -
  let ?w = "nat v div zat_per_zec" and ?f = "nat v mod zat_per_zec"
  have f: "?f < 10 ^ 8" by simp
  have v: "int ?w * int zat_per_zec + int ?f = v"
  proof -
    have "?w * zat_per_zec + ?f = nat v" by (rule div_mult_mod_eq)
    then have "int (?w * zat_per_zec + ?f) = v" using assms by simp
    then show ?thesis by (simp only: of_nat_add of_nat_mult)
  qed
  have "parse_zec_amount (show_nat ?w @ ''.'' @ pad_left_zero 8 (show_nat ?f)) =
    Some (int ?w * int zat_per_zec + int ?f)"
    using parse_zec_amount_parts [of "show_nat ?w" "pad_left_zero 8 (show_nat ?f)"]
      show_nat_digits pad_left_zero_digits [OF f] assms v by (auto simp: in_i64_def)
  with assms v show ?thesis by (simp add: format_zat_as_zec_def Let_def)
qed

lemma format_zat_inject:
  "0 \<le> u \<Longrightarrow> u \<le> i64_max \<Longrightarrow> 0 \<le> v \<Longrightarrow> v \<le> i64_max \<Longrightarrow>
   format_zat_as_zec u = format_zat_as_zec v \<longleftrightarrow> u = v"
  by (metis parse_format_zat option.inject)

section \<open>The status of a payment\<close>

datatype payment_status = AwaitingPayment | PartiallyPaid | Paid | Received

definition payment_status_for :: "string option \<Rightarrow> int \<Rightarrow> payment_status" where
  "payment_status_for amount total_zat =
     (case Option.bind amount parse_zec_amount of
        Some requested \<Rightarrow>
          (if requested \<le> total_zat then Paid
           else if total_zat \<le> 0 then AwaitingPayment else PartiallyPaid)
      | None \<Rightarrow> (if total_zat \<le> 0 then AwaitingPayment else Received))"

definition remaining_amount :: "string option \<Rightarrow> int \<Rightarrow> string option" where
  "remaining_amount requested received_zat =
     (case requested of
        None \<Rightarrow> None
      | Some requested_text \<Rightarrow>
          (case parse_zec_amount requested_text of
             Some requested_zat \<Rightarrow>
               (if 0 < received_zat \<and> received_zat < requested_zat
                then Some (format_zat_as_zec (requested_zat - received_zat))
                else Some requested_text)
           | None \<Rightarrow> Some requested_text))"

text \<open>
  Progress of a payment: nothing seen, something seen, settled. The order makes "more money
  never makes the status worse" a monotonicity statement.
\<close>

fun status_rank :: "payment_status \<Rightarrow> nat" where
  "status_rank AwaitingPayment = 0"
| "status_rank PartiallyPaid = 1"
| "status_rank Received = 2"
| "status_rank Paid = 3"

instantiation payment_status :: linorder
begin

definition less_eq_payment_status :: "payment_status \<Rightarrow> payment_status \<Rightarrow> bool" where
  "less_eq_payment_status a b \<longleftrightarrow> status_rank a \<le> status_rank b"

definition less_payment_status :: "payment_status \<Rightarrow> payment_status \<Rightarrow> bool" where
  "less_payment_status a b \<longleftrightarrow> status_rank a < status_rank b"

instance
proof
  fix x y :: payment_status
  assume "x \<le> y" "y \<le> x"
  then show "x = y"
    by (cases x; cases y) (auto simp: less_eq_payment_status_def)
qed (auto simp: less_eq_payment_status_def less_payment_status_def)

end

definition settled :: "payment_status \<Rightarrow> bool" where
  "settled s \<longleftrightarrow> s = Paid \<or> s = Received"

lemma payment_status_mono: "t \<le> u \<Longrightarrow> payment_status_for amount t \<le> payment_status_for amount u"
  by (auto simp: payment_status_for_def less_eq_payment_status_def split: option.splits)

lemma payment_status_Paid:
  "payment_status_for amount t = Paid \<longleftrightarrow>
     (\<exists>text v. amount = Some text \<and> parse_zec_amount text = Some v \<and> v \<le> t)"
  by (cases amount) (auto simp: payment_status_for_def split: option.splits)

text \<open>Paying exactly what the page still asks for settles the payment.\<close>

lemma remaining_settles:
  assumes "payment_status_for (Some text) t = PartiallyPaid"
  shows "\<exists>rest r. remaining_amount (Some text) t = Some rest \<and> parse_zec_amount rest = Some r
    \<and> 0 < r \<and> payment_status_for (Some text) (t + r) = Paid
    \<and> (\<forall>r' < r. payment_status_for (Some text) (t + r') \<noteq> Paid)"
proof -
  from assms obtain v where v: "parse_zec_amount text = Some v" "t < v" "0 < t"
    by (auto simp: payment_status_for_def split: option.splits if_splits)
  have "parse_zec_amount (format_zat_as_zec (v - t)) = Some (v - t)"
    using v parse_zec_amount_range [OF v(1)] by (intro parse_format_zat) (auto simp: in_i64_def)
  with v show ?thesis
    by (intro exI [of _ "format_zat_as_zec (v - t)"] exI [of _ "v - t"])
       (auto simp: remaining_amount_def payment_status_for_def)
qed

section \<open>Properties\<close>

text \<open>C10: Writing an amount of zatoshis as a ZEC decimal and parsing it back gives the amount,
  for every amount that fits in an \<^verbatim>\<open>i64\<close>.\<close>
theorem amount_round_trip:
  assumes "0 \<le> v" "v \<le> i64_max"
  shows "parse_zec_amount (format_zat_as_zec v) = Some v"
  using assms by (rule parse_format_zat)

theorem amount_round_trip_witness: "parse_zec_amount (format_zat_as_zec 123450000) = Some 123450000"
  by (rule amount_round_trip) simp_all

text \<open>While a payment is partial, the remaining amount that is shown parses, is positive, and is
  exactly what is missing: paying it makes the status paid, and no smaller payment does.\<close>
theorem remaining_amount_completes:
  assumes "payment_status_for (Some text) t = PartiallyPaid"
  shows "\<exists>rest r. remaining_amount (Some text) t = Some rest \<and> parse_zec_amount rest = Some r
    \<and> 0 < r \<and> payment_status_for (Some text) (t + r) = Paid
    \<and> (\<forall>r' < r. payment_status_for (Some text) (t + r') \<noteq> Paid)"
  using assms by (rule remaining_settles)

theorem remaining_amount_completes_witness:
  "\<exists>rest r. remaining_amount (Some ''1.5'') 100000000 = Some rest \<and> parse_zec_amount rest = Some r
    \<and> 0 < r \<and> payment_status_for (Some ''1.5'') (100000000 + r) = Paid
    \<and> (\<forall>r' < r. payment_status_for (Some ''1.5'') (100000000 + r') \<noteq> Paid)"
  by (rule remaining_amount_completes) code_simp

end
