(* ===== verification/Text_Encoding.thy ===== *)
theory Text_Encoding
  imports Rust_Std
begin

text \<open>
  The text encodings of \<^verbatim>\<open>src/service.rs\<close>, \<^verbatim>\<open>src/pay_page.rs\<close>, \<^verbatim>\<open>src/wallet_runtime.rs\<close>
  and the hashes of \<^verbatim>\<open>src/db.rs\<close> and \<^verbatim>\<open>src/scanner.rs\<close>: hexadecimal, unpadded base64url,
  percent encoding, HTML escaping and 64-bit FNV-1a. Each encoder comes with a decoder that
  is part of the specification only, and a lemma that the decoder takes the encoder back.
\<close>

unbundle bit_operations_syntax

type_synonym byte = "8 word"

definition as_bytes :: "string \<Rightarrow> byte list" where
  "as_bytes s = map of_char s"

definition from_bytes :: "byte list \<Rightarrow> string" where
  "from_bytes bs = map (\<lambda>b. char_of (unat b)) bs"

lemma unat_of_char_byte: "unat (of_char c :: byte) = (of_char c :: nat)"
proof -
  have "(of_char c :: byte) = of_nat (of_char c)" by (simp add: of_nat_of_char)
  moreover have "(of_char c :: nat) < 2 ^ LENGTH(8)" by simp
  ultimately show ?thesis by (simp only: unat_of_nat mod_less)
qed

lemma from_bytes_as_bytes [simp]: "from_bytes (as_bytes s) = s"
  by (simp add: from_bytes_def as_bytes_def comp_def unat_of_char_byte)

lemma as_bytes_inject [simp]: "as_bytes s = as_bytes t \<longleftrightarrow> s = t"
  by (metis from_bytes_as_bytes)

section \<open>Hexadecimal\<close>

definition hex_digit :: "nat \<Rightarrow> char" where
  "hex_digit n = char_of (if n < 10 then 48 + n else 87 + n)"

definition hex_digit_upper :: "nat \<Rightarrow> char" where
  "hex_digit_upper n = char_of (if n < 10 then 48 + n else 55 + n)"

text \<open>\<^verbatim>\<open>{byte:02x}\<close> for each byte, and the byte-reversed form of a transaction id.\<close>

definition hex_byte :: "byte \<Rightarrow> string" where
  "hex_byte b = [hex_digit (unat b div 16), hex_digit (unat b mod 16)]"

definition hex_string :: "byte list \<Rightarrow> string" where
  "hex_string bytes = concat (map hex_byte bytes)"

definition wire_txid_to_display_hex :: "byte list \<Rightarrow> string" where
  "wire_txid_to_display_hex raw = hex_string (rev raw)"

definition hex_value :: "char \<Rightarrow> nat" where
  "hex_value c = (let n = of_char c :: nat in if n < 58 then n - 48 else if n < 71 then n - 55 else n - 87)"

fun unhex :: "string \<Rightarrow> byte list" where
  "unhex (a # b # s) = of_nat (16 * hex_value a + hex_value b) # unhex s"
| "unhex _ = []"

lemma hex_value_digit [simp]: "n < 16 \<Longrightarrow> hex_value (hex_digit n) = n"
  by (auto simp: hex_value_def hex_digit_def Let_def)

lemma hex_value_digit_upper [simp]: "n < 16 \<Longrightarrow> hex_value (hex_digit_upper n) = n"
  by (auto simp: hex_value_def hex_digit_upper_def Let_def)

lemma unat_byte: "unat (b :: byte) < 256"
  using unsigned_less [of b, where ?'a = nat] by simp

lemma byte_div_16 [simp]: "unat (b :: byte) div 16 < 16"
  using unat_byte [of b] by (simp add: less_mult_imp_div_less)

lemma unhex_hex_string: "unhex (hex_string bs) = bs"
proof (induction bs)
  case Nil
  show ?case by (simp add: hex_string_def)
next
  case (Cons b bs)
  have "of_nat (16 * (unat b div 16) + unat b mod 16) = b"
    by (simp only: mult.commute [of 16] div_mult_mod_eq of_nat_unat ucast_id)
  with Cons show ?case by (simp add: hex_string_def hex_byte_def)
qed

lemma hex_string_inject: "hex_string bs = hex_string cs \<longleftrightarrow> bs = cs"
  by (metis unhex_hex_string)

lemma length_hex_string: "length (hex_string bs) = 2 * length bs"
  by (induction bs) (simp_all add: hex_string_def hex_byte_def)

definition is_lower_hex :: "char \<Rightarrow> bool" where
  "is_lower_hex c \<longleftrightarrow>
     (let n = of_char c :: nat in (48 \<le> n \<and> n \<le> 57) \<or> (97 \<le> n \<and> n \<le> 102))"

lemma hex_digit_lower: "n < 16 \<Longrightarrow> is_lower_hex (hex_digit n)"
  by (auto simp: is_lower_hex_def hex_digit_def Let_def)

lemma hex_string_lower: "list_all is_lower_hex (hex_string bs)"
  by (induction bs) (simp_all add: hex_string_def hex_byte_def hex_digit_lower)

section \<open>FNV-1a\<close>

definition fnv1a :: "byte list \<Rightarrow> 64 word" where
  "fnv1a bytes = fold (\<lambda>b state. (state XOR ucast b) * 0x100000001b3) bytes 0xcbf29ce484222325"

definition to_be_bytes64 :: "64 word \<Rightarrow> byte list" where
  "to_be_bytes64 w = map (\<lambda>k. ucast (drop_bit (8 * k) w)) [7, 6, 5, 4, 3, 2, 1, 0]"

definition receiver_fingerprint :: "byte list \<Rightarrow> byte list" where
  "receiver_fingerprint bytes = to_be_bytes64 (fnv1a bytes)"

definition fingerprint :: "string \<Rightarrow> string" where
  "fingerprint v = hex_string (to_be_bytes64 (fnv1a (as_bytes v)))"

lemma length_receiver_fingerprint: "length (receiver_fingerprint bs) = 8"
  by (simp add: receiver_fingerprint_def to_be_bytes64_def)

section \<open>Base64url without padding\<close>

definition b64_alphabet :: string where
  "b64_alphabet = ''ABCDEFGHIJKLMNOPQRSTUVWXYZabcdefghijklmnopqrstuvwxyz0123456789-_''"

definition b64_pack :: "byte \<Rightarrow> byte \<Rightarrow> byte \<Rightarrow> 32 word" where
  "b64_pack a b c = (push_bit 16 (ucast a) OR push_bit 8 (ucast b)) OR ucast c"

definition b64_sextet :: "32 word \<Rightarrow> nat \<Rightarrow> 32 word" where
  "b64_sextet n index = drop_bit (18 - 6 * index) n AND 63"

definition b64_char :: "32 word \<Rightarrow> nat \<Rightarrow> char" where
  "b64_char n index = b64_alphabet ! unat (b64_sextet n index)"

fun base64url_unpadded :: "byte list \<Rightarrow> string" where
  "base64url_unpadded [] = []"
| "base64url_unpadded [a] = map (b64_char (b64_pack a 0 0)) [0, 1]"
| "base64url_unpadded [a, b] = map (b64_char (b64_pack a b 0)) [0, 1, 2]"
| "base64url_unpadded (a # b # c # rest) =
     map (b64_char (b64_pack a b c)) [0, 1, 2, 3] @ base64url_unpadded rest"

definition b64_value :: "char \<Rightarrow> 32 word" where
  "b64_value c = of_nat (length (takeWhile (\<lambda>x. x \<noteq> c) b64_alphabet))"

definition b64_unpack :: "32 word \<Rightarrow> 32 word \<Rightarrow> 32 word \<Rightarrow> 32 word \<Rightarrow> byte list" where
  "b64_unpack p q r s =
     (let n = ((push_bit 18 p OR push_bit 12 q) OR push_bit 6 r) OR s
      in [ucast (drop_bit 16 n), ucast (drop_bit 8 n), ucast n])"

fun b64_decode :: "string \<Rightarrow> byte list" where
  "b64_decode (p # q # r # s # rest) =
     b64_unpack (b64_value p) (b64_value q) (b64_value r) (b64_value s) @ b64_decode rest"
| "b64_decode [p, q, r] = take 2 (b64_unpack (b64_value p) (b64_value q) (b64_value r) 0)"
| "b64_decode [p, q] = take 1 (b64_unpack (b64_value p) (b64_value q) 0 0)"
| "b64_decode _ = []"

lemma b64_value_nth: "i < 64 \<Longrightarrow> b64_value (b64_alphabet ! i) = of_nat i"
proof -
  have "\<forall>i \<in> set [0..<64]. length (takeWhile (\<lambda>x. x \<noteq> b64_alphabet ! i) b64_alphabet) = i"
    by code_simp
  then show "i < 64 \<Longrightarrow> ?thesis" by (simp add: b64_value_def)
qed

lemma b64_sextet_less: "unat (b64_sextet n i) < 64"
proof -
  have "b64_sextet n i \<le> 63" by (simp add: b64_sextet_def word_and_le1)
  then have "unat (b64_sextet n i) \<le> unat (63 :: 32 word)" by (simp add: word_le_nat_alt)
  then show ?thesis by simp
qed

lemma b64_value_char [simp]: "b64_value (b64_char n i) = b64_sextet n i"
  by (simp add: b64_char_def b64_value_nth b64_sextet_less)

lemma b64_sextet_slice: "b64_sextet n i = take_bit 6 (drop_bit (18 - 6 * i) n)"
  by (simp add: b64_sextet_def take_bit_eq_mask mask_eq_exp_minus_1)


lemma bit_slice: "bit (push_bit i (take_bit 6 (drop_bit i n)) :: 32 word) k \<longleftrightarrow> i \<le> k \<and> k < i + 6 \<and> bit n k"
  by (auto simp: bit_simps dest: bit_imp_le_length)

lemma repack:
  fixes n :: "32 word"
  assumes "\<And>k. 24 \<le> k \<Longrightarrow> \<not> bit n k"
  shows "((push_bit 18 (take_bit 6 (drop_bit 18 n)) OR push_bit 12 (take_bit 6 (drop_bit 12 n)))
     OR push_bit 6 (take_bit 6 (drop_bit 6 n))) OR take_bit 6 n = n"
proof (rule bit_eqI)
  fix k
  show "bit (((push_bit 18 (take_bit 6 (drop_bit 18 n)) OR push_bit 12 (take_bit 6 (drop_bit 12 n)))
     OR push_bit 6 (take_bit 6 (drop_bit 6 n))) OR take_bit 6 n) k = bit n k"
    unfolding bit_or_iff bit_slice bit_take_bit_iff using assms [of k] by arith
qed

lemma byte_high_bits: "8 \<le> n \<Longrightarrow> \<not> bit (a :: byte) n"
  by (auto dest: bit_imp_le_length)

lemma bit_pack: "bit (b64_pack a b c) k \<longleftrightarrow>
   (16 \<le> k \<and> bit a (k - 16)) \<or> (8 \<le> k \<and> bit b (k - 8)) \<or> bit c k"
  unfolding b64_pack_def by (auto simp: bit_simps dest: bit_imp_le_length)

lemma pack_high: "24 \<le> k \<Longrightarrow> \<not> bit (b64_pack a b c) k"
  by (auto simp: bit_pack byte_high_bits)

lemma pack_bytes:
  "ucast (drop_bit 16 (b64_pack a b c)) = a"
  "ucast (drop_bit 8 (b64_pack a b c)) = b"
  "ucast (b64_pack a b c) = c"
  by (rule bit_eqI; auto simp: bit_unsigned_iff bit_drop_bit_eq bit_pack byte_high_bits dest: bit_imp_le_length)+

lemma b64_unpack_pack:
  "b64_unpack (b64_sextet (b64_pack a b c) 0) (b64_sextet (b64_pack a b c) 1)
     (b64_sextet (b64_pack a b c) 2) (b64_sextet (b64_pack a b c) 3) = [a, b, c]"
  using repack [of "b64_pack a b c", OF pack_high] by (simp add: b64_unpack_def b64_sextet_slice Let_def pack_bytes)
lemma b64_sextet_tail:
  "b64_sextet (b64_pack a b 0) 3 = 0"
  "b64_sextet (b64_pack a 0 0) 2 = 0"
  "b64_sextet (b64_pack a 0 0) 3 = 0"
  by (rule bit_eqI; auto simp: b64_sextet_slice bit_take_bit_iff bit_drop_bit_eq bit_pack byte_high_bits)+

lemma b64_decode_base64url: "b64_decode (base64url_unpadded bs) = bs"
proof (induction bs rule: base64url_unpadded.induct)
  case 1
  show ?case by simp
next
  case (2 a)
  show ?case using b64_unpack_pack [of a 0 0] by (simp add: b64_sextet_tail)
next
  case (3 a b)
  show ?case using b64_unpack_pack [of a b 0] by (simp add: b64_sextet_tail)
next
  case (4 a b c rest)
  then show ?case using b64_unpack_pack [of a b c] by simp
qed

definition is_b64_char :: "char \<Rightarrow> bool" where
  "is_b64_char c \<longleftrightarrow> c \<in> set b64_alphabet"

lemma b64_char_in_alphabet: "b64_char n i \<in> set b64_alphabet"
proof -
  have "length b64_alphabet = 64" by code_simp
  then show ?thesis using b64_sextet_less [of n i] by (simp add: b64_char_def)
qed

lemma base64url_chars: "list_all is_b64_char (base64url_unpadded bs)"
  by (induction bs rule: base64url_unpadded.induct) (simp_all add: is_b64_char_def b64_char_in_alphabet)

lemma base64url_eq_Nil [simp]: "base64url_unpadded bs = [] \<longleftrightarrow> bs = []"
  by (cases bs rule: base64url_unpadded.cases) simp_all

section \<open>Percent encoding\<close>

definition is_unreserved :: "char \<Rightarrow> bool" where
  "is_unreserved c \<longleftrightarrow>
     (let n = of_char c :: nat
      in (65 \<le> n \<and> n \<le> 90) \<or> (97 \<le> n \<and> n \<le> 122) \<or> (48 \<le> n \<and> n \<le> 57)
         \<or> c = CHR ''-'' \<or> c = CHR ''_'' \<or> c = CHR ''.'' \<or> c = CHR ''~'')"

definition percent_byte :: "char \<Rightarrow> string" where
  "percent_byte c =
     [CHR ''%'', hex_digit_upper (of_char c div 16), hex_digit_upper (of_char c mod 16)]"

definition encode_uri_component :: "string \<Rightarrow> string" where
  "encode_uri_component text =
     concat (map (\<lambda>c. if is_unreserved c then [c] else percent_byte c) text)"

fun percent_decode :: "string \<Rightarrow> string" where
  "percent_decode [] = []"
| "percent_decode (c # s) =
     (if c = CHR ''%'' then
        (case s of a # b # r \<Rightarrow> char_of (16 * hex_value a + hex_value b) # percent_decode r | _ \<Rightarrow> c # s)
      else c # percent_decode s)"

lemma percent_not_unreserved: "\<not> is_unreserved (CHR ''%'')"
  by (simp add: is_unreserved_def)

lemma char_div_16 [simp]: "(of_char c :: nat) div 16 < 16"
  by (simp add: less_mult_imp_div_less)

lemma percent_decode_encode: "percent_decode (encode_uri_component s) = s"
proof (induction s)
  case Nil
  show ?case by (simp add: encode_uri_component_def)
next
  case (Cons c s)
  have "char_of (16 * (of_char c div 16) + of_char c mod 16 :: nat) = c"
    by (simp only: mult.commute [of 16] div_mult_mod_eq) simp
  with Cons show ?case
    using percent_not_unreserved
    by (cases "c = CHR ''%''") (auto simp: encode_uri_component_def percent_byte_def)
qed

lemma hex_digit_upper_unreserved: "n < 16 \<Longrightarrow> is_unreserved (hex_digit_upper n)"
  by (auto simp: is_unreserved_def hex_digit_upper_def Let_def)

lemma encode_uri_component_chars:
  "list_all (\<lambda>c. is_unreserved c \<or> c = CHR ''%'') (encode_uri_component s)"
  by (induction s) (auto simp: encode_uri_component_def percent_byte_def hex_digit_upper_unreserved)

lemma encode_uri_component_eq_Nil [simp]: "encode_uri_component s = [] \<longleftrightarrow> s = []"
  by (cases s) (auto simp: encode_uri_component_def percent_byte_def)

section \<open>HTML escaping\<close>

definition escape_html_char :: "char \<Rightarrow> string" where
  "escape_html_char c =
     (if c = CHR ''&'' then ''&amp;''
      else if c = CHR ''<'' then ''&lt;''
      else if c = CHR ''>'' then ''&gt;''
      else if c = CHR 0x22 then ''&quot;''
      else if c = CHR 0x27 then ''&#39;''
      else [c])"

definition escape_html :: "string \<Rightarrow> string" where
  "escape_html text = concat (map escape_html_char text)"

text \<open>What a browser makes of the five references the encoder writes.\<close>

fun unescape_html :: "string \<Rightarrow> string" where
  "unescape_html [] = []"
| "unescape_html (c # s) =
     (if c \<noteq> CHR ''&'' then c # unescape_html s
      else if take 4 s = ''amp;'' then CHR ''&'' # unescape_html (drop 4 s)
      else if take 3 s = ''lt;'' then CHR ''<'' # unescape_html (drop 3 s)
      else if take 3 s = ''gt;'' then CHR ''>'' # unescape_html (drop 3 s)
      else if take 5 s = ''quot;'' then CHR 0x22 # unescape_html (drop 5 s)
      else if take 4 s = ''#39;'' then CHR 0x27 # unescape_html (drop 4 s)
      else c # unescape_html s)"

lemma unescape_escape_html: "unescape_html (escape_html s) = s"
  by (induction s) (simp_all add: escape_html_def escape_html_char_def)

lemma escape_html_markup:
  "c \<in> set (escape_html s) \<Longrightarrow> c \<noteq> CHR ''<'' \<and> c \<noteq> CHR ''>'' \<and> c \<noteq> CHR 0x22 \<and> c \<noteq> CHR 0x27"
  by (induction s) (auto simp: escape_html_def escape_html_char_def split: if_splits)

section \<open>Properties\<close>

text \<open>Text put into the pay page is inert and faithful: no character of it opens a tag, closes an
  attribute or ends a quoted string, and reading the entities back gives the text.\<close>
theorem escaped_text_is_inert:
  "unescape_html (escape_html s) = s
   \<and> list_all (\<lambda>c. c \<notin> set [CHR ''<'', CHR ''>'', CHR 0x22, CHR 0x27]) (escape_html s)"
  using escape_html_markup by (fastforce simp: list_all_iff unescape_escape_html)

end
