(* ===== verification/App_Db.thy ===== *)
theory App_Db
  imports Zec_Amount Text_Encoding
begin

text \<open>
  The data of \<^verbatim>\<open>src/db.rs\<close>: one record per struct and per table of the schema, and the
  database as the record of its tables. Columns with a \<^verbatim>\<open>CHECK (.. IN ..)\<close> that only literals
  of the program ever reach are datatypes; the 0/1 columns are \<open>bool\<close>. Table rows are kept
  in \<^verbatim>\<open>rowid\<close> order. \<^verbatim>\<open>address_finality_checkpoints\<close> is created by the schema and never
  touched by the program, so it has no field here.
\<close>

section \<open>Enumerations\<close>

datatype receipt_kind = Mined | Mempool

datatype receipt_state = Active | Revoked

datatype dirty_state = Clean | Dirty | QueuedForWebhook

datatype delivery_state = Queued | Sending | RetryWait | Succeeded | PermanentFailure

section \<open>Structs\<close>

record wallet_identity =
  canonical_uivk :: string
  uivk_fingerprint :: string
  wi_network :: string
  wi_birthday_height :: nat
  wi_wallet_db_path :: string
  initialized_at :: string
  last_validated_at :: string

record service_metadata =
  app_schema_version :: int
  wallet_schema_version_seen :: int
  last_seen_tip_height :: int
  last_scanned_height :: int
  last_stable_tip_height :: int
  current_sync_state :: string
  current_scan_epoch :: int
  catch_up_entered_at :: "string option"
  catch_up_exited_at :: "string option"
  md_webhook_report_confirmations :: int
  md_finality_confirmations :: int

text \<open>The row adds the column of \<^verbatim>\<open>ensure_received_by_confirmations_columns\<close>.\<close>

record service_metadata_row = service_metadata +
  md_required_confirmations :: "int option"

record new_issued_address =
  na_unified_address :: string
  na_address_source :: string
  na_diversifier_index_be :: "byte list option"
  na_diversifier_bytes :: "byte list option"
  na_request_label :: "string option"
  na_request_memo :: "string option"
  na_request_message :: "string option"
  na_requested_amount :: "string option"

record new_receiver =
  nr_pool :: string
  nr_receiver_encoding :: string
  nr_receiver_fingerprint :: "byte list"

record fresh_allocation =
  fa_issued_address :: new_issued_address
  fa_receivers :: "new_receiver list"

record attributed_receipt =
  sr_address_id :: int
  sr_txid_hex :: string
  sr_pool :: string
  sr_receipt_uid :: string
  sr_value_zat :: int
  sr_mined_height :: int
  sr_confirmation_depth :: int
  sr_eligible_for_webhook :: bool
  sr_receipt_kind :: receipt_kind
  sr_first_observed_at :: string
  sr_last_observed_at :: string

record reconciliation =
  rc_affected_address_ids :: "int list"
  rc_inserted_receipt_count :: nat
  rc_revoked_receipt_count :: nat
  rc_reactivated_receipt_count :: nat

section \<open>Rows\<close>

record issued_address_row =
  ia_address_id :: int
  ia_unified_address :: string
  ia_address_source :: string
  ia_diversifier_index_be :: "byte list option"
  ia_diversifier_bytes :: "byte list option"
  ia_created_at :: string
  ia_request_label :: "string option"
  ia_request_memo :: "string option"
  ia_request_message :: "string option"
  ia_requested_amount :: "string option"

record payment_link_row =
  pl_payment_id :: string
  pl_address_id :: int
  pl_return_url :: "string option"
  pl_created_at :: string

record receiver_row =
  rv_receiver_id :: int
  rv_address_id :: int
  rv_pool :: string
  rv_receiver_encoding :: string
  rv_receiver_fingerprint :: "byte list"
  rv_is_active :: bool
  rv_created_at :: string

record totals_row =
  at_address_id :: int
  at_finalized_through_height :: int
  at_finalized_total_zat :: int
  at_recent_total_zat :: int
  at_current_total_zat :: int
  at_last_computed_tip_height :: int
  at_dirty_state :: dirty_state
  at_dirty_reason :: "string option"
  at_dirty_since_height :: "int option"
  at_state_version :: int
  at_last_changed_at :: string
  at_last_notified_total_zat :: int
  at_last_notified_event_id :: "string option"
  at_last_notified_at :: "string option"
  at_received_by_confirmations :: "string option"
  at_last_notified_by_confirmations :: "string option"

record receipt_row =
  rr_receipt_id :: int
  rr_address_id :: int
  rr_txid :: string
  rr_pool :: string
  rr_receipt_uid :: string
  rr_value_zat :: int
  rr_mined_height :: int
  rr_confirmation_depth :: int
  rr_eligible_for_webhook :: bool
  rr_receipt_kind :: receipt_kind
  rr_first_observed_at :: string
  rr_observed_at :: string
  rr_receipt_state :: receipt_state
  rr_state_version :: int

record sync_transition_row =
  st_from_state :: string
  st_to_state :: string
  st_reason :: string
  st_tip_height :: int
  st_scanned_height :: int
  st_scan_epoch :: int
  st_detected_at :: string

record reorg_event_row =
  re_scan_epoch :: int
  re_detected_at :: string
  re_previous_tip_height :: int
  re_new_tip_height :: int
  re_rewind_height :: int
  re_affected_address_count :: int
  re_notes :: string

record delivery_row =
  wd_delivery_id :: int
  wd_address_id :: int
  wd_event_id :: string
  wd_total_received_zat :: int
  wd_observed_at :: string
  wd_request_body_json :: string
  wd_delivery_state :: delivery_state
  wd_attempt_count :: int
  wd_next_attempt_at :: "string option"
  wd_last_http_status :: "int option"
  wd_last_response_body :: "string option"
  wd_last_attempt_at :: "string option"
  wd_received_by_confirmations :: "string option"

record attempt_row =
  wa_attempt_id :: int
  wa_delivery_id :: int
  wa_attempted_at :: string
  wa_http_status :: "int option"
  wa_response_body :: "string option"
  wa_transport_error :: "string option"
  wa_duration_ms :: int

section \<open>The database\<close>

record app_db =
  db_wallet_identity :: "wallet_identity option"
  db_simulated_marker :: "string option"
  db_metadata :: "service_metadata_row option"
  db_issued_addresses :: "issued_address_row list"
  db_payment_links :: "payment_link_row list"
  db_receivers :: "receiver_row list"
  db_totals :: "totals_row list"
  db_receipts :: "receipt_row list"
  db_transitions :: "sync_transition_row list"
  db_reorgs :: "reorg_event_row list"
  db_deliveries :: "delivery_row list"
  db_attempts :: "attempt_row list"

type_synonym 'a db_op = "(app_db, app_error, 'a) prog"

text \<open>The schema on a new file: every table empty.\<close>

definition empty_db :: app_db where
  "empty_db = \<lparr>db_wallet_identity = None, db_simulated_marker = None, db_metadata = None,
     db_issued_addresses = [], db_payment_links = [], db_receivers = [], db_totals = [],
     db_receipts = [], db_transitions = [], db_reorgs = [], db_deliveries = [], db_attempts = []\<rparr>"

text \<open>The \<^verbatim>\<open>CHECK\<close> constraints on text columns that the program fills from data.\<close>

definition pool_allowed :: "string \<Rightarrow> bool" where
  "pool_allowed p \<longleftrightarrow> p \<in> set [''orchard'', ''ironwood'', ''sapling'']"

definition address_source_allowed :: "string \<Rightarrow> bool" where
  "address_source_allowed s \<longleftrightarrow> s = ''fresh''"

text \<open>\<^verbatim>\<open>REFERENCES issued_addresses(address_id)\<close>, with \<^verbatim>\<open>PRAGMA foreign_keys = ON\<close>.\<close>

definition address_exists :: "app_db \<Rightarrow> int \<Rightarrow> bool" where
  "address_exists db a \<longleftrightarrow> a \<in> set (map ia_address_id (db_issued_addresses db))"

definition constraint :: "string \<Rightarrow> app_error" where
  "constraint what = Database (ConstraintViolation what)"

text \<open>
  Third-party code the database layer calls, as parameters of the model: parsing a JSON array
  of integers and printing a JSON value (\<^verbatim>\<open>serde_json\<close>), and the RFC 3339 time 24 hours
  earlier (\<^verbatim>\<open>time\<close>, in \<^verbatim>\<open>mempool_fresh_cutoff\<close>).
\<close>

datatype json = JNull | JString string | JArray "json list" | JObject "(string \<times> json) list"

record externals =
  ext_parse_int_array :: "string \<Rightarrow> int list option"
  ext_print_json :: "json \<Rightarrow> string result"
  ext_day_before :: "string \<Rightarrow> string result"

definition decode_zat_array :: "externals \<Rightarrow> string option \<Rightarrow> int list option" where
  "decode_zat_array ext v = Option.bind v (ext_parse_int_array ext)"

text \<open>
  What \<^verbatim>\<open>serde_json\<close> documents of integer arrays: it reads back what \<^verbatim>\<open>encode_zat_array\<close>
  prints.
\<close>

definition parses_int_arrays :: "externals \<Rightarrow> bool" where
  "parses_int_arrays ext \<longleftrightarrow>
     (\<forall>vs. list_all in_i64 vs \<longrightarrow> decode_zat_array ext (encode_zat_array (Some vs)) = Some vs)"

section \<open>Aggregates\<close>

text \<open>
  \<^verbatim>\<open>COALESCE(SUM(v), 0)\<close>: SQLite adds in 64 bits and raises an error on overflow.
\<close>

fun sql_sum_from :: "int \<Rightarrow> int list \<Rightarrow> int result" where
  "sql_sum_from acc [] = Inr acc"
| "sql_sum_from acc (v # vs) =
     (if in_i64 (acc + v) then sql_sum_from (acc + v) vs else Inl (Database IntegerOverflow))"

definition sql_sum :: "int list \<Rightarrow> int result" where
  "sql_sum vs = sql_sum_from 0 vs"

text \<open>\<^verbatim>\<open>COALESCE(MAX(v), 0)\<close>.\<close>

definition sql_max :: "int list \<Rightarrow> int" where
  "sql_max vs = (if vs = [] then 0 else Max (set vs))"

lemma sql_sum_from_Inr: "sql_sum_from acc vs = Inr s \<Longrightarrow> s = acc + sum_list vs"
  by (induction acc vs rule: sql_sum_from.induct) (auto split: if_splits)

lemma sql_sum_from_in_i64: "sql_sum_from acc vs = Inr s \<Longrightarrow> in_i64 acc \<Longrightarrow> in_i64 s"
  by (induction acc vs rule: sql_sum_from.induct) (auto split: if_splits)

lemma sql_sum_Inr: "sql_sum vs = Inr s \<Longrightarrow> s = sum_list vs \<and> in_i64 s"
  using sql_sum_from_Inr [of 0 vs s] sql_sum_from_in_i64 [of 0 vs s]
  by (simp add: sql_sum_def in_i64_def)

text \<open>Amounts that are not negative and fit in total never overflow on the way.\<close>

lemma sql_sum_from_nonneg:
  "0 \<le> acc \<Longrightarrow> list_all (\<lambda>v. 0 \<le> v) vs \<Longrightarrow> acc + sum_list vs \<le> i64_max \<Longrightarrow>
   sql_sum_from acc vs = Inr (acc + sum_list vs)"
proof (induction acc vs rule: sql_sum_from.induct)
  case (1 acc)
  then show ?case by simp
next
  case (2 acc v vs)
  then have "0 \<le> sum_list vs" by (simp add: list_all_iff sum_list_nonneg)
  with 2 show ?case by (simp add: in_i64_def)
qed

lemma sql_sum_nonneg:
  "list_all (\<lambda>v. 0 \<le> v) vs \<Longrightarrow> sum_list vs \<le> i64_max \<Longrightarrow> sql_sum vs = Inr (sum_list vs)"
  using sql_sum_from_nonneg [of 0 vs] by (simp add: sql_sum_def)

end
