(* ===== verification/Db_Totals.thy ===== *)
theory Db_Totals
  imports App_Db
begin

text \<open>
  The per-address totals: \<^verbatim>\<open>recompute_address_totals\<close> and
  \<^verbatim>\<open>received_by_confirmations_zat\<close> of \<^verbatim>\<open>src/db.rs\<close>. A recomputation reads the receipts of an
  address and writes its row of \<^verbatim>\<open>address_totals\<close>; the row becomes dirty exactly when the
  reported total or the array by depth changed.
\<close>

section \<open>Reading the receipts of an address\<close>

definition receipts_of :: "app_db \<Rightarrow> int \<Rightarrow> receipt_row list" where
  "receipts_of db a = filter (\<lambda>r. rr_address_id r = a) (db_receipts db)"

definition is_active :: "receipt_row \<Rightarrow> bool" where
  "is_active r \<longleftrightarrow> rr_receipt_state r = Active"

text \<open>A receipt counts towards \<^verbatim>\<open>total_received\<close> when it is active and eligible.\<close>

definition is_counted :: "receipt_row \<Rightarrow> bool" where
  "is_counted r \<longleftrightarrow> is_active r \<and> rr_eligible_for_webhook r"

definition is_finalized :: "int \<Rightarrow> receipt_row \<Rightarrow> bool" where
  "is_finalized cutoff r \<longleftrightarrow> is_counted r \<and> rr_receipt_kind r = Mined \<and> rr_mined_height r \<le> cutoff"

text \<open>\<^verbatim>\<open>CASE WHEN tip >= mined_height THEN tip - mined_height + 1 ELSE 0 END\<close>.\<close>

definition depth_at :: "int \<Rightarrow> int \<Rightarrow> int" where
  "depth_at tip_height height = (if height \<le> tip_height then tip_height - height + 1 else 0)"

definition receipt_depth :: "int \<Rightarrow> receipt_row \<Rightarrow> int" where
  "receipt_depth tip_height r =
     (if rr_receipt_kind r = Mined then depth_at tip_height (rr_mined_height r) else 0)"

text \<open>\<^verbatim>\<open>for slot in by_depth.iter_mut().take(reached + 1) { *slot += value_zat }\<close>.\<close>

definition add_to_slots :: "nat \<Rightarrow> int \<Rightarrow> int list \<Rightarrow> int list" where
  "add_to_slots reached v slots =
     map (\<lambda>x. wrap_i64 (x + v)) (take (reached + 1) slots) @ drop (reached + 1) slots"

fun add_by_depth :: "int \<Rightarrow> nat \<Rightarrow> receipt_row list \<Rightarrow> int list \<Rightarrow> int list" where
  "add_by_depth tip_height required [] by_depth = by_depth"
| "add_by_depth tip_height required (r # rows) by_depth =
     (let reached = min (nat (max 0 (receipt_depth tip_height r))) required
      in add_by_depth tip_height required rows (add_to_slots reached (rr_value_zat r) by_depth))"

definition received_by_confirmations_zat :: "app_db \<Rightarrow> int \<Rightarrow> int \<Rightarrow> int option \<Rightarrow> int list option" where
  "received_by_confirmations_zat db a tip_height required_confirmations =
     (case required_confirmations of
        None \<Rightarrow> None
      | Some req \<Rightarrow>
          (let required = nat (max 0 req)
           in Some (add_by_depth tip_height required (filter is_counted (receipts_of db a))
                      (replicate (required + 1) 0))))"

definition stored_required_confirmations :: "app_db \<Rightarrow> int option" where
  "stored_required_confirmations db = Option.bind (db_metadata db) md_required_confirmations"

section \<open>Recomputing\<close>

definition finalized_cutoff_height :: "int \<Rightarrow> nat \<Rightarrow> int" where
  "finalized_cutoff_height tip_height finality_confirmations =
     (if int finality_confirmations \<le> tip_height
      then tip_height - int finality_confirmations + 1 else 0)"

definition recompute_row ::
  "app_db \<Rightarrow> int \<Rightarrow> int \<Rightarrow> string \<Rightarrow> string \<Rightarrow> (int \<times> int) list \<Rightarrow> totals_row \<Rightarrow> totals_row result" where
  "recompute_row db cutoff tip_height now reason dirty_since t =
     (let a = at_address_id t; rows = receipts_of db a
      in bind_result (sql_sum (map rr_value_zat (filter is_active rows))) (\<lambda>active_total.
         bind_result (sql_sum (map rr_value_zat (filter is_counted rows))) (\<lambda>eligible_total.
         bind_result (sql_sum (map rr_value_zat (filter (is_finalized cutoff) rows))) (\<lambda>finalized_total.
           let by_conf = encode_zat_array
                 (received_by_confirmations_zat db a tip_height (stored_required_confirmations db));
               changed = (at_current_total_zat t \<noteq> eligible_total
                          \<or> at_received_by_confirmations t \<noteq> by_conf)
           in Inr (t\<lparr>
                at_finalized_through_height := sql_max (map rr_mined_height (filter (is_finalized cutoff) rows)),
                at_finalized_total_zat := finalized_total,
                at_recent_total_zat := eligible_total - finalized_total,
                at_current_total_zat := eligible_total,
                at_last_computed_tip_height := tip_height,
                at_dirty_state := (if changed then Dirty else at_dirty_state t),
                at_dirty_reason := (if changed then Some reason else at_dirty_reason t),
                at_dirty_since_height := (if changed then map_of dirty_since a else at_dirty_since_height t),
                at_state_version := (if changed then at_state_version t + 1 else at_state_version t),
                at_last_changed_at := now,
                at_received_by_confirmations := by_conf\<rparr>)))))"

definition replace_totals :: "totals_row \<Rightarrow> app_db \<Rightarrow> app_db" where
  "replace_totals t db =
     db\<lparr>db_totals := update_where (\<lambda>u. at_address_id u = at_address_id t) (\<lambda>_. t) (db_totals db)\<rparr>"

definition recompute_address ::
  "int \<Rightarrow> int \<Rightarrow> string \<Rightarrow> string \<Rightarrow> (int \<times> int) list \<Rightarrow> int \<Rightarrow> unit \<Rightarrow> unit db_op" where
  "recompute_address cutoff tip_height now reason dirty_since a _ db =
     (case find_key at_address_id a (db_totals db) of
        None \<Rightarrow> (Inl (Database QueryReturnedNoRows), db)
      | Some t \<Rightarrow>
          (case recompute_row db cutoff tip_height now reason dirty_since t of
             Inl e \<Rightarrow> (Inl e, db)
           | Inr t' \<Rightarrow> (Inr (), replace_totals t' db)))"

definition recompute_address_totals ::
  "int list \<Rightarrow> int \<Rightarrow> nat \<Rightarrow> string \<Rightarrow> string \<Rightarrow> (int \<times> int) list \<Rightarrow> unit db_op" where
  "recompute_address_totals address_ids tip_height finality_confirmations now reason dirty_since =
     for_each (recompute_address (finalized_cutoff_height tip_height finality_confirmations)
                 tip_height now reason dirty_since) address_ids ()"

section \<open>What a recomputation establishes\<close>

definition eligible_total :: "app_db \<Rightarrow> int \<Rightarrow> int" where
  "eligible_total db a = sum_list (map rr_value_zat (filter is_counted (receipts_of db a)))"

text \<open>A totals row reports what the receipts say.\<close>

definition total_current :: "app_db \<Rightarrow> totals_row \<Rightarrow> bool" where
  "total_current db t \<longleftrightarrow> at_current_total_zat t = eligible_total db (at_address_id t)"

definition totals_current :: "app_db \<Rightarrow> bool" where
  "totals_current db \<longleftrightarrow> list_all (total_current db) (db_totals db)"

definition totals_keys_ok :: "app_db \<Rightarrow> bool" where
  "totals_keys_ok db \<longleftrightarrow> distinct (map at_address_id (db_totals db))"

lemma recompute_row_Inr:
  assumes "recompute_row db cutoff tip now reason since t = Inr t'"
  shows "at_address_id t' = at_address_id t"
    and "at_current_total_zat t' = eligible_total db (at_address_id t)"
    and "at_finalized_total_zat t' + at_recent_total_zat t' = at_current_total_zat t'"
    and "in_i64 (at_current_total_zat t')"
    and "at_received_by_confirmations t' = encode_zat_array
           (received_by_confirmations_zat db (at_address_id t) tip (stored_required_confirmations db))"
    and "at_last_notified_total_zat t' = at_last_notified_total_zat t"
    and "at_last_notified_event_id t' = at_last_notified_event_id t"
    and "at_last_notified_by_confirmations t' = at_last_notified_by_confirmations t"
  using assms
  by (auto simp: recompute_row_def Let_def bind_result_Inr eligible_total_def dest!: sql_sum_Inr)

definition row_changed :: "totals_row \<Rightarrow> totals_row \<Rightarrow> bool" where
  "row_changed t t' \<longleftrightarrow> at_current_total_zat t \<noteq> at_current_total_zat t'
     \<or> at_received_by_confirmations t \<noteq> at_received_by_confirmations t'"

lemma recompute_row_changed:
  assumes "recompute_row db cutoff tip now reason since t = Inr t'"
  shows "at_dirty_state t' = (if row_changed t t' then Dirty else at_dirty_state t)"
    and "at_state_version t' = (if row_changed t t' then at_state_version t + 1 else at_state_version t)"
  using assms by (clarsimp simp: recompute_row_def Let_def bind_result_Inr row_changed_def)+

text \<open>Replacing a row under its own key, as an instance of the table contract.\<close>

definition overwrite_row :: "totals_row \<Rightarrow> totals_row \<Rightarrow> totals_row" where
  "overwrite_row t u = (if at_address_id u = at_address_id t then t else u)"

interpretation totals: key_preserving at_address_id "overwrite_row t" for t
  by unfold_locales (simp add: overwrite_row_def)

lemma replace_totals_overwrite:
  "db_totals (replace_totals t db) = update_where (\<lambda>u. at_address_id u = at_address_id t) (overwrite_row t) (db_totals db)"
  by (auto simp: replace_totals_def update_where_def overwrite_row_def)

lemma replace_totals_keys [simp]:
  "map at_address_id (db_totals (replace_totals t db)) = map at_address_id (db_totals db)"
  by (simp add: replace_totals_overwrite totals.keys_update_where)

lemma find_replace_totals:
  "find_key at_address_id a (db_totals (replace_totals t db)) =
     (if a = at_address_id t then map_option (\<lambda>_. t) (find_key at_address_id a (db_totals db))
      else find_key at_address_id a (db_totals db))"
  by (auto simp: replace_totals_overwrite totals.find_update_key overwrite_row_def
      dest: find_key_Some intro!: option.map_cong)

lemma replace_totals_tables [simp]:
  "db_receipts (replace_totals t db) = db_receipts db"
  "db_metadata (replace_totals t db) = db_metadata db"
  "db_deliveries (replace_totals t db) = db_deliveries db"
  "db_attempts (replace_totals t db) = db_attempts db"
  "db_issued_addresses (replace_totals t db) = db_issued_addresses db"
  "db_payment_links (replace_totals t db) = db_payment_links db"
  "db_receivers (replace_totals t db) = db_receivers db"
  by (simp_all add: replace_totals_def)

lemma set_replace_totals:
  "set (db_totals (replace_totals t db)) \<subseteq> insert t {u \<in> set (db_totals db). at_address_id u \<noteq> at_address_id t}"
  by (auto simp: replace_totals_def update_where_def)


section \<open>The loop over the affected addresses\<close>

text \<open>
  How a row may change outside of webhook bookkeeping: what was reported stays, and either
  nothing that is reported changed or the version grew and the row is dirty.
\<close>

definition row_step :: "totals_row \<Rightarrow> totals_row \<Rightarrow> bool" where
  "row_step t t' \<longleftrightarrow> at_address_id t' = at_address_id t
     \<and> at_last_notified_total_zat t' = at_last_notified_total_zat t
     \<and> at_last_notified_event_id t' = at_last_notified_event_id t
     \<and> (if at_state_version t' = at_state_version t
        then at_current_total_zat t' = at_current_total_zat t
             \<and> at_received_by_confirmations t' = at_received_by_confirmations t
             \<and> at_dirty_state t' = at_dirty_state t
        else at_state_version t < at_state_version t' \<and> at_dirty_state t' = Dirty)"

lemma row_step_refl [simp, intro]: "row_step t t"
  by (simp add: row_step_def)

lemma row_step_trans: "row_step t u \<Longrightarrow> row_step u v \<Longrightarrow> row_step t v"
  by (auto simp: row_step_def split: if_splits)

lemma recompute_row_step:
  assumes "recompute_row db cutoff tip now reason since t = Inr t'"
  shows "row_step t t'"
  using recompute_row_Inr [OF assms] recompute_row_changed [OF assms]
  by (auto simp: row_step_def row_changed_def)

text \<open>Only the totals table differs.\<close>

definition same_but_totals :: "app_db \<Rightarrow> app_db \<Rightarrow> bool" where
  "same_but_totals db db' \<longleftrightarrow> db' = db\<lparr>db_totals := db_totals db'\<rparr>"

lemma same_but_totals_refl [simp]: "same_but_totals db db"
  by (simp add: same_but_totals_def)

lemma same_but_totals_trans: "same_but_totals db d1 \<Longrightarrow> same_but_totals d1 d2 \<Longrightarrow> same_but_totals db d2"
  by (cases db; cases d1; cases d2) (simp add: same_but_totals_def)

lemma same_but_totals_replace [simp]: "same_but_totals db (replace_totals t db)"
  by (simp add: same_but_totals_def replace_totals_def)

lemma same_but_totals_tables:
  assumes "same_but_totals db db'"
  shows "db_receipts db' = db_receipts db" "db_deliveries db' = db_deliveries db"
    "db_attempts db' = db_attempts db" "db_issued_addresses db' = db_issued_addresses db"
    "db_metadata db' = db_metadata db" "db_payment_links db' = db_payment_links db"
    "db_receivers db' = db_receivers db" "eligible_total db' a = eligible_total db a"
    "total_current db' t = total_current db t"
proof -
  obtain x where x: "db' = db\<lparr>db_totals := x\<rparr>" using assms by (metis same_but_totals_def)
  show "db_receipts db' = db_receipts db" "db_deliveries db' = db_deliveries db"
    "db_attempts db' = db_attempts db" "db_issued_addresses db' = db_issued_addresses db"
    "db_metadata db' = db_metadata db" "db_payment_links db' = db_payment_links db"
    "db_receivers db' = db_receivers db" "eligible_total db' a = eligible_total db a"
    "total_current db' t = total_current db t"
    by (simp_all add: x eligible_total_def receipts_of_def total_current_def)
qed

lemma recompute_address_Inr:
  assumes "recompute_address cutoff tip now reason since a u db = (Inr x, db')"
  obtains t t' where "find_key at_address_id a (db_totals db) = Some t"
    "recompute_row db cutoff tip now reason since t = Inr t'" "db' = replace_totals t' db"
  using assms by (auto simp: recompute_address_def split: option.splits sum.splits)

lemma list_all2_replace_totals:
  assumes "totals_keys_ok db" "t \<in> set (db_totals db)" "row_step t t'"
  shows "list_all2 row_step (db_totals db) (db_totals (replace_totals t' db))"
proof -
  have "row_step u (if at_address_id u = at_address_id t' then t' else u)" if "u \<in> set (db_totals db)" for u
    using assms that by (auto simp: totals_keys_ok_def row_step_def inj_on_def distinct_map)
  then show ?thesis
    by (auto simp: replace_totals_def update_where_def list_all2_conv_all_nth)
qed

text \<open>
  After the loop the rows of the given addresses are recomputed from the receipts, the
  others are as before, and no other table changed.
\<close>

lemma recompute_loop:
  assumes "for_each (recompute_address cutoff tip now reason since) ids u db = (Inr x, db')"
    and "totals_keys_ok db"
  shows "same_but_totals db db' \<and> list_all2 row_step (db_totals db) (db_totals db')
    \<and> (\<forall>t' \<in> set (db_totals db'). if at_address_id t' \<in> set ids then total_current db t'
                                   else t' \<in> set (db_totals db))"
  using assms
proof (induction ids arbitrary: u db)
  case Nil
  then show ?case by (simp add: list_all2_refl)
next
  case (Cons a ids)
  then obtain v d where step: "recompute_address cutoff tip now reason since a u db = (Inr v, d)"
    and rest: "for_each (recompute_address cutoff tip now reason since) ids v d = (Inr x, db')"
    by (auto simp: andThen_Inr)
  from step obtain t t' where t: "find_key at_address_id a (db_totals db) = Some t"
    and row: "recompute_row db cutoff tip now reason since t = Inr t'" and d: "d = replace_totals t' db"
    by (rule recompute_address_Inr)
  have ta: "t \<in> set (db_totals db)" "at_address_id t = a" using find_key_Some [OF t] by auto
  have t'a: "at_address_id t' = a" "total_current db t'"
    using recompute_row_Inr [OF row] ta by (auto simp: total_current_def)
  have keys: "totals_keys_ok d" using Cons.prems by (simp add: d totals_keys_ok_def)
  have sbt: "same_but_totals db d" by (simp add: d)
  note IH = Cons.IH [OF rest keys]
  have "list_all2 row_step (db_totals db) (db_totals d)"
    unfolding d by (rule list_all2_replace_totals [OF Cons.prems(2) ta(1) recompute_row_step [OF row]])
  then have "list_all2 row_step (db_totals db) (db_totals db')"
    using IH list_all2_trans [of row_step row_step row_step] row_step_trans by blast
  moreover have "set (db_totals d) \<subseteq> insert t' {u \<in> set (db_totals db). at_address_id u \<noteq> a}"
    unfolding d using set_replace_totals [of t' db] t'a by simp
  ultimately show ?case
    using IH sbt t'a same_but_totals_tables(9) [OF sbt]
    by (auto intro: same_but_totals_trans split: if_splits)
qed

lemma recompute_address_totals_Inr:
  assumes "recompute_address_totals ids tip fin now reason since db = (Inr x, db')"
    and "totals_keys_ok db"
    and "\<And>t. t \<in> set (db_totals db) \<Longrightarrow> at_address_id t \<notin> set ids \<Longrightarrow> total_current db t"
  shows "totals_current db'" "same_but_totals db db'" "list_all2 row_step (db_totals db) (db_totals db')"
proof -
  note loop = recompute_loop [OF assms(1) [unfolded recompute_address_totals_def] assms(2)]
  from loop show sbt: "same_but_totals db db'"
    and "list_all2 row_step (db_totals db) (db_totals db')" by auto
  have "total_current db' t" if "t \<in> set (db_totals db')" for t
    using loop that assms(3) [of t] same_but_totals_tables(9) [OF sbt] by (auto split: if_splits)
  then show "totals_current db'" by (simp add: totals_current_def list_all_iff)
qed

lemma row_step_keys:
  "list_all2 row_step ts ts' \<Longrightarrow> map at_address_id ts' = map at_address_id ts"
  by (induction rule: list_all2_induct) (auto simp: row_step_def)

section \<open>The array by depth\<close>

text \<open>What address \<open>a\<close> received at depth \<open>i\<close> or deeper.\<close>

definition total_at_depth :: "app_db \<Rightarrow> int \<Rightarrow> int \<Rightarrow> nat \<Rightarrow> int" where
  "total_at_depth db a tip_height i =
     sum_list (map rr_value_zat (filter (\<lambda>r. int i \<le> receipt_depth tip_height r) (filter is_counted (receipts_of db a))))"

definition values_nonneg :: "app_db \<Rightarrow> bool" where
  "values_nonneg db \<longleftrightarrow> list_all (\<lambda>r. 0 \<le> rr_value_zat r) (db_receipts db)"

lemma receipt_depth_nonneg: "0 \<le> receipt_depth tip r"
  by (simp add: receipt_depth_def depth_at_def)

lemma add_to_slots_map:
  assumes "\<And>i. i \<le> n \<Longrightarrow> in_i64 (f i + v)"
  shows "add_to_slots m v (map f [0..<Suc n]) = map (\<lambda>i. if i \<le> m then f i + v else f i) [0..<Suc n]"
proof (rule nth_equalityI)
  show "length (add_to_slots m v (map f [0..<Suc n])) = length (map (\<lambda>i. if i \<le> m then f i + v else f i) [0..<Suc n])"
    by (simp add: add_to_slots_def)
next
  fix i assume "i < length (add_to_slots m v (map f [0..<Suc n]))"
  then have i: "i < Suc n" by (simp add: add_to_slots_def)
  then have "wrap_i64 (f i + v) = f i + v" using assms [of i] by (simp add: wrap_i64_id)
  with i show "add_to_slots m v (map f [0..<Suc n]) ! i = map (\<lambda>i. if i \<le> m then f i + v else f i) [0..<Suc n] ! i"
    by (auto simp: add_to_slots_def nth_append simp del: upt_Suc)
qed

lemma add_by_depth_map:
  assumes "list_all (\<lambda>r. 0 \<le> rr_value_zat r) rows" "\<And>i. i \<le> n \<Longrightarrow> 0 \<le> f i"
    "\<And>i. i \<le> n \<Longrightarrow> f i + sum_list (map rr_value_zat rows) \<le> i64_max"
  shows "add_by_depth tip n rows (map f [0..<Suc n]) =
    map (\<lambda>i. f i + sum_list (map rr_value_zat (filter (\<lambda>r. int i \<le> receipt_depth tip r) rows))) [0..<Suc n]"
  using assms
proof (induction rows arbitrary: f)
  case Nil
  then show ?case by (simp del: upt_Suc)
next
  case (Cons r rows)
  let ?m = "min (nat (max 0 (receipt_depth tip r))) n"
  let ?g = "\<lambda>i. if i \<le> ?m then f i + rr_value_zat r else f i"
  have v: "0 \<le> rr_value_zat r" and vs: "list_all (\<lambda>r. 0 \<le> rr_value_zat r) rows" using Cons.prems(1) by auto
  from vs have sum: "0 \<le> sum_list (map rr_value_zat rows)" by (induction rows) auto
  have "in_i64 (f i + rr_value_zat r)" if "i \<le> n" for i
    using Cons.prems(2) [OF that] Cons.prems(3) [OF that] v sum by (simp add: in_i64_def)
  then have "add_to_slots ?m (rr_value_zat r) (map f [0..<Suc n]) = map ?g [0..<Suc n]"
    by (rule add_to_slots_map)
  then have "add_by_depth tip n (r # rows) (map f [0..<Suc n]) = add_by_depth tip n rows (map ?g [0..<Suc n])"
    by (simp only: add_by_depth.simps Let_def)
  also have "\<dots> = map (\<lambda>i. ?g i + sum_list (map rr_value_zat (filter (\<lambda>r. int i \<le> receipt_depth tip r) rows))) [0..<Suc n]"
  proof (rule Cons.IH [OF vs])
    show "0 \<le> ?g i" if "i \<le> n" for i using Cons.prems(2) [OF that] v by simp
    show "?g i + sum_list (map rr_value_zat rows) \<le> i64_max" if "i \<le> n" for i
      using Cons.prems(3) [OF that] v by simp
  qed
  also have "\<dots> = map (\<lambda>i. f i + sum_list (map rr_value_zat (filter (\<lambda>r. int i \<le> receipt_depth tip r) (r # rows)))) [0..<Suc n]"
  proof (rule map_cong [OF refl])
    fix i assume "i \<in> set [0..<Suc n]"
    then have "(i \<le> ?m) = (int i \<le> receipt_depth tip r)" using receipt_depth_nonneg [of tip r] by auto
    then show "?g i + sum_list (map rr_value_zat (filter (\<lambda>r. int i \<le> receipt_depth tip r) rows)) =
        f i + sum_list (map rr_value_zat (filter (\<lambda>r. int i \<le> receipt_depth tip r) (r # rows)))" by simp
  qed
  finally show ?case .
qed

lemma received_array:
  assumes "values_nonneg db" "eligible_total db a \<le> i64_max"
  shows "received_by_confirmations_zat db a tip (Some (int n)) = Some (map (total_at_depth db a tip) [0..<Suc n])"
proof -
  let ?rows = "filter is_counted (receipts_of db a)"
  have nonneg: "list_all (\<lambda>r. 0 \<le> rr_value_zat r) ?rows"
    using assms(1) by (auto simp: values_nonneg_def receipts_of_def list_all_iff)
  have "replicate (n + 1) (0 :: int) = map (\<lambda>_. 0) [0..<Suc n]" by (simp add: map_replicate_const del: upt_Suc)
  moreover have "add_by_depth tip n ?rows (map (\<lambda>_. 0) [0..<Suc n]) =
      map (\<lambda>i. 0 + sum_list (map rr_value_zat (filter (\<lambda>r. int i \<le> receipt_depth tip r) ?rows))) [0..<Suc n]"
    by (rule add_by_depth_map [OF nonneg]) (use assms(2) in \<open>simp_all add: eligible_total_def\<close>)
  ultimately show ?thesis
    by (simp add: received_by_confirmations_zat_def total_at_depth_def del: upt_Suc replicate_Suc)
qed

lemma total_at_depth_0: "total_at_depth db a tip 0 = eligible_total db a"
proof -
  have "filter (\<lambda>r. int 0 \<le> receipt_depth tip r) rows = rows" for rows
    by (simp add: receipt_depth_nonneg filter_True)
  then show ?thesis by (simp add: total_at_depth_def eligible_total_def)
qed

lemma total_at_depth_antimono:
  assumes "values_nonneg db" "i \<le> j"
  shows "total_at_depth db a tip j \<le> total_at_depth db a tip i"
proof -
  have "sum_list (map rr_value_zat (filter (\<lambda>r. int j \<le> receipt_depth tip r) rows))
      \<le> sum_list (map rr_value_zat (filter (\<lambda>r. int i \<le> receipt_depth tip r) rows))"
    if "list_all (\<lambda>r. 0 \<le> rr_value_zat r) rows" for rows
    using that assms(2) by (induction rows) auto
  moreover have "list_all (\<lambda>r. 0 \<le> rr_value_zat r) (filter is_counted (receipts_of db a))"
    using assms(1) by (auto simp: values_nonneg_def receipts_of_def list_all_iff)
  ultimately show ?thesis unfolding total_at_depth_def by blast
qed

end
