(* ===== verification/Db_Receipts.thy ===== *)
theory Db_Receipts
  imports Db_Totals
begin

text \<open>
  The operations of \<^verbatim>\<open>src/db.rs\<close> that write \<^verbatim>\<open>address_receipts_recent\<close>: observing scanned
  receipts, advancing their maturity, reconciling a rescanned height range or a mempool
  snapshot, and revoking what lies above a shorter tip. Each runs in one transaction,
  collects the addresses it affected and recomputes their totals.
\<close>

section \<open>Writing one receipt\<close>

definition receipt_of_scan :: "attributed_receipt \<Rightarrow> receipt_row" where
  "receipt_of_scan r =
     \<lparr>rr_receipt_id = 0, rr_address_id = sr_address_id r, rr_txid = sr_txid_hex r,
      rr_pool = sr_pool r, rr_receipt_uid = sr_receipt_uid r, rr_value_zat = sr_value_zat r,
      rr_mined_height = sr_mined_height r, rr_confirmation_depth = sr_confirmation_depth r,
      rr_eligible_for_webhook = sr_eligible_for_webhook r, rr_receipt_kind = sr_receipt_kind r,
      rr_first_observed_at = sr_first_observed_at r, rr_observed_at = sr_last_observed_at r,
      rr_receipt_state = Active, rr_state_version = 0\<rparr>"

text \<open>
  \<^verbatim>\<open>ON CONFLICT(receipt_uid) DO UPDATE SET ..\<close> of the observing statement: \<open>new\<close> is
  \<^verbatim>\<open>excluded\<close>, \<open>old\<close> the stored row. A mempool receipt that is now mined keeps the time it was
  first seen.
\<close>

definition scanned_differs :: "receipt_row \<Rightarrow> receipt_row \<Rightarrow> bool" where
  "scanned_differs new old \<longleftrightarrow>
     rr_receipt_state old \<noteq> Active \<or> rr_address_id old \<noteq> rr_address_id new
     \<or> rr_mined_height old \<noteq> rr_mined_height new \<or> rr_value_zat old \<noteq> rr_value_zat new
     \<or> rr_confirmation_depth old \<noteq> rr_confirmation_depth new
     \<or> rr_eligible_for_webhook old \<noteq> rr_eligible_for_webhook new
     \<or> rr_receipt_kind old \<noteq> rr_receipt_kind new"

definition merge_scanned :: "receipt_row \<Rightarrow> receipt_row \<Rightarrow> receipt_row" where
  "merge_scanned new old = new\<lparr>
     rr_receipt_id := rr_receipt_id old,
     rr_receipt_uid := rr_receipt_uid old,
     rr_first_observed_at :=
       (if rr_receipt_kind old = Mempool \<and> rr_receipt_kind new = Mined
        then rr_first_observed_at old else rr_first_observed_at new),
     rr_receipt_state := Active,
     rr_state_version :=
       (if scanned_differs new old then rr_state_version old + 1 else rr_state_version old)\<rparr>"

text \<open>The conflict clause of the mempool statement.\<close>

definition mempool_differs :: "receipt_row \<Rightarrow> receipt_row \<Rightarrow> bool" where
  "mempool_differs new old \<longleftrightarrow>
     rr_receipt_state old \<noteq> Active \<or> rr_address_id old \<noteq> rr_address_id new
     \<or> rr_value_zat old \<noteq> rr_value_zat new
     \<or> rr_eligible_for_webhook old \<noteq> rr_eligible_for_webhook new
     \<or> rr_first_observed_at old \<noteq> rr_first_observed_at new"

definition merge_mempool :: "receipt_row \<Rightarrow> receipt_row \<Rightarrow> receipt_row" where
  "merge_mempool new old = new\<lparr>
     rr_receipt_id := rr_receipt_id old,
     rr_receipt_uid := rr_receipt_uid old,
     rr_receipt_kind := Mempool,
     rr_receipt_state := Active,
     rr_state_version :=
       (if mempool_differs new old then rr_state_version old + 1 else rr_state_version old)\<rparr>"

definition put_receipt :: "receipt_row \<Rightarrow> (receipt_row \<Rightarrow> receipt_row) \<Rightarrow> receipt_row list \<Rightarrow> receipt_row list" where
  "put_receipt row merge rows =
     (if rr_receipt_uid row \<in> rr_receipt_uid ` set rows
      then update_where (\<lambda>r. rr_receipt_uid r = rr_receipt_uid row) merge rows
      else rows @ [row\<lparr>rr_receipt_id := next_rowid (map rr_receipt_id rows)\<rparr>])"

text \<open>The statement with its constraints; the value is the number of rows changed.\<close>

definition upsert_receipt :: "receipt_row \<Rightarrow> (receipt_row \<Rightarrow> receipt_row) \<Rightarrow> nat db_op" where
  "upsert_receipt row merge db =
     (if \<not> pool_allowed (rr_pool row) then (Inl (constraint ''CHECK''), db)
      else if \<not> address_exists db (rr_address_id row) then (Inl (constraint ''FOREIGN KEY''), db)
      else (Inr 1, db\<lparr>db_receipts := put_receipt row merge (db_receipts db)\<rparr>))"

definition revoke_row :: "string \<Rightarrow> receipt_row \<Rightarrow> receipt_row" where
  "revoke_row now r = r\<lparr>rr_receipt_state := Revoked,
     rr_state_version := rr_state_version r + 1, rr_observed_at := now\<rparr>"

definition revoke_receipt :: "string \<Rightarrow> string \<Rightarrow> unit db_op" where
  "revoke_receipt now uid =
     writes (\<lambda>db. db\<lparr>db_receipts :=
       update_where (\<lambda>r. rr_receipt_uid r = uid) (revoke_row now) (db_receipts db)\<rparr>)"

section \<open>The addresses an operation affected\<close>

type_synonym dirty_since = "(int \<times> int) list"

text \<open>\<^verbatim>\<open>entry(a).and_modify(|h| *h = (*h).min(height)).or_insert(height)\<close>.\<close>

definition since_min :: "int \<Rightarrow> int \<Rightarrow> dirty_since \<Rightarrow> dirty_since" where
  "since_min a height since = btree_upsert a (\<lambda>h. min h height) height since"

definition since_zero :: "int \<Rightarrow> dirty_since \<Rightarrow> dirty_since" where
  "since_zero a since = btree_upsert a (\<lambda>h. h) 0 since"

definition no_reconciliation :: reconciliation where
  "no_reconciliation = \<lparr>rc_affected_address_ids = [], rc_inserted_receipt_count = 0,
     rc_revoked_receipt_count = 0, rc_reactivated_receipt_count = 0\<rparr>"

definition affect :: "int \<Rightarrow> reconciliation \<Rightarrow> reconciliation" where
  "affect a rc = rc\<lparr>rc_affected_address_ids := bset_insert a (rc_affected_address_ids rc)\<rparr>"

section \<open>Observing receipts\<close>

definition observe_receipt ::
  "attributed_receipt \<Rightarrow> int list \<times> dirty_since \<Rightarrow> (int list \<times> dirty_since) db_op" where
  "observe_receipt r acc =
     (let row = receipt_of_scan r in
      andThen (upsert_receipt row (merge_scanned row)) (\<lambda>inserted.
        ret (if 0 < inserted
             then (bset_insert (sr_address_id r) (fst acc),
                   since_min (sr_address_id r) (sr_mined_height r) (snd acc))
             else acc)))"

definition apply_attributed_receipts ::
  "attributed_receipt list \<Rightarrow> int \<Rightarrow> nat \<Rightarrow> string \<Rightarrow> int list db_op" where
  "apply_attributed_receipts receipts tip_height finality_confirmations now =
     (if receipts = [] then ret []
      else in_tx (
        andThen (for_each observe_receipt receipts ([], [])) (\<lambda>(affected, since).
        andThen (recompute_address_totals affected tip_height finality_confirmations now
                   ''receipt_observed'' since) (\<lambda>_.
        ret affected))))"

section \<open>Maturity\<close>

definition matured :: "int \<Rightarrow> int \<Rightarrow> receipt_row \<Rightarrow> bool" where
  "matured tip_height threshold r \<longleftrightarrow>
     rr_receipt_kind r = Mined \<and> is_active r \<and> \<not> rr_eligible_for_webhook r
     \<and> threshold \<le> depth_at tip_height (rr_mined_height r)"

definition depth_stale :: "int \<Rightarrow> int \<Rightarrow> receipt_row \<Rightarrow> bool" where
  "depth_stale tip_height threshold r \<longleftrightarrow>
     rr_receipt_kind r = Mined \<and> is_active r
     \<and> (rr_confirmation_depth r \<noteq> depth_at tip_height (rr_mined_height r)
        \<or> rr_eligible_for_webhook r \<noteq> (threshold \<le> depth_at tip_height (rr_mined_height r)))"

definition refresh_depth :: "int \<Rightarrow> int \<Rightarrow> receipt_row \<Rightarrow> receipt_row" where
  "refresh_depth tip_height threshold r = r\<lparr>
     rr_confirmation_depth := depth_at tip_height (rr_mined_height r),
     rr_eligible_for_webhook := (threshold \<le> depth_at tip_height (rr_mined_height r))\<rparr>"

definition advance_receipt_maturity :: "int \<Rightarrow> nat \<Rightarrow> nat \<Rightarrow> string \<Rightarrow> int list db_op" where
  "advance_receipt_maturity tip_height webhook_report_confirmations finality_confirmations now =
     in_tx (\<lambda>db.
       let threshold = int webhook_report_confirmations;
           since = fold (\<lambda>r. since_min (rr_address_id r) (rr_mined_height r))
                     (filter (matured tip_height threshold) (db_receipts db)) [];
           affected = bset_of (map rr_address_id (filter (depth_stale tip_height threshold) (db_receipts db)))
       in if affected = [] then (Inr [], db)
          else andThen (recompute_address_totals affected tip_height finality_confirmations now
                          ''receipt_matured'' since) (\<lambda>_. ret affected)
                 (db\<lparr>db_receipts := update_where (depth_stale tip_height threshold)
                       (refresh_depth tip_height threshold) (db_receipts db)\<rparr>))"

section \<open>Reconciling a rescanned range\<close>

definition in_range :: "int \<Rightarrow> int \<Rightarrow> receipt_row \<Rightarrow> bool" where
  "in_range start_height end_height r \<longleftrightarrow>
     start_height \<le> rr_mined_height r \<and> rr_mined_height r \<le> end_height"

definition existing_in_range :: "int \<Rightarrow> int \<Rightarrow> app_db \<Rightarrow> (string \<times> receipt_row) list" where
  "existing_in_range start_height end_height db =
     (let rows = db_receipts db;
          txids = map rr_txid (filter (in_range start_height end_height) rows)
      in btree_collect rr_receipt_uid
           (filter (\<lambda>r. in_range start_height end_height r
                        \<or> (rr_receipt_kind r = Mempool \<and> rr_txid r \<in> set txids)) rows))"

definition revoke_unscanned ::
  "string \<Rightarrow> (string \<times> attributed_receipt) list \<Rightarrow> string \<times> receipt_row \<Rightarrow>
   reconciliation \<times> dirty_since \<Rightarrow> (reconciliation \<times> dirty_since) db_op" where
  "revoke_unscanned now scanned entry acc =
     (let uid = fst entry; old = snd entry in
      if rr_receipt_kind old = Mined \<and> is_active old \<and> map_of scanned uid = None
      then andThen (revoke_receipt now uid) (\<lambda>_.
             ret ((affect (rr_address_id old) (fst acc))\<lparr>
                     rc_revoked_receipt_count := rc_revoked_receipt_count (fst acc) + 1\<rparr>,
                  since_min (rr_address_id old) (rr_mined_height old) (snd acc)))
      else ret acc)"

definition scan_changed :: "attributed_receipt \<Rightarrow> receipt_row \<Rightarrow> bool" where
  "scan_changed r old \<longleftrightarrow>
     rr_address_id old \<noteq> sr_address_id r \<or> rr_mined_height old \<noteq> sr_mined_height r
     \<or> rr_value_zat old \<noteq> sr_value_zat r \<or> rr_confirmation_depth old \<noteq> sr_confirmation_depth r
     \<or> rr_eligible_for_webhook old \<noteq> sr_eligible_for_webhook r
     \<or> rr_receipt_kind old \<noteq> sr_receipt_kind r"

definition reconcile_scanned ::
  "(string \<times> receipt_row) list \<Rightarrow> attributed_receipt \<Rightarrow>
   reconciliation \<times> dirty_since \<Rightarrow> (reconciliation \<times> dirty_since) db_op" where
  "reconcile_scanned existing r acc =
     (let row = receipt_of_scan r; a = sr_address_id r; rc = fst acc; since = snd acc in
      andThen (upsert_receipt row (merge_scanned row)) (\<lambda>_. ret (
        case map_of existing (sr_receipt_uid r) of
          None \<Rightarrow>
            ((affect a rc)\<lparr>rc_inserted_receipt_count := rc_inserted_receipt_count rc + 1\<rparr>,
             since_min a (sr_mined_height r) since)
        | Some old \<Rightarrow>
            (let was_revoked = \<not> is_active old in
             if was_revoked \<or> scan_changed r old
             then ((affect (rr_address_id old) (affect a rc))\<lparr>rc_reactivated_receipt_count :=
                      rc_reactivated_receipt_count rc + (if was_revoked then 1 else 0)\<rparr>,
                   since_min (rr_address_id old) (rr_mined_height old)
                     (since_min a (sr_mined_height r) since))
             else acc))))"

definition reconcile_attributed_receipts_in_range ::
  "attributed_receipt list \<Rightarrow> int \<Rightarrow> int \<Rightarrow> int \<Rightarrow> nat \<Rightarrow> string \<Rightarrow> reconciliation db_op" where
  "reconcile_attributed_receipts_in_range receipts start_height end_height tip_height
       finality_confirmations now =
     in_tx (\<lambda>db.
       let scanned = btree_collect sr_receipt_uid receipts;
           existing = existing_in_range start_height end_height db
       in andThen (for_each (revoke_unscanned now scanned) existing (no_reconciliation, [])) (\<lambda>acc1.
          andThen (for_each (reconcile_scanned existing) (map snd scanned) acc1) (\<lambda>(rc, since).
          andThen (recompute_address_totals (rc_affected_address_ids rc) tip_height
                     finality_confirmations now ''reorg_reconcile'' since) (\<lambda>_.
          ret rc))) db)"

definition above_tip :: "int \<Rightarrow> receipt_row \<Rightarrow> bool" where
  "above_tip tip_height r \<longleftrightarrow>
     rr_receipt_kind r = Mined \<and> is_active r \<and> tip_height < rr_mined_height r"

definition revoke_above ::
  "string \<Rightarrow> receipt_row \<Rightarrow> reconciliation \<times> dirty_since \<Rightarrow> (reconciliation \<times> dirty_since) db_op" where
  "revoke_above now r acc =
     andThen (revoke_receipt now (rr_receipt_uid r)) (\<lambda>_.
       ret ((affect (rr_address_id r) (fst acc))\<lparr>
              rc_revoked_receipt_count := rc_revoked_receipt_count (fst acc) + 1\<rparr>,
            since_min (rr_address_id r) (rr_mined_height r) (snd acc)))"

definition revoke_mined_receipts_above_tip :: "int \<Rightarrow> nat \<Rightarrow> string \<Rightarrow> reconciliation db_op" where
  "revoke_mined_receipts_above_tip tip_height finality_confirmations now =
     in_tx (\<lambda>db.
       let rows = sort_key (\<lambda>r. (rr_mined_height r, rr_receipt_uid r))
                    (filter (above_tip tip_height) (db_receipts db))
       in andThen (for_each (revoke_above now) rows (no_reconciliation, [])) (\<lambda>(rc, since).
            if rc_affected_address_ids rc = [] then ret no_reconciliation
            else andThen (recompute_address_totals (rc_affected_address_ids rc) tip_height
                            finality_confirmations now ''reorg_reconcile'' since) (\<lambda>_.
                 ret rc)) db)"

section \<open>Reconciling the mempool\<close>

definition active_mempool_txids :: "app_db \<Rightarrow> string list" where
  "active_mempool_txids db =
     bset_of (map rr_txid (filter (\<lambda>r. rr_receipt_kind r = Mempool \<and> is_active r) (db_receipts db)))"

definition mempool_fresh :: "nat \<Rightarrow> string \<Rightarrow> string \<Rightarrow> bool" where
  "mempool_fresh webhook_report_confirmations fresh_cutoff first_observed_at \<longleftrightarrow>
     webhook_report_confirmations = 0 \<and> fresh_cutoff < first_observed_at"

definition revoke_missing_receipt ::
  "string \<Rightarrow> string list \<Rightarrow> string \<times> receipt_row \<Rightarrow>
   reconciliation \<times> dirty_since \<Rightarrow> (reconciliation \<times> dirty_since) db_op" where
  "revoke_missing_receipt now current_txids entry acc =
     (let uid = fst entry; old = snd entry in
      if is_active old \<and> rr_txid old \<notin> set current_txids
      then andThen (revoke_receipt now uid) (\<lambda>_.
             ret ((affect (rr_address_id old) (fst acc))\<lparr>
                     rc_revoked_receipt_count := rc_revoked_receipt_count (fst acc) + 1\<rparr>,
                  since_min (rr_address_id old) (rr_mined_height old) (snd acc)))
      else ret acc)"

definition mempool_row :: "attributed_receipt \<Rightarrow> string \<Rightarrow> bool \<Rightarrow> string \<Rightarrow> receipt_row" where
  "mempool_row r first_observed_at eligible now = (receipt_of_scan r)\<lparr>
     rr_mined_height := 0, rr_confirmation_depth := 0, rr_eligible_for_webhook := eligible,
     rr_receipt_kind := Mempool, rr_first_observed_at := first_observed_at, rr_observed_at := now\<rparr>"

definition mempool_changed :: "attributed_receipt \<Rightarrow> bool \<Rightarrow> string \<Rightarrow> receipt_row \<Rightarrow> bool" where
  "mempool_changed r eligible first_observed_at old \<longleftrightarrow>
     rr_address_id old \<noteq> sr_address_id r \<or> rr_mined_height old \<noteq> sr_mined_height r
     \<or> rr_value_zat old \<noteq> sr_value_zat r \<or> rr_confirmation_depth old \<noteq> sr_confirmation_depth r
     \<or> rr_eligible_for_webhook old \<noteq> eligible \<or> rr_first_observed_at old \<noteq> first_observed_at"

definition reconcile_mempool_receipt ::
  "nat \<Rightarrow> string \<Rightarrow> string \<Rightarrow> (string \<times> receipt_row) list \<Rightarrow> attributed_receipt \<Rightarrow>
   reconciliation \<times> dirty_since \<Rightarrow> (reconciliation \<times> dirty_since) db_op" where
  "reconcile_mempool_receipt webhook_report_confirmations fresh_cutoff now existing r acc =
     (let prior = map_of existing (sr_receipt_uid r);
          first_seen = (case prior of Some old \<Rightarrow> rr_first_observed_at old | None \<Rightarrow> sr_first_observed_at r);
          eligible = mempool_fresh webhook_report_confirmations fresh_cutoff first_seen;
          row = mempool_row r first_seen eligible now;
          a = sr_address_id r; rc = fst acc; since = snd acc
      in andThen (upsert_receipt row (merge_mempool row)) (\<lambda>_. ret (
           case prior of
             None \<Rightarrow>
               ((affect a rc)\<lparr>rc_inserted_receipt_count := rc_inserted_receipt_count rc + 1\<rparr>,
                since_zero a since)
           | Some old \<Rightarrow>
               (let was_revoked = \<not> is_active old in
                if was_revoked \<or> mempool_changed r eligible first_seen old
                then ((affect a rc)\<lparr>rc_reactivated_receipt_count :=
                         rc_reactivated_receipt_count rc + (if was_revoked then 1 else 0)\<rparr>,
                      since_zero a since)
                else acc))))"

definition freshness_stale :: "nat \<Rightarrow> string \<Rightarrow> receipt_row \<Rightarrow> bool" where
  "freshness_stale webhook_report_confirmations fresh_cutoff r \<longleftrightarrow>
     rr_receipt_kind r = Mempool \<and> is_active r
     \<and> rr_eligible_for_webhook r \<noteq>
         mempool_fresh webhook_report_confirmations fresh_cutoff (rr_first_observed_at r)"

definition refresh_freshness :: "nat \<Rightarrow> string \<Rightarrow> string \<Rightarrow> receipt_row \<Rightarrow> receipt_row" where
  "refresh_freshness webhook_report_confirmations fresh_cutoff now r =
     (let fresh = mempool_fresh webhook_report_confirmations fresh_cutoff (rr_first_observed_at r)
      in r\<lparr>rr_confirmation_depth := 0, rr_eligible_for_webhook := fresh,
           rr_observed_at := (if rr_eligible_for_webhook r \<noteq> fresh then now else rr_observed_at r)\<rparr>)"

text \<open>The last two statements before the recomputation: receipts that aged past the cutoff.\<close>

definition age_mempool_receipts ::
  "nat \<Rightarrow> string \<Rightarrow> string \<Rightarrow> reconciliation \<times> dirty_since \<Rightarrow> (reconciliation \<times> dirty_since) db_op" where
  "age_mempool_receipts webhook_report_confirmations fresh_cutoff now acc db =
     (let stale = freshness_stale webhook_report_confirmations fresh_cutoff;
          aged = remdups (map rr_address_id (filter stale (db_receipts db)))
      in (Inr (fold affect aged (fst acc), fold since_zero aged (snd acc)),
          db\<lparr>db_receipts := update_where stale
               (refresh_freshness webhook_report_confirmations fresh_cutoff now) (db_receipts db)\<rparr>))"

definition reconcile_mempool_snapshot ::
  "externals \<Rightarrow> string list \<Rightarrow> attributed_receipt list \<Rightarrow> string \<Rightarrow> int \<Rightarrow> nat \<Rightarrow> nat \<Rightarrow> bool \<Rightarrow>
   reconciliation db_op" where
  "reconcile_mempool_snapshot ext current_txids receipts now tip_height finality_confirmations
       webhook_report_confirmations revoke_missing =
     in_tx (\<lambda>db.
       let existing = btree_collect rr_receipt_uid
                        (filter (\<lambda>r. rr_receipt_kind r = Mempool) (db_receipts db))
       in andThen (lift_result (ext_day_before ext now)) (\<lambda>fresh_cutoff.
          andThen (if revoke_missing
                   then for_each (revoke_missing_receipt now current_txids) existing (no_reconciliation, [])
                   else ret (no_reconciliation, [])) (\<lambda>acc1.
          andThen (for_each (reconcile_mempool_receipt webhook_report_confirmations fresh_cutoff now existing)
                     receipts acc1) (\<lambda>acc2.
          andThen (age_mempool_receipts webhook_report_confirmations fresh_cutoff now acc2) (\<lambda>(rc, since).
          andThen (recompute_address_totals (rc_affected_address_ids rc) tip_height
                     finality_confirmations now ''mempool_reconcile'' since) (\<lambda>_.
          ret rc))))) db)"

section \<open>How the receipts table changes\<close>

definition receipt_uids_ok :: "app_db \<Rightarrow> bool" where
  "receipt_uids_ok db \<longleftrightarrow> distinct (map rr_receipt_uid (db_receipts db))"

text \<open>What one receipt adds to the eligible total of address \<open>a\<close>.\<close>

definition counted_at :: "int \<Rightarrow> receipt_row \<Rightarrow> int" where
  "counted_at a r = (if rr_address_id r = a \<and> is_counted r then rr_value_zat r else 0)"

definition rows_total :: "int \<Rightarrow> receipt_row list \<Rightarrow> int" where
  "rows_total a rows = sum_list (map (counted_at a) rows)"

lemma eligible_total_rows: "eligible_total db a = rows_total a (db_receipts db)"
proof -
  have "sum_list (map rr_value_zat (filter is_counted (filter (\<lambda>r. rr_address_id r = a) rows)))
        = sum_list (map (counted_at a) rows)" for rows
    by (induction rows) (auto simp: counted_at_def)
  then show ?thesis by (simp add: eligible_total_def receipts_of_def rows_total_def)
qed

lemma rows_total_append [simp]: "rows_total a (xs @ ys) = rows_total a xs + rows_total a ys"
  by (simp add: rows_total_def)

lemma rows_total_single [simp]: "rows_total a [r] = counted_at a r"
  by (simp add: rows_total_def)

lemma rows_total_update_where:
  "(\<And>r. r \<in> set rows \<Longrightarrow> p r \<Longrightarrow> counted_at a (f r) = counted_at a r) \<Longrightarrow>
   rows_total a (update_where p f rows) = rows_total a rows"
  by (induction rows) (auto simp: rows_total_def update_where_def)

lemma counted_at_other: "rr_address_id r \<noteq> a \<Longrightarrow> counted_at a r = 0"
  by (simp add: counted_at_def)

lemma counted_at_rowid [simp]: "counted_at a (r\<lparr>rr_receipt_id := i\<rparr>) = counted_at a r"
  by (simp add: counted_at_def is_counted_def is_active_def)

text \<open>
  The statements that rewrite stored receipts keep the unique key and the address, so only
  the totals of the addresses of the rewritten rows can change.
\<close>

locale receipt_update = key_preserving rr_receipt_uid upd
  for upd :: "receipt_row \<Rightarrow> receipt_row" +
  assumes address_upd: "rr_address_id (upd r) = rr_address_id r"
begin

lemma total_elsewhere:
  "(\<And>r. r \<in> set rows \<Longrightarrow> p r \<Longrightarrow> rr_address_id r \<noteq> a) \<Longrightarrow>
   rows_total a (update_where p upd rows) = rows_total a rows"
  by (rule rows_total_update_where) (simp add: counted_at_other address_upd)

lemma addresses_update: "map rr_address_id (update_where p upd rows) = map rr_address_id rows"
  by (induction rows) (auto simp: update_where_def address_upd)

lemma address_of_updated:
  "r \<in> set (update_where p upd rows) \<Longrightarrow>
   \<exists>r0 \<in> set rows. rr_receipt_uid r = rr_receipt_uid r0 \<and> rr_address_id r = rr_address_id r0"
  by (auto simp: set_update_where key_upd address_upd)

lemma update_by_uids:
  "distinct uids \<Longrightarrow>
   fold (\<lambda>uid. update_where (\<lambda>r. rr_receipt_uid r = uid) upd) uids rows =
   update_where (\<lambda>r. rr_receipt_uid r \<in> set uids) upd rows"
proof (induction uids arbitrary: rows)
  case Nil
  then show ?case by (simp add: update_where_def)
next
  case (Cons u uids)
  then show ?case by (auto simp: update_where_def key_upd)
qed

end

interpretation revoke: receipt_update "revoke_row now" for now
  by unfold_locales (simp_all add: revoke_row_def)

interpretation depth: receipt_update "refresh_depth tip_height threshold" for tip_height threshold
  by unfold_locales (simp_all add: refresh_depth_def)

interpretation freshness: receipt_update "refresh_freshness reports cutoff now" for reports cutoff now
  by unfold_locales (simp_all add: refresh_freshness_def Let_def)

text \<open>
  An observing statement: the row it would insert (\<^verbatim>\<open>excluded\<close>) and its conflict clause. The
  stored row then reports what the new one says, under the old key.
\<close>

locale observing_statement =
  fixes mk :: "attributed_receipt \<Rightarrow> receipt_row"
    and merge :: "receipt_row \<Rightarrow> receipt_row \<Rightarrow> receipt_row"
  assumes uid_mk: "rr_receipt_uid (mk r) = sr_receipt_uid r"
    and address_mk: "rr_address_id (mk r) = sr_address_id r"
    and uid_merge: "rr_receipt_uid (merge (mk r) old) = rr_receipt_uid old"
    and address_merge: "rr_address_id (merge (mk r) old) = sr_address_id r"
    and counted_merge: "counted_at a (merge (mk r) old) = counted_at a (mk r)"
begin

abbreviation put :: "attributed_receipt \<Rightarrow> receipt_row list \<Rightarrow> receipt_row list" where
  "put r \<equiv> put_receipt (mk r) (merge (mk r))"

lemma uids_update: "map rr_receipt_uid (update_where p (merge (mk r)) rows) = map rr_receipt_uid rows"
  by (induction rows) (auto simp: update_where_def uid_merge)

lemma uids_put: "set (map rr_receipt_uid (put r rows)) = insert (sr_receipt_uid r) (rr_receipt_uid ` set rows)"
  using uids_update [of _ r rows, THEN arg_cong [where f = set]]
  by (auto simp: put_receipt_def uid_mk)

lemma distinct_put:
  "distinct (map rr_receipt_uid rows) \<Longrightarrow> distinct (map rr_receipt_uid (put r rows))"
  by (simp add: put_receipt_def uid_mk uids_update)

lemma distinct_fold_put:
  "distinct (map rr_receipt_uid rows) \<Longrightarrow> distinct (map rr_receipt_uid (fold put rs rows))"
  by (induction rs arbitrary: rows) (simp_all add: distinct_put)

lemma in_put:
  "row \<in> set (put r rows) \<Longrightarrow>
   row \<in> set rows \<and> rr_receipt_uid row \<noteq> sr_receipt_uid r
   \<or> rr_receipt_uid row = sr_receipt_uid r \<and> rr_address_id row = sr_address_id r
     \<and> counted_at a row = counted_at a (mk r)"
  by (cases "sr_receipt_uid r \<in> rr_receipt_uid ` set rows")
    (auto simp: put_receipt_def set_update_where uid_mk uid_merge address_merge address_mk counted_merge
      intro: rev_image_eqI)

lemma total_put:
  "(\<And>row. row \<in> set rows \<Longrightarrow> rr_receipt_uid row = sr_receipt_uid r \<Longrightarrow>
      counted_at a row = counted_at a (mk r)) \<Longrightarrow>
   (sr_receipt_uid r \<notin> rr_receipt_uid ` set rows \<Longrightarrow> counted_at a (mk r) = 0) \<Longrightarrow>
   rows_total a (put r rows) = rows_total a rows"
  by (cases "sr_receipt_uid r \<in> rr_receipt_uid ` set rows")
    (simp_all add: put_receipt_def uid_mk counted_merge rows_total_update_where)

text \<open>A batch leaves the total of \<open>a\<close> alone when each receipt says what is stored.\<close>

lemma total_fold_put:
  assumes "\<And>r row. r \<in> set rs \<Longrightarrow> row \<in> set rows \<Longrightarrow> rr_receipt_uid row = sr_receipt_uid r \<Longrightarrow>
             counted_at a row = counted_at a (mk r)"
    and "\<And>r r'. r \<in> set rs \<Longrightarrow> r' \<in> set rs \<Longrightarrow> sr_receipt_uid r = sr_receipt_uid r' \<Longrightarrow>
             counted_at a (mk r) = counted_at a (mk r')"
    and "\<And>r. r \<in> set rs \<Longrightarrow> sr_receipt_uid r \<notin> rr_receipt_uid ` set rows \<Longrightarrow> counted_at a (mk r) = 0"
  shows "rows_total a (fold put rs rows) = rows_total a rows"
  using assms
proof (induction rs arbitrary: rows)
  case Nil
  show ?case by simp
next
  case (Cons r rs)
  have "rows_total a (fold put rs (put r rows)) = rows_total a (put r rows)"
  proof (rule Cons.IH, goal_cases)
    case (1 r' row)
    from in_put [OF 1(2), of a] show ?case
    proof
      assume "row \<in> set rows \<and> rr_receipt_uid row \<noteq> sr_receipt_uid r"
      then show ?thesis using 1 by (intro Cons.prems(1)) simp_all
    next
      assume *: "rr_receipt_uid row = sr_receipt_uid r \<and> rr_address_id row = sr_address_id r
        \<and> counted_at a row = counted_at a (mk r)"
      then have "counted_at a (mk r) = counted_at a (mk r')"
        using 1 by (intro Cons.prems(2)) simp_all
      with * show ?thesis by (simp only:)
    qed
  next
    case (2 r' r'')
    then show ?case by (intro Cons.prems(2)) simp_all
  next
    case (3 r')
    then have "sr_receipt_uid r' \<noteq> sr_receipt_uid r" "sr_receipt_uid r' \<notin> rr_receipt_uid ` set rows"
      using uids_put [of r rows] by auto
    then show ?case using 3(1) by (intro Cons.prems(3)) simp_all
  qed
  moreover have "rows_total a (put r rows) = rows_total a rows"
    by (rule total_put; rule Cons.prems(1) Cons.prems(3)) simp_all
  ultimately show ?case by simp
qed

end

lemma counted_at_cong:
  "rr_address_id r = rr_address_id r' \<Longrightarrow> rr_receipt_state r = rr_receipt_state r' \<Longrightarrow>
   rr_eligible_for_webhook r = rr_eligible_for_webhook r' \<Longrightarrow> rr_value_zat r = rr_value_zat r' \<Longrightarrow>
   counted_at a r = counted_at a r'"
  by (simp only: counted_at_def is_counted_def is_active_def)

lemma receipt_of_scan_fields [simp]:
  "rr_receipt_uid (receipt_of_scan r) = sr_receipt_uid r"
  "rr_address_id (receipt_of_scan r) = sr_address_id r"
  "rr_receipt_state (receipt_of_scan r) = Active"
  "rr_eligible_for_webhook (receipt_of_scan r) = sr_eligible_for_webhook r"
  "rr_value_zat (receipt_of_scan r) = sr_value_zat r"
  "rr_mined_height (receipt_of_scan r) = sr_mined_height r"
  "rr_receipt_kind (receipt_of_scan r) = sr_receipt_kind r"
  "rr_confirmation_depth (receipt_of_scan r) = sr_confirmation_depth r"
  "rr_txid (receipt_of_scan r) = sr_txid_hex r"
  "rr_pool (receipt_of_scan r) = sr_pool r"
  by (simp_all add: receipt_of_scan_def)

lemma merge_scanned_fields [simp]:
  "rr_receipt_uid (merge_scanned new old) = rr_receipt_uid old"
  "rr_address_id (merge_scanned new old) = rr_address_id new"
  "rr_receipt_state (merge_scanned new old) = Active"
  "rr_eligible_for_webhook (merge_scanned new old) = rr_eligible_for_webhook new"
  "rr_value_zat (merge_scanned new old) = rr_value_zat new"
  "rr_mined_height (merge_scanned new old) = rr_mined_height new"
  "rr_receipt_kind (merge_scanned new old) = rr_receipt_kind new"
  "rr_confirmation_depth (merge_scanned new old) = rr_confirmation_depth new"
  "rr_txid (merge_scanned new old) = rr_txid new"
  by (simp_all add: merge_scanned_def)

lemma mempool_row_fields [simp]:
  "rr_receipt_uid (mempool_row r t e now) = sr_receipt_uid r"
  "rr_address_id (mempool_row r t e now) = sr_address_id r"
  "rr_receipt_state (mempool_row r t e now) = Active"
  "rr_eligible_for_webhook (mempool_row r t e now) = e"
  "rr_value_zat (mempool_row r t e now) = sr_value_zat r"
  "rr_txid (mempool_row r t e now) = sr_txid_hex r"
  "rr_receipt_kind (mempool_row r t e now) = Mempool"
  by (simp_all add: mempool_row_def)

lemma merge_mempool_fields [simp]:
  "rr_receipt_uid (merge_mempool new old) = rr_receipt_uid old"
  "rr_address_id (merge_mempool new old) = rr_address_id new"
  "rr_receipt_state (merge_mempool new old) = Active"
  "rr_eligible_for_webhook (merge_mempool new old) = rr_eligible_for_webhook new"
  "rr_value_zat (merge_mempool new old) = rr_value_zat new"
  "rr_txid (merge_mempool new old) = rr_txid new"
  "rr_receipt_kind (merge_mempool new old) = Mempool"
  by (simp_all add: merge_mempool_def)

interpretation observing: observing_statement receipt_of_scan merge_scanned
  by unfold_locales (simp_all, simp add: counted_at_def is_counted_def is_active_def)

end
