(* ===== verification/Receipt_Ledger.thy ===== *)
theory Receipt_Ledger
  imports Db_Receipts
begin

text \<open>
  What the receipt operations establish. Every loop over receipts is shown to be an update of
  the receipts table together with the set of addresses it affected; the totals of all other
  addresses are unchanged, so recomputing the affected ones brings the whole totals table
  back in line with the receipts.
\<close>

section \<open>The loops as updates of the table\<close>

abbreviation affected :: "reconciliation \<times> dirty_since \<Rightarrow> int set" where
  "affected acc \<equiv> set (rc_affected_address_ids (fst acc))"

lemma affected_affect [simp]:
  "set (rc_affected_address_ids (affect a rc)) = insert a (set (rc_affected_address_ids rc))"
  by (simp add: affect_def)

lemma affected_no_reconciliation [simp]: "rc_affected_address_ids no_reconciliation = []"
  by (simp add: no_reconciliation_def)

definition with_receipts :: "receipt_row list \<Rightarrow> app_db \<Rightarrow> app_db" where
  "with_receipts rows db = db\<lparr>db_receipts := rows\<rparr>"

lemma with_receipts_simps [simp]:
  "db_receipts (with_receipts rows db) = rows"
  "with_receipts rows' (with_receipts rows db) = with_receipts rows' db"
  "with_receipts (db_receipts db) db = db"
  "db_totals (with_receipts rows db) = db_totals db"
  "db_issued_addresses (with_receipts rows db) = db_issued_addresses db"
  "db_metadata (with_receipts rows db) = db_metadata db"
  "db_deliveries (with_receipts rows db) = db_deliveries db"
  by (simp_all add: with_receipts_def)

abbreviation revoke_uids :: "string \<Rightarrow> string list \<Rightarrow> receipt_row list \<Rightarrow> receipt_row list" where
  "revoke_uids now \<equiv> fold (\<lambda>uid. update_where (\<lambda>r. rr_receipt_uid r = uid) (revoke_row now))"

lemma upsert_receipt_Inr:
  "upsert_receipt row merge db = (Inr n, d) \<longleftrightarrow>
     pool_allowed (rr_pool row) \<and> address_exists db (rr_address_id row) \<and> n = 1
     \<and> d = with_receipts (put_receipt row merge (db_receipts db)) db"
  by (auto simp: upsert_receipt_def with_receipts_def)

text \<open>Observing: the rows are put in order, every receipt affects its address.\<close>

lemma observe_loop:
  "for_each observe_receipt rs acc db = (Inr acc', d) \<Longrightarrow>
   d = with_receipts (fold observing.put rs (db_receipts db)) db
   \<and> set (fst acc') = set (fst acc) \<union> sr_address_id ` set rs"
proof (induction rs arbitrary: acc db)
  case Nil
  then show ?case by simp
next
  case (Cons r rs)
  then obtain acc1 d1 where 1: "observe_receipt r acc db = (Inr acc1, d1)"
    and 2: "for_each observe_receipt rs acc1 d1 = (Inr acc', d)" by (auto simp: andThen_Inr)
  from 1 have "d1 = with_receipts (observing.put r (db_receipts db)) db"
    "set (fst acc1) = insert (sr_address_id r) (set (fst acc))"
    by (auto simp: observe_receipt_def Let_def andThen_Inr upsert_receipt_Inr)
  with Cons.IH [OF 2] show ?case by auto
qed

text \<open>Revoking: the chosen rows are revoked, each affects its address.\<close>

definition unscanned :: "(string \<times> attributed_receipt) list \<Rightarrow> string \<times> receipt_row \<Rightarrow> bool" where
  "unscanned scanned entry \<longleftrightarrow> rr_receipt_kind (snd entry) = Mined \<and> is_active (snd entry)
     \<and> map_of scanned (fst entry) = None"

definition missing :: "string list \<Rightarrow> string \<times> receipt_row \<Rightarrow> bool" where
  "missing txids entry \<longleftrightarrow> is_active (snd entry) \<and> rr_txid (snd entry) \<notin> set txids"

lemma revoke_receipt_run [simp]:
  "revoke_receipt now uid db = (Inr u, d) \<longleftrightarrow>
     d = with_receipts (update_where (\<lambda>r. rr_receipt_uid r = uid) (revoke_row now) (db_receipts db)) db"
  by (auto simp: revoke_receipt_def with_receipts_def)

lemma revoke_unscanned_loop:
  "for_each (revoke_unscanned now scanned) entries acc db = (Inr acc', d) \<Longrightarrow>
   d = with_receipts (revoke_uids now (map fst (filter (unscanned scanned) entries)) (db_receipts db)) db
   \<and> affected acc' = affected acc \<union> (rr_address_id \<circ> snd) ` {e \<in> set entries. unscanned scanned e}"
proof (induction entries arbitrary: acc db)
  case Nil
  then show ?case by simp
next
  case (Cons e entries)
  then obtain acc1 d1 where 1: "revoke_unscanned now scanned e acc db = (Inr acc1, d1)"
    and 2: "for_each (revoke_unscanned now scanned) entries acc1 d1 = (Inr acc', d)" by (auto simp: andThen_Inr)
  from 1 have "d1 = with_receipts (revoke_uids now (map fst (filter (unscanned scanned) [e])) (db_receipts db)) db
      \<and> affected acc1 = affected acc \<union> (rr_address_id \<circ> snd) ` {x \<in> {e}. unscanned scanned x}"
    by (auto simp: revoke_unscanned_def unscanned_def Let_def andThen_Inr split: if_splits)
  with Cons.IH [OF 2] show ?case by auto
qed

lemma revoke_missing_loop:
  "for_each (revoke_missing_receipt now txids) entries acc db = (Inr acc', d) \<Longrightarrow>
   d = with_receipts (revoke_uids now (map fst (filter (missing txids) entries)) (db_receipts db)) db
   \<and> affected acc' = affected acc \<union> (rr_address_id \<circ> snd) ` {e \<in> set entries. missing txids e}"
proof (induction entries arbitrary: acc db)
  case Nil
  then show ?case by simp
next
  case (Cons e entries)
  then obtain acc1 d1 where 1: "revoke_missing_receipt now txids e acc db = (Inr acc1, d1)"
    and 2: "for_each (revoke_missing_receipt now txids) entries acc1 d1 = (Inr acc', d)" by (auto simp: andThen_Inr)
  from 1 have "d1 = with_receipts (revoke_uids now (map fst (filter (missing txids) [e])) (db_receipts db)) db
      \<and> affected acc1 = affected acc \<union> (rr_address_id \<circ> snd) ` {x \<in> {e}. missing txids x}"
    by (auto simp: revoke_missing_receipt_def missing_def Let_def andThen_Inr split: if_splits)
  with Cons.IH [OF 2] show ?case by auto
qed

lemma revoke_above_loop:
  "for_each (revoke_above now) rows acc db = (Inr acc', d) \<Longrightarrow>
   d = with_receipts (revoke_uids now (map rr_receipt_uid rows) (db_receipts db)) db
   \<and> affected acc' = affected acc \<union> rr_address_id ` set rows"
proof (induction rows arbitrary: acc db)
  case Nil
  then show ?case by simp
next
  case (Cons r rows)
  then obtain acc1 d1 where 1: "revoke_above now r acc db = (Inr acc1, d1)"
    and 2: "for_each (revoke_above now) rows acc1 d1 = (Inr acc', d)" by (auto simp: andThen_Inr)
  from 1 have "d1 = with_receipts (revoke_uids now [rr_receipt_uid r] (db_receipts db)) db
      \<and> affected acc1 = insert (rr_address_id r) (affected acc)"
    by (auto simp: revoke_above_def andThen_Inr)
  with Cons.IH [OF 2] show ?case by auto
qed

text \<open>Reconciling: the addresses one scanned or mempool receipt affects.\<close>

definition scan_affects :: "(string \<times> receipt_row) list \<Rightarrow> attributed_receipt \<Rightarrow> int set" where
  "scan_affects existing r =
     (case map_of existing (sr_receipt_uid r) of
        None \<Rightarrow> {sr_address_id r}
      | Some old \<Rightarrow> if \<not> is_active old \<or> scan_changed r old then {sr_address_id r, rr_address_id old} else {})"

definition first_seen :: "(string \<times> receipt_row) list \<Rightarrow> attributed_receipt \<Rightarrow> string" where
  "first_seen existing r =
     (case map_of existing (sr_receipt_uid r) of Some old \<Rightarrow> rr_first_observed_at old | None \<Rightarrow> sr_first_observed_at r)"

definition mempool_of_scan ::
  "nat \<Rightarrow> string \<Rightarrow> string \<Rightarrow> (string \<times> receipt_row) list \<Rightarrow> attributed_receipt \<Rightarrow> receipt_row" where
  "mempool_of_scan reports cutoff now existing r =
     mempool_row r (first_seen existing r) (mempool_fresh reports cutoff (first_seen existing r)) now"

definition mempool_affects ::
  "nat \<Rightarrow> string \<Rightarrow> (string \<times> receipt_row) list \<Rightarrow> attributed_receipt \<Rightarrow> int set" where
  "mempool_affects reports cutoff existing r =
     (case map_of existing (sr_receipt_uid r) of
        None \<Rightarrow> {sr_address_id r}
      | Some old \<Rightarrow> if \<not> is_active old \<or> mempool_changed r
                            (mempool_fresh reports cutoff (first_seen existing r)) (first_seen existing r) old
                    then {sr_address_id r} else {})"

interpretation mempool: observing_statement "mempool_of_scan reports cutoff now existing" merge_mempool
  for reports cutoff now existing
  by unfold_locales (simp_all add: mempool_of_scan_def counted_at_def is_counted_def is_active_def)

lemma reconcile_scanned_loop:
  "for_each (reconcile_scanned existing) rs acc db = (Inr acc', d) \<Longrightarrow>
   d = with_receipts (fold observing.put rs (db_receipts db)) db
   \<and> affected acc' = affected acc \<union> \<Union> (scan_affects existing ` set rs)"
proof (induction rs arbitrary: acc db)
  case Nil
  then show ?case by simp
next
  case (Cons r rs)
  then obtain acc1 d1 where 1: "reconcile_scanned existing r acc db = (Inr acc1, d1)"
    and 2: "for_each (reconcile_scanned existing) rs acc1 d1 = (Inr acc', d)" by (auto simp: andThen_Inr)
  from 1 have "d1 = with_receipts (observing.put r (db_receipts db)) db
    \<and> affected acc1 = affected acc \<union> scan_affects existing r"
    by (auto simp: reconcile_scanned_def Let_def andThen_Inr upsert_receipt_Inr scan_affects_def
        split: option.splits)
  with Cons.IH [OF 2] show ?case by auto
qed

lemma reconcile_mempool_loop:
  "for_each (reconcile_mempool_receipt reports cutoff now existing) rs acc db = (Inr acc', d) \<Longrightarrow>
   d = with_receipts (fold (mempool.put reports cutoff now existing) rs (db_receipts db)) db
   \<and> affected acc' = affected acc \<union> \<Union> (mempool_affects reports cutoff existing ` set rs)"
proof (induction rs arbitrary: acc db)
  case Nil
  then show ?case by simp
next
  case (Cons r rs)
  then obtain acc1 d1 where 1: "reconcile_mempool_receipt reports cutoff now existing r acc db = (Inr acc1, d1)"
    and 2: "for_each (reconcile_mempool_receipt reports cutoff now existing) rs acc1 d1 = (Inr acc', d)"
    by (auto simp: andThen_Inr)
  from 1 have "d1 = with_receipts (mempool.put reports cutoff now existing r (db_receipts db)) db
    \<and> affected acc1 = affected acc \<union> mempool_affects reports cutoff existing r"
    by (auto simp: reconcile_mempool_receipt_def Let_def andThen_Inr upsert_receipt_Inr mempool_affects_def
        mempool_of_scan_def first_seen_def split: option.splits)
  with Cons.IH [OF 2] show ?case by auto
qed

section \<open>The ledger invariant\<close>

text \<open>
  The totals table and the receipts table have their keys, and every row of totals reports
  the active eligible receipts of its address.
\<close>

definition ledger_ok :: "app_db \<Rightarrow> bool" where
  "ledger_ok db \<longleftrightarrow> totals_keys_ok db \<and> receipt_uids_ok db \<and> totals_current db"

text \<open>A change of receipts and totals only, every totals row by a legal step.\<close>

definition ledger_step :: "app_db \<Rightarrow> app_db \<Rightarrow> bool" where
  "ledger_step db db' \<longleftrightarrow> db' = db\<lparr>db_receipts := db_receipts db', db_totals := db_totals db'\<rparr>
     \<and> list_all2 row_step (db_totals db) (db_totals db')"

text \<open>
  A receipt uid names the output of a transaction, so a stored receipt with the uid of a new
  one belongs to the same address.
\<close>

definition uids_agree :: "attributed_receipt list \<Rightarrow> receipt_row list \<Rightarrow> bool" where
  "uids_agree receipts rows \<longleftrightarrow>
     list_all (\<lambda>r. list_all (\<lambda>row. rr_receipt_uid row = sr_receipt_uid r \<longrightarrow>
                                    rr_address_id row = sr_address_id r) rows) receipts"

lemma uids_agreeD:
  "uids_agree receipts rows \<Longrightarrow> r \<in> set receipts \<Longrightarrow> row \<in> set rows \<Longrightarrow>
   rr_receipt_uid row = sr_receipt_uid r \<Longrightarrow> rr_address_id row = sr_address_id r"
  by (simp add: uids_agree_def list_all_iff)

lemma ledger_step_refl [simp]: "ledger_step db db"
  by (simp add: ledger_step_def list_all2_refl)

lemma ledger_finish:
  assumes "ledger_ok db" "distinct (map rr_receipt_uid rows)"
    and same: "\<And>a. a \<notin> set ids \<Longrightarrow> rows_total a rows = rows_total a (db_receipts db)"
    and run: "recompute_address_totals ids tip fin now reason since (with_receipts rows db) = (Inr x, db')"
  shows "ledger_ok db' \<and> ledger_step db db' \<and> db_receipts db' = rows"
proof -
  let ?d = "with_receipts rows db"
  have keys: "totals_keys_ok ?d" using assms(1) by (simp add: ledger_ok_def totals_keys_ok_def)
  have cur: "total_current ?d t" if "t \<in> set (db_totals ?d)" "at_address_id t \<notin> set ids" for t
    using that assms(1) same [OF that(2)]
    by (auto simp: ledger_ok_def totals_current_def list_all_iff total_current_def eligible_total_rows)
  note R = recompute_address_totals_Inr [OF run keys cur]
  have sbt: "same_but_totals ?d db'" by (rule R(2)) auto
  have rs: "list_all2 row_step (db_totals ?d) (db_totals db')" by (rule R(3)) auto
  have cur': "totals_current db'" by (rule R(1)) auto
  have "db_receipts db' = rows" using same_but_totals_tables(1) [OF sbt] by simp
  moreover have "totals_keys_ok db'"
    using keys row_step_keys [OF rs] by (simp add: totals_keys_ok_def)
  moreover have "db' = db\<lparr>db_receipts := db_receipts db', db_totals := db_totals db'\<rparr>"
    using sbt unfolding same_but_totals_def with_receipts_def by (metis app_db.select_convs app_db.surjective app_db.update_convs)
  ultimately show ?thesis
    using rs cur' assms(2) by (simp add: ledger_ok_def ledger_step_def receipt_uids_ok_def)
qed

section \<open>Each operation keeps the ledger\<close>

lemma apply_ledger:
  assumes led: "ledger_ok db" and agree: "uids_agree receipts (db_receipts db)"
    and run: "apply_attributed_receipts receipts tip fin now db = (r, db')"
  shows "ledger_ok db' \<and> ledger_step db db'"
proof (cases r)
  case (Inl e)
  then have "db' = db" using run by (auto simp: apply_attributed_receipts_def in_tx_Inl split: if_splits)
  with led show ?thesis by simp
next
  case (Inr ids)
  show ?thesis
  proof (cases "receipts = []")
    case True
    with run led show ?thesis by (auto simp: apply_attributed_receipts_def)
  next
    case False
    with run Inr obtain since d where loop: "for_each observe_receipt receipts ([], []) db = (Inr (ids, since), d)"
      and rec: "recompute_address_totals ids tip fin now ''receipt_observed'' since d = (Inr (), db')"
      by (auto simp: apply_attributed_receipts_def in_tx_Inr andThen_Inr)
    let ?rows = "fold observing.put receipts (db_receipts db)"
    from observe_loop [OF loop] have d: "d = with_receipts ?rows db"
      and ids: "set ids = sr_address_id ` set receipts" by auto
    have "rows_total a ?rows = rows_total a (db_receipts db)" if a: "a \<notin> set ids" for a
    proof (rule observing.total_fold_put)
      have zero: "counted_at a (receipt_of_scan r) = 0" if "r \<in> set receipts" for r
        using that a ids by (auto intro: counted_at_other)
      show "counted_at a row = counted_at a (receipt_of_scan r)"
        if "r \<in> set receipts" "row \<in> set (db_receipts db)" "rr_receipt_uid row = sr_receipt_uid r" for r row
      proof -
        have "rr_address_id row \<noteq> a" using uids_agreeD [OF agree that] a ids that(1) by auto
        then show ?thesis using zero [OF that(1)] by (simp add: counted_at_other)
      qed
      show "counted_at a (receipt_of_scan r) = counted_at a (receipt_of_scan r')"
        if "r \<in> set receipts" "r' \<in> set receipts" for r r' using that zero by simp
      show "counted_at a (receipt_of_scan r) = 0" if "r \<in> set receipts" for r using that by (rule zero)
    qed
    moreover have "distinct (map rr_receipt_uid ?rows)"
      using led by (intro observing.distinct_fold_put) (simp add: ledger_ok_def receipt_uids_ok_def)
    ultimately show ?thesis using ledger_finish [OF led] rec d by blast
  qed
qed

lemma advance_ledger:
  assumes led: "ledger_ok db"
    and run: "advance_receipt_maturity tip reports fin now db = (r, db')"
  shows "ledger_ok db' \<and> ledger_step db db'"
proof -
  let ?stale = "depth_stale tip (int reports)"
  let ?rows = "update_where ?stale (refresh_depth tip (int reports)) (db_receipts db)"
  let ?ids = "bset_of (map rr_address_id (filter ?stale (db_receipts db)))"
  consider (err) e where "r = Inl e" | (none) "db' = db"
    | (some) x since where "recompute_address_totals ?ids tip fin now ''receipt_matured'' since (with_receipts ?rows db) = (Inr x, db')"
    using run by (cases r) (auto simp: advance_receipt_maturity_def Let_def in_tx_Inr andThen_Inr with_receipts_def split: if_splits)
  then show ?thesis
  proof cases
    case err
    then have "db' = db" using run by (auto simp: advance_receipt_maturity_def in_tx_Inl)
    with led show ?thesis by simp
  next
    case none
    with led show ?thesis by simp
  next
    case some
    have "rows_total a ?rows = rows_total a (db_receipts db)" if "a \<notin> set ?ids" for a
      using that by (intro depth.total_elsewhere) auto
    moreover have "distinct (map rr_receipt_uid ?rows)"
      using led by (simp add: ledger_ok_def receipt_uids_ok_def depth.keys_update_where)
    ultimately show ?thesis using ledger_finish [OF led _ _ some] by blast
  qed
qed


lemma revoke_uids_facts:
  assumes "distinct uids" "distinct (map rr_receipt_uid rows)"
  shows "revoke_uids now uids rows = update_where (\<lambda>r. rr_receipt_uid r \<in> set uids) (revoke_row now) rows"
    and "distinct (map rr_receipt_uid (revoke_uids now uids rows))"
    and "(\<And>r. r \<in> set rows \<Longrightarrow> rr_receipt_uid r \<in> set uids \<Longrightarrow> rr_address_id r \<noteq> a) \<Longrightarrow>
         rows_total a (revoke_uids now uids rows) = rows_total a rows"
  using assms
  by (simp_all add: revoke.update_by_uids revoke.keys_update_where revoke.total_elsewhere)

lemma revoke_stored:
  assumes "row \<in> set (update_where (\<lambda>r. rr_receipt_uid r \<in> U) (revoke_row now) rows)"
  shows "\<exists>x \<in> set rows. rr_receipt_uid row = rr_receipt_uid x \<and> rr_address_id row = rr_address_id x
      \<and> (rr_receipt_uid row \<notin> U \<longrightarrow> row = x)"
proof -
  from assms obtain x where "x \<in> set rows" "row = (if rr_receipt_uid x \<in> U then revoke_row now x else x)"
    by (auto simp: update_where_def)
  then show ?thesis by (intro bexI [of _ x]) (simp_all add: revoke.key_upd revoke.address_upd)
qed

lemma above_tip_ledger:
  assumes led: "ledger_ok db"
    and run: "revoke_mined_receipts_above_tip tip fin now db = (r, db')"
  shows "ledger_ok db' \<and> ledger_step db db'"
proof (cases r)
  case (Inl e)
  then have "db' = db" using run by (auto simp: revoke_mined_receipts_above_tip_def in_tx_Inl)
  with led show ?thesis by simp
next
  case (Inr rc)
  let ?above = "sort_key (\<lambda>r. (rr_mined_height r, rr_receipt_uid r)) (filter (above_tip tip) (db_receipts db))"
  from run Inr obtain acc d where loop: "for_each (revoke_above now) ?above (no_reconciliation, []) db = (Inr acc, d)"
    and rest: "(if rc_affected_address_ids (fst acc) = [] then d = db'
                else recompute_address_totals (rc_affected_address_ids (fst acc)) tip fin now ''reorg_reconcile'' (snd acc) d = (Inr (), db'))"
    by (auto simp: revoke_mined_receipts_above_tip_def Let_def in_tx_Inr andThen_Inr split: prod.splits if_splits)
  let ?rows = "revoke_uids now (map rr_receipt_uid ?above) (db_receipts db)"
  from revoke_above_loop [OF loop] have d: "d = with_receipts ?rows db"
    and aff: "affected acc = rr_address_id ` set ?above" by auto
  have uids: "distinct (map rr_receipt_uid (db_receipts db))" using led by (simp add: ledger_ok_def receipt_uids_ok_def)
  then have above: "distinct (map rr_receipt_uid ?above)"
    by (auto simp: distinct_map inj_on_def)
  note F = revoke_uids_facts [OF above uids, where now = now]
  show ?thesis
  proof (cases "rc_affected_address_ids (fst acc) = []")
    case True
    with aff have "set ?above = {}" by (metis image_is_empty set_empty)
    then have "?above = []" by (metis set_empty)
    then show ?thesis using rest True d led by simp
  next
    case False
    have total: "rows_total a ?rows = rows_total a (db_receipts db)" if a: "a \<notin> affected acc" for a
    proof (rule F(3))
      fix r assume r: "r \<in> set (db_receipts db)" "rr_receipt_uid r \<in> set (map rr_receipt_uid ?above)"
      from r(2) have "rr_receipt_uid r \<in> rr_receipt_uid ` set ?above" by (simp only: set_map)
      then obtain r' where r': "rr_receipt_uid r = rr_receipt_uid r'" "r' \<in> set ?above" by (rule imageE)
      from r'(2) have "r' \<in> set (db_receipts db)" by simp
      from key_unique [OF uids r(1) this r'(1)] r'(2) have "r \<in> set ?above" by (simp only:)
      with a aff show "rr_address_id r \<noteq> a" by blast
    qed
    from rest False d have "recompute_address_totals (rc_affected_address_ids (fst acc)) tip fin now
        ''reorg_reconcile'' (snd acc) (with_receipts ?rows db) = (Inr (), db')" by simp
    from ledger_finish [OF led F(2) total this] show ?thesis by simp
  qed
qed


text \<open>A rescanned receipt that affects no address says what is stored.\<close>

lemma scan_unchanged:
  assumes "scan_affects existing r = {}" "map_of existing (sr_receipt_uid r) = Some old"
  shows "counted_at a old = counted_at a (receipt_of_scan r)"
  using assms by (auto simp: scan_affects_def scan_changed_def counted_at_def is_counted_def is_active_def
      split: if_splits)

lemma reconcile_ledger:
  assumes led: "ledger_ok db" and agree: "uids_agree receipts (db_receipts db)"
    and run: "reconcile_attributed_receipts_in_range receipts lo hi tip fin now db = (r, db')"
  shows "ledger_ok db' \<and> ledger_step db db'"
proof (cases r)
  case (Inl e)
  then have "db' = db" using run by (auto simp: reconcile_attributed_receipts_in_range_def in_tx_Inl)
  with led show ?thesis by simp
next
  case (Inr rc)
  define scanned where "scanned = btree_collect sr_receipt_uid receipts"
  define existing where "existing = existing_in_range lo hi db"
  from run Inr obtain acc1 d1 acc2 d2 where
      loop1: "for_each (revoke_unscanned now scanned) existing (no_reconciliation, []) db = (Inr acc1, d1)"
    and loop2: "for_each (reconcile_scanned existing) (map snd scanned) acc1 d1 = (Inr acc2, d2)"
    and rec: "recompute_address_totals (rc_affected_address_ids (fst acc2)) tip fin now ''reorg_reconcile'' (snd acc2) d2 = (Inr (), db')"
    by (auto simp: reconcile_attributed_receipts_in_range_def Let_def in_tx_Inr andThen_Inr scanned_def existing_def
        split: prod.splits)
  let ?gone = "map fst (filter (unscanned scanned) existing)"
  let ?rows1 = "revoke_uids now ?gone (db_receipts db)"
  let ?rows2 = "fold observing.put (map snd scanned) ?rows1"
  from revoke_unscanned_loop [OF loop1] have d1: "d1 = with_receipts ?rows1 db"
    and aff1: "affected acc1 = (rr_address_id \<circ> snd) ` {e \<in> set existing. unscanned scanned e}" by auto
  from reconcile_scanned_loop [OF loop2] d1 have d2: "d2 = with_receipts ?rows2 db"
    and aff2: "affected acc2 = affected acc1 \<union> \<Union> (scan_affects existing ` set (map snd scanned))" by auto
  have uids: "distinct (map rr_receipt_uid (db_receipts db))" using led by (simp add: ledger_ok_def receipt_uids_ok_def)
  have gone: "distinct ?gone"
    unfolding existing_def existing_in_range_def Let_def
    by (rule distinct_map_filter) (rule btree_collect_distinct_keys)
  note F = revoke_uids_facts [OF gone uids, where now = now]
  have entry: "x \<in> set (db_receipts db) \<and> rr_receipt_uid x = k" if "(k, x) \<in> set existing" for k x
    using btree_collect_entry that unfolding existing_def existing_in_range_def Let_def by fastforce
  have rows1: "\<exists>x \<in> set (db_receipts db). rr_receipt_uid row = rr_receipt_uid x \<and> rr_address_id row = rr_address_id x
      \<and> (rr_receipt_uid row \<notin> set ?gone \<longrightarrow> row = x)" if "row \<in> set ?rows1" for row
    using that unfolding F(1) by (rule revoke_stored)
  have scn: "r \<in> set receipts" "map_of scanned (sr_receipt_uid r) = Some r" if "r \<in> set (map snd scanned)" for r
    using that btree_collect_value [of r sr_receipt_uid receipts] btree_collect_entry [of _ r sr_receipt_uid receipts]
    unfolding scanned_def by auto
  have total: "rows_total a ?rows2 = rows_total a (db_receipts db)" if a: "a \<notin> affected acc2" for a
  proof -
    have "rows_total a ?rows2 = rows_total a ?rows1"
    proof (rule observing.total_fold_put)
      fix r row assume r: "r \<in> set (map snd scanned)" and row: "row \<in> set ?rows1"
        and uid: "rr_receipt_uid row = sr_receipt_uid r"
      from rows1 [OF row] scn(2) [OF r] uid have stored: "row \<in> set (db_receipts db)"
        by (auto simp: unscanned_def)
      show "counted_at a row = counted_at a (receipt_of_scan r)"
      proof (cases "scan_affects existing r = {}")
        case True
        then obtain old where old: "map_of existing (sr_receipt_uid r) = Some old"
          by (auto simp: scan_affects_def split: option.splits)
        with entry [OF map_of_SomeD [OF old]] key_unique [OF uids, of old row] stored uid have "old = row" by simp
        with scan_unchanged [OF True old] show ?thesis by simp
      next
        case False
        then have "sr_address_id r \<in> scan_affects existing r"
          by (auto simp: scan_affects_def split: option.splits if_splits)
        then have "sr_address_id r \<noteq> a" using a aff2 r by auto
        with uids_agreeD [OF agree scn(1) [OF r] stored uid] show ?thesis
          by (simp add: counted_at_other)
      qed
    next
      fix r r' assume "r \<in> set (map snd scanned)" "r' \<in> set (map snd scanned)" "sr_receipt_uid r = sr_receipt_uid r'"
      then have "r = r'" using scn(2) by (metis option.inject)
      then show "counted_at a (receipt_of_scan r) = counted_at a (receipt_of_scan r')" by simp
    next
      fix r assume r: "r \<in> set (map snd scanned)" and new: "sr_receipt_uid r \<notin> rr_receipt_uid ` set ?rows1"
      have "rr_receipt_uid ` set ?rows1 = rr_receipt_uid ` set (db_receipts db)"
        unfolding F(1) by (rule revoke.key_image_update_where)
      with new have new': "sr_receipt_uid r \<notin> rr_receipt_uid ` set (db_receipts db)" by simp
      have "map_of existing (sr_receipt_uid r) = None"
      proof (rule ccontr)
        assume "map_of existing (sr_receipt_uid r) \<noteq> None"
        then obtain x where "map_of existing (sr_receipt_uid r) = Some x" by blast
        from entry [OF map_of_SomeD [OF this]] new' show False by force
      qed
      then have "sr_address_id r \<noteq> a" using a aff2 r by (auto simp: scan_affects_def)
      then show "counted_at a (receipt_of_scan r) = 0" by (simp add: counted_at_other)
    qed
    also have "rows_total a ?rows1 = rows_total a (db_receipts db)"
    proof (rule F(3))
      fix row assume row: "row \<in> set (db_receipts db)" "rr_receipt_uid row \<in> set ?gone"
      then obtain x where x: "(rr_receipt_uid row, x) \<in> set existing" "unscanned scanned (rr_receipt_uid row, x)"
        by auto
      with entry [OF x(1)] key_unique [OF uids, of x row] row(1) have "x = row" by simp
      with x have "rr_address_id row \<in> affected acc1" unfolding aff1 by force
      with a aff2 show "rr_address_id row \<noteq> a" by auto
    qed
    finally show ?thesis .
  qed
  have "distinct (map rr_receipt_uid ?rows2)" by (rule observing.distinct_fold_put) (rule F(2))
  from ledger_finish [OF led this total rec [unfolded d2]] show ?thesis by simp
qed


lemma mempool_unchanged:
  assumes "mempool_affects reports cutoff existing r = {}"
  obtains old where "map_of existing (sr_receipt_uid r) = Some old"
    "counted_at a old = counted_at a (mempool_of_scan reports cutoff now existing r)"
  using assms by (auto simp: mempool_affects_def mempool_changed_def counted_at_def is_counted_def is_active_def
      mempool_of_scan_def split: option.splits if_splits)

lemma mempool_affects_cases:
  "mempool_affects reports cutoff existing r = {} \<or> mempool_affects reports cutoff existing r = {sr_address_id r}"
  by (auto simp: mempool_affects_def split: option.splits)

lemma age_mempool_run:
  "age_mempool_receipts reports cutoff now acc db = (Inr acc', d) \<Longrightarrow>
   d = with_receipts (update_where (freshness_stale reports cutoff)
         (refresh_freshness reports cutoff now) (db_receipts db)) db
   \<and> affected acc' = affected acc
       \<union> rr_address_id ` {r \<in> set (db_receipts db). freshness_stale reports cutoff r}"
proof -
  have fold_affect: "set (rc_affected_address_ids (fold affect xs rc)) = set (rc_affected_address_ids rc) \<union> set xs"
    for xs rc by (induction xs arbitrary: rc) auto
  assume "age_mempool_receipts reports cutoff now acc db = (Inr acc', d)"
  then show ?thesis by (auto simp: age_mempool_receipts_def Let_def with_receipts_def fold_affect)
qed

lemma mempool_rows_total:
  assumes uids: "distinct (map rr_receipt_uid rows)" and agree: "uids_agree receipts rows"
    and existing: "\<And>k x. map_of existing k = Some x \<Longrightarrow> x \<in> set rows \<and> rr_receipt_uid x = k"
    and rows1: "\<And>row. row \<in> set rows1 \<Longrightarrow> \<exists>x \<in> set rows. rr_receipt_uid row = rr_receipt_uid x
        \<and> rr_address_id row = rr_address_id x \<and> (rr_address_id row = a \<longrightarrow> row = x)"
    and keys1: "rr_receipt_uid ` set rows1 = rr_receipt_uid ` set rows"
    and a: "\<And>r. r \<in> set receipts \<Longrightarrow> a \<notin> mempool_affects reports cutoff existing r"
  shows "rows_total a (fold (mempool.put reports cutoff now existing) receipts rows1) = rows_total a rows1"
proof -
  let ?mk = "mempool_of_scan reports cutoff now existing"
  have stored: "\<exists>old. old \<in> set rows \<and> rr_receipt_uid old = sr_receipt_uid r \<and> counted_at a old = counted_at a (?mk r)"
    if "r \<in> set receipts" "sr_address_id r = a" for r
  proof -
    have "mempool_affects reports cutoff existing r = {}" using mempool_affects_cases a that by blast
    then obtain old where "map_of existing (sr_receipt_uid r) = Some old" "counted_at a old = counted_at a (?mk r)"
      by (rule mempool_unchanged)
    with existing [OF this(1)] show ?thesis by blast
  qed
  have other: "counted_at a (?mk r) = 0" if "sr_address_id r \<noteq> a" for r
    using that by (intro counted_at_other) (simp add: mempool.address_mk)
  have address: "sr_address_id r' = a" if "r \<in> set receipts" "sr_address_id r = a" "r' \<in> set receipts"
      "sr_receipt_uid r = sr_receipt_uid r'" for r r'
    using stored [OF that(1,2)] uids_agreeD [OF agree that(1)] uids_agreeD [OF agree that(3)] that(2,4) by fastforce
  have same: "counted_at a (?mk r) = counted_at a (?mk r')" if "r \<in> set receipts" "r' \<in> set receipts"
      "sr_receipt_uid r = sr_receipt_uid r'" for r r'
  proof (cases "sr_address_id r = a")
    case True
    with that address have a': "sr_address_id r' = a" by blast
    from stored [OF that(1) True] stored [OF that(2) a'] that(3) key_unique [OF uids] show ?thesis by metis
  next
    case False
    with that address [of r' r] have "sr_address_id r' \<noteq> a" by metis
    with False other show ?thesis by simp
  qed
  show ?thesis
  proof (rule mempool.total_fold_put)
    fix r row assume r: "r \<in> set receipts" and row: "row \<in> set rows1" and uid: "rr_receipt_uid row = sr_receipt_uid r"
    from rows1 [OF row] obtain x where x: "x \<in> set rows" "rr_receipt_uid row = rr_receipt_uid x"
      "rr_address_id row = rr_address_id x" "rr_address_id row = a \<longrightarrow> row = x" by blast
    from uids_agreeD [OF agree r x(1)] x(2,3) uid have addr: "rr_address_id row = sr_address_id r" by (simp only:)
    show "counted_at a row = counted_at a (?mk r)"
    proof (cases "sr_address_id r = a")
      case True
      from True addr x(4) have row: "row = x" by blast
      from stored [OF r True] obtain old where old: "old \<in> set rows" "rr_receipt_uid old = sr_receipt_uid r"
        "counted_at a old = counted_at a (?mk r)" by blast
      from key_unique [OF uids old(1) x(1)] old(2) x(2) uid have "old = x" by simp
      with old(3) row show ?thesis by simp
    next
      case False
      with addr other show ?thesis by (simp add: counted_at_other)
    qed
  next
    fix r assume r: "r \<in> set receipts" and new: "sr_receipt_uid r \<notin> rr_receipt_uid ` set rows1"
    have "sr_address_id r \<noteq> a"
    proof
      assume "sr_address_id r = a"
      from stored [OF r this] obtain old where "old \<in> set rows" "rr_receipt_uid old = sr_receipt_uid r" by blast
      then have "sr_receipt_uid r \<in> rr_receipt_uid ` set rows" by (metis imageI)
      with new keys1 show False by blast
    qed
    then show "counted_at a (?mk r) = 0" by (rule other)
  qed (rule same)
qed


lemma mempool_ledger:
  assumes led: "ledger_ok db" and agree: "uids_agree receipts (db_receipts db)"
    and run: "reconcile_mempool_snapshot ext txids receipts now tip fin reports revoke_missing db = (r, db')"
  shows "ledger_ok db' \<and> ledger_step db db'"
proof (cases r)
  case (Inl e)
  then have "db' = db" using run by (auto simp: reconcile_mempool_snapshot_def in_tx_Inl)
  with led show ?thesis by simp
next
  case (Inr rc)
  define existing where "existing = btree_collect rr_receipt_uid (filter (\<lambda>r. rr_receipt_kind r = Mempool) (db_receipts db))"
  from run Inr obtain cutoff acc1 d1 acc2 d2 acc3 d3 where
      loop1: "(if revoke_missing then for_each (revoke_missing_receipt now txids) existing (no_reconciliation, [])
               else ret (no_reconciliation, [])) db = (Inr acc1, d1)"
    and loop2: "for_each (reconcile_mempool_receipt reports cutoff now existing) receipts acc1 d1 = (Inr acc2, d2)"
    and aging: "age_mempool_receipts reports cutoff now acc2 d2 = (Inr acc3, d3)"
    and rec: "recompute_address_totals (rc_affected_address_ids (fst acc3)) tip fin now ''mempool_reconcile'' (snd acc3) d3 = (Inr (), db')"
    unfolding existing_def
    by (auto simp: reconcile_mempool_snapshot_def Let_def in_tx_Inr andThen_Inr split: prod.splits)
  define gone where "gone = (if revoke_missing then filter (missing txids) existing else [])"
  let ?rows1 = "revoke_uids now (map fst gone) (db_receipts db)"
  let ?rows2 = "fold (mempool.put reports cutoff now existing) receipts ?rows1"
  let ?rows3 = "update_where (freshness_stale reports cutoff) (refresh_freshness reports cutoff now) ?rows2"
  have d1: "d1 = with_receipts ?rows1 db" and aff1: "affected acc1 = (rr_address_id \<circ> snd) ` set gone"
    using loop1 revoke_missing_loop [of now txids existing "(no_reconciliation, [])" db acc1 d1]
    by (auto simp: gone_def split: if_splits)
  from reconcile_mempool_loop [OF loop2] d1 have d2: "d2 = with_receipts ?rows2 db"
    and aff2: "affected acc2 = affected acc1 \<union> \<Union> (mempool_affects reports cutoff existing ` set receipts)" by auto
  from age_mempool_run [OF aging] d2 have d3: "d3 = with_receipts ?rows3 db"
    and aff3: "affected acc3 = affected acc2 \<union> rr_address_id ` {r \<in> set ?rows2. freshness_stale reports cutoff r}"
    by auto
  have uids: "distinct (map rr_receipt_uid (db_receipts db))" using led by (simp add: ledger_ok_def receipt_uids_ok_def)
  have "distinct (map fst existing)" unfolding existing_def by (rule btree_collect_distinct_keys)
  then have gone: "distinct (map fst gone)" by (simp add: gone_def distinct_map_filter)
  note F = revoke_uids_facts [OF gone uids, where now = now]
  have entry: "x \<in> set (db_receipts db) \<and> rr_receipt_uid x = k" if "(k, x) \<in> set existing" for k x
    using btree_collect_entry that unfolding existing_def by fastforce
  have revoked: "rr_address_id row \<in> affected acc1" if "row \<in> set (db_receipts db)" "rr_receipt_uid row \<in> set (map fst gone)" for row
  proof -
    from that(2) obtain x where x: "(rr_receipt_uid row, x) \<in> set gone" by auto
    then have "(rr_receipt_uid row, x) \<in> set existing" by (auto simp: gone_def split: if_splits)
    with entry key_unique [OF uids, of x row] that(1) have "x = row" by blast
    with x show ?thesis unfolding aff1 by force
  qed
  have total: "rows_total a ?rows3 = rows_total a (db_receipts db)" if a: "a \<notin> affected acc3" for a
  proof -
    have "rows_total a ?rows3 = rows_total a ?rows2"
      using a aff3 by (intro freshness.total_elsewhere) auto
    also have "\<dots> = rows_total a ?rows1"
    proof (rule mempool_rows_total [OF uids agree])
      show "x \<in> set (db_receipts db) \<and> rr_receipt_uid x = k" if "map_of existing k = Some x" for k x
        using entry [OF map_of_SomeD [OF that]] .
      show "rr_receipt_uid ` set ?rows1 = rr_receipt_uid ` set (db_receipts db)"
        unfolding F(1) by (rule revoke.key_image_update_where)
      show "\<exists>x \<in> set (db_receipts db). rr_receipt_uid row = rr_receipt_uid x
          \<and> rr_address_id row = rr_address_id x \<and> (rr_address_id row = a \<longrightarrow> row = x)" if "row \<in> set ?rows1" for row
      proof -
        from revoke_stored [OF that [unfolded F(1)]] obtain x where x: "x \<in> set (db_receipts db)"
          "rr_receipt_uid row = rr_receipt_uid x" "rr_address_id row = rr_address_id x"
          "rr_receipt_uid row \<notin> set (map fst gone) \<longrightarrow> row = x" by blast
        have "row = x" if "rr_address_id row = a"
        proof -
          have "a \<notin> affected acc1" using a aff3 aff2 by blast
          then have "rr_receipt_uid row \<notin> set (map fst gone)"
            using revoked [OF x(1)] x(2,3) that by metis
          then show ?thesis using x(4) by blast
        qed
        with x show ?thesis by blast
      qed
      show "a \<notin> mempool_affects reports cutoff existing r" if "r \<in> set receipts" for r
        using a aff3 aff2 that by auto
    qed
    also have "\<dots> = rows_total a (db_receipts db)"
      using revoked a aff3 aff2 by (intro F(3)) blast
    finally show ?thesis .
  qed
  have "distinct (map rr_receipt_uid ?rows3)"
    unfolding freshness.keys_update_where by (rule mempool.distinct_fold_put) (rule F(2))
  from ledger_finish [OF led this total rec [unfolded d3]] show ?thesis by simp
qed

section \<open>What each operation leaves behind\<close>

text \<open>A stored row says exactly what a scanned receipt says.\<close>

definition row_of :: "attributed_receipt \<Rightarrow> receipt_row \<Rightarrow> bool" where
  "row_of r row \<longleftrightarrow> rr_receipt_uid row = sr_receipt_uid r \<and> rr_address_id row = sr_address_id r
     \<and> rr_txid row = sr_txid_hex r \<and> rr_value_zat row = sr_value_zat r
     \<and> rr_mined_height row = sr_mined_height r \<and> rr_confirmation_depth row = sr_confirmation_depth r
     \<and> rr_eligible_for_webhook row = sr_eligible_for_webhook r
     \<and> rr_receipt_kind row = sr_receipt_kind r \<and> is_active row"

lemma observed_in_put:
  "row \<in> set (observing.put r rows) \<Longrightarrow>
   row \<in> set rows \<and> rr_receipt_uid row \<noteq> sr_receipt_uid r \<or> row_of r row"
  by (cases "sr_receipt_uid r \<in> rr_receipt_uid ` set rows")
    (auto simp: put_receipt_def set_update_where row_of_def is_active_def intro: rev_image_eqI)

lemma observed_put: "\<exists>row \<in> set (observing.put r rows). row_of r row"
proof (cases "sr_receipt_uid r \<in> rr_receipt_uid ` set rows")
  case True
  then obtain x where x: "x \<in> set rows" "rr_receipt_uid x = sr_receipt_uid r" by auto
  then have "merge_scanned (receipt_of_scan r) x \<in> set (observing.put r rows)"
    using True by (simp add: put_receipt_def set_update_where)
  moreover have "row_of r (merge_scanned (receipt_of_scan r) x)"
    using x(2) by (simp add: row_of_def is_active_def)
  ultimately show ?thesis by blast
next
  case False
  then show ?thesis by (simp add: put_receipt_def row_of_def is_active_def)
qed

lemma observed_in_fold:
  "row \<in> set (fold observing.put rs rows) \<Longrightarrow>
   row \<in> set rows \<and> rr_receipt_uid row \<notin> sr_receipt_uid ` set rs \<or> (\<exists>r \<in> set rs. row_of r row)"
proof (induction rs arbitrary: rows)
  case Nil
  then show ?case by simp
next
  case (Cons r rs)
  from Cons.IH [of "observing.put r rows"] Cons.prems observed_in_put [of row r rows] show ?case by auto
qed

lemma put_other:
  "row \<in> set rows \<Longrightarrow> rr_receipt_uid row \<noteq> sr_receipt_uid r \<Longrightarrow> row \<in> set (observing.put r rows)"
  by (simp add: put_receipt_def set_update_where)

lemma observed_fold:
  "distinct (map sr_receipt_uid rs) \<Longrightarrow> r \<in> set rs \<Longrightarrow>
   \<exists>row \<in> set (fold observing.put rs rows). row_of r row"
proof (induction rs arbitrary: rows)
  case Nil
  then show ?case by simp
next
  case (Cons q rs)
  have kept: "row \<in> set rows \<Longrightarrow> rr_receipt_uid row \<notin> sr_receipt_uid ` set qs \<Longrightarrow>
      row \<in> set (fold observing.put qs rows)" for row rows qs
    by (induction qs arbitrary: rows) (simp_all add: put_other)
  show ?case
  proof (cases "r = q")
    case True
    from observed_put [of q rows] obtain row where "row \<in> set (observing.put q rows)" "row_of q row" by blast
    moreover from this Cons.prems(1) have "rr_receipt_uid row \<notin> sr_receipt_uid ` set rs"
      by (simp add: row_of_def)
    ultimately show ?thesis using kept True by fastforce
  next
    case False
    with Cons.prems Cons.IH [of "observing.put q rows"] show ?thesis by simp
  qed
qed

text \<open>The runs of the operations, without the totals.\<close>

lemma recompute_keeps_receipts:
  "recompute_address_totals ids tip fin now reason since db = (Inr x, db') \<Longrightarrow> db_receipts db' = db_receipts db"
proof -
  have one: "recompute_address c tip now reason since a u d = (Inr v, d') \<Longrightarrow> db_receipts d' = db_receipts d"
    for c a u d v d' by (auto elim!: recompute_address_Inr)
  have "for_each (recompute_address c tip now reason since) as u d = (Inr v, d') \<Longrightarrow> db_receipts d' = db_receipts d"
    for c as u d v d'
    by (induction as arbitrary: u d) (auto simp: andThen_Inr dest: one)
  then show "recompute_address_totals ids tip fin now reason since db = (Inr x, db') \<Longrightarrow> db_receipts db' = db_receipts db"
    by (simp add: recompute_address_totals_def)
qed

lemma reconcile_run:
  assumes "reconcile_attributed_receipts_in_range receipts lo hi tip fin now db = (Inr rc, db')"
  defines "scanned \<equiv> btree_collect sr_receipt_uid receipts"
  shows "db_receipts db' = fold observing.put (map snd scanned)
     (revoke_uids now (map fst (filter (unscanned scanned) (existing_in_range lo hi db))) (db_receipts db))"
proof -
  from assms(1) obtain acc1 d1 acc2 d2 where
      loop1: "for_each (revoke_unscanned now scanned) (existing_in_range lo hi db) (no_reconciliation, []) db = (Inr acc1, d1)"
    and loop2: "for_each (reconcile_scanned (existing_in_range lo hi db)) (map snd scanned) acc1 d1 = (Inr acc2, d2)"
    and rec: "recompute_address_totals (rc_affected_address_ids (fst acc2)) tip fin now ''reorg_reconcile'' (snd acc2) d2 = (Inr (), db')"
    by (auto simp: reconcile_attributed_receipts_in_range_def Let_def in_tx_Inr andThen_Inr scanned_def split: prod.splits)
  from revoke_unscanned_loop [OF loop1] reconcile_scanned_loop [OF loop2] recompute_keeps_receipts [OF rec]
  show ?thesis by simp
qed

lemma reconcile_matches:
  assumes uids: "receipt_uids_ok db" and scan: "distinct (map sr_receipt_uid receipts)"
    and run: "reconcile_attributed_receipts_in_range receipts lo hi tip fin now db = (Inr rc, db')"
  shows "r \<in> set receipts \<Longrightarrow> \<exists>row \<in> set (db_receipts db'). row_of r row"
    and "row \<in> set (db_receipts db') \<Longrightarrow> rr_receipt_kind row = Mined \<Longrightarrow> is_active row \<Longrightarrow> in_range lo hi row \<Longrightarrow>
         \<exists>r \<in> set receipts. row_of r row"
proof -
  define scanned where "scanned = btree_collect sr_receipt_uid receipts"
  define existing where "existing = existing_in_range lo hi db"
  let ?gone = "map fst (filter (unscanned scanned) existing)"
  let ?rows1 = "revoke_uids now ?gone (db_receipts db)"
  note rows = reconcile_run [OF run, folded scanned_def existing_def]
  have scanned: "set (map snd scanned) = set receipts"
    unfolding scanned_def by (rule btree_collect_values [OF scan])
  have keys: "distinct (map sr_receipt_uid (map snd scanned))"
    unfolding scanned_def btree_collect_keys by (rule btree_collect_distinct_keys)
  show "\<exists>row \<in> set (db_receipts db'). row_of r row" if "r \<in> set receipts"
    using that scanned unfolding rows by (intro observed_fold [OF keys]) simp
  show "\<exists>r \<in> set receipts. row_of r row" if row: "row \<in> set (db_receipts db')" "rr_receipt_kind row = Mined"
    "is_active row" "in_range lo hi row"
  proof -
    from observed_in_fold [OF row(1) [unfolded rows]] scanned
    consider "row \<in> set ?rows1" "rr_receipt_uid row \<notin> sr_receipt_uid ` set receipts"
      | "\<exists>r \<in> set receipts. row_of r row" by auto
    then show ?thesis
    proof cases
      case 1
      have dist: "distinct (map rr_receipt_uid (db_receipts db))" using uids by (simp add: receipt_uids_ok_def)
      have gone: "distinct ?gone" unfolding existing_def existing_in_range_def Let_def
        by (rule distinct_map_filter) (rule btree_collect_distinct_keys)
      from 1(1) obtain x where x: "x \<in> set (db_receipts db)"
        "row = (if rr_receipt_uid x \<in> set ?gone then revoke_row now x else x)"
        unfolding revoke_uids_facts(1) [OF gone dist] by (rule in_update_where)
      have kept: "rr_receipt_uid x \<notin> set ?gone"
      proof
        assume "rr_receipt_uid x \<in> set ?gone"
        with x(2) have "row = revoke_row now x" by (simp only: if_True)
        with row(3) show False by (simp add: is_active_def revoke_row_def)
      qed
      with x(2) have "row = x" by (simp only: if_False)
      with x(1) have stored: "row \<in> set (db_receipts db)" by simp
      have "(rr_receipt_uid row, row) \<in> set existing"
        unfolding existing_def existing_in_range_def Let_def
        using stored row(4) dist by (subst btree_collect_distinct) (auto simp: distinct_map_filter)
      moreover have "unscanned scanned (rr_receipt_uid row, row)"
        using row(2,3) 1(2) by (simp add: unscanned_def scanned_def btree_collect_None)
      ultimately have "rr_receipt_uid row \<in> set ?gone" by force
      with kept show ?thesis unfolding \<open>row = x\<close> by contradiction
    qed
  qed
qed


lemma advance_run:
  assumes "advance_receipt_maturity tip reports fin now db = (Inr ids, db')"
  shows "db_receipts db' = update_where (depth_stale tip (int reports)) (refresh_depth tip (int reports)) (db_receipts db)"
proof -
  let ?stale = "depth_stale tip (int reports)"
  have "update_where p f rows = rows" if "filter p rows = []" for p rows and f :: "receipt_row \<Rightarrow> receipt_row"
    using that by (auto simp: update_where_def filter_empty_conv intro!: map_idI)
  moreover have "filter ?stale (db_receipts db) = []"
    if "bset_of (map rr_address_id (filter ?stale (db_receipts db))) = []"
    using that set_bset_of [of "map rr_address_id (filter ?stale (db_receipts db))"] by simp
  ultimately show ?thesis using assms
    by (auto simp: advance_receipt_maturity_def Let_def in_tx_Inr andThen_Inr
        dest!: recompute_keeps_receipts split: if_splits)
qed

lemma advance_matures:
  assumes "advance_receipt_maturity tip reports fin now db = (Inr ids, db')"
    and "row \<in> set (db_receipts db')"
  shows "\<not> depth_stale tip (int reports) row"
proof -
  from assms(2) [unfolded advance_run [OF assms(1)]] obtain x where
    "row = (if depth_stale tip (int reports) x then refresh_depth tip (int reports) x else x)"
    by (rule in_update_where)
  moreover have "\<not> depth_stale tip (int reports) (refresh_depth tip (int reports) x)"
    by (simp add: depth_stale_def refresh_depth_def)
  ultimately show ?thesis by (cases "depth_stale tip (int reports) x") simp_all
qed

lemma above_tip_run:
  assumes "revoke_mined_receipts_above_tip tip fin now db = (Inr rc, db')" "receipt_uids_ok db"
  shows "db_receipts db' = update_where (above_tip tip) (revoke_row now) (db_receipts db)"
proof -
  let ?above = "sort_key (\<lambda>r. (rr_mined_height r, rr_receipt_uid r)) (filter (above_tip tip) (db_receipts db))"
  from assms(1) obtain acc d where loop: "for_each (revoke_above now) ?above (no_reconciliation, []) db = (Inr acc, d)"
    and rest: "db_receipts db' = db_receipts d"
    by (auto simp: revoke_mined_receipts_above_tip_def Let_def in_tx_Inr andThen_Inr
        dest!: recompute_keeps_receipts split: prod.splits if_splits)
  have uids: "distinct (map rr_receipt_uid (db_receipts db))" using assms(2) by (simp add: receipt_uids_ok_def)
  then have above: "distinct (map rr_receipt_uid ?above)" by (auto simp: distinct_map inj_on_def)
  from revoke_above_loop [OF loop] rest
  have "db_receipts db' = revoke_uids now (map rr_receipt_uid ?above) (db_receipts db)" by simp
  also have "\<dots> = update_where (\<lambda>r. rr_receipt_uid r \<in> set (map rr_receipt_uid ?above)) (revoke_row now) (db_receipts db)"
    by (rule revoke_uids_facts(1) [OF above uids])
  also have "\<dots> = update_where (above_tip tip) (revoke_row now) (db_receipts db)"
    using key_unique [OF uids] by (auto simp: update_where_def)
  finally show ?thesis .
qed

lemma above_tip_revoked:
  assumes "revoke_mined_receipts_above_tip tip fin now db = (Inr rc, db')" "receipt_uids_ok db"
    and "row \<in> set (db_receipts db')"
  shows "\<not> above_tip tip row"
proof -
  from assms(3) [unfolded above_tip_run [OF assms(1,2)]] obtain x where
    "row = (if above_tip tip x then revoke_row now x else x)" by (rule in_update_where)
  then show ?thesis
    by (cases "above_tip tip x") (simp_all add: above_tip_def is_active_def revoke_row_def)
qed

text \<open>The mempool rows after a snapshot that revokes what is missing.\<close>

lemma mempool_in_put:
  "row \<in> set (mempool.put reports cutoff now existing r rows) \<Longrightarrow>
   row \<in> set rows \<and> rr_receipt_uid row \<noteq> sr_receipt_uid r \<or> rr_receipt_uid row = sr_receipt_uid r"
  by (cases "sr_receipt_uid r \<in> rr_receipt_uid ` set rows")
    (auto simp: put_receipt_def set_update_where mempool_of_scan_def)

lemma mempool_in_fold:
  "row \<in> set (fold (mempool.put reports cutoff now existing) rs rows) \<Longrightarrow>
   row \<in> set rows \<or> rr_receipt_uid row \<in> sr_receipt_uid ` set rs"
proof (induction rs arbitrary: rows)
  case Nil
  then show ?case by simp
next
  case (Cons r rs)
  from Cons.IH Cons.prems mempool_in_put [of row reports cutoff now existing r rows] show ?case by auto
qed

lemma mempool_run:
  assumes "reconcile_mempool_snapshot ext txids receipts now tip fin reports revoke_missing db = (Inr rc, db')"
  defines "existing \<equiv> btree_collect rr_receipt_uid (filter (\<lambda>r. rr_receipt_kind r = Mempool) (db_receipts db))"
  obtains cutoff where "ext_day_before ext now = Inr cutoff"
    "db_receipts db' = update_where (freshness_stale reports cutoff) (refresh_freshness reports cutoff now)
       (fold (mempool.put reports cutoff now existing) receipts
         (revoke_uids now (if revoke_missing then map fst (filter (missing txids) existing) else []) (db_receipts db)))"
proof -
  from assms(1) obtain cutoff acc1 d1 acc2 d2 acc3 d3 where ext: "Inr cutoff = ext_day_before ext now"
    and loop1: "(if revoke_missing then for_each (revoke_missing_receipt now txids) existing (no_reconciliation, [])
               else ret (no_reconciliation, [])) db = (Inr acc1, d1)"
    and loop2: "for_each (reconcile_mempool_receipt reports cutoff now existing) receipts acc1 d1 = (Inr acc2, d2)"
    and aging: "age_mempool_receipts reports cutoff now acc2 d2 = (Inr acc3, d3)"
    and rec: "recompute_address_totals (rc_affected_address_ids (fst acc3)) tip fin now ''mempool_reconcile'' (snd acc3) d3 = (Inr (), db')"
    unfolding existing_def
    by (auto simp: reconcile_mempool_snapshot_def Let_def in_tx_Inr andThen_Inr split: prod.splits)
  have "d1 = with_receipts (revoke_uids now (if revoke_missing then map fst (filter (missing txids) existing) else [])
          (db_receipts db)) db"
    using loop1 revoke_missing_loop [of now txids existing "(no_reconciliation, [])" db acc1 d1]
    by (auto split: if_splits)
  with ext reconcile_mempool_loop [OF loop2] age_mempool_run [OF aging] recompute_keeps_receipts [OF rec]
  show thesis by (intro that [of cutoff]) simp_all
qed

lemma mempool_rows_seen:
  assumes "reconcile_mempool_snapshot ext txids receipts now tip fin reports True db = (Inr rc, db')"
    and uids: "receipt_uids_ok db"
    and row: "row \<in> set (db_receipts db')" "rr_receipt_kind row = Mempool" "is_active row"
  shows "rr_txid row \<in> set txids \<or> rr_receipt_uid row \<in> sr_receipt_uid ` set receipts"
proof -
  define existing where "existing = btree_collect rr_receipt_uid (filter (\<lambda>r. rr_receipt_kind r = Mempool) (db_receipts db))"
  let ?gone = "map fst (filter (missing txids) existing)"
  from mempool_run [OF assms(1)] obtain cutoff where
    rows: "db_receipts db' = update_where (freshness_stale reports cutoff) (refresh_freshness reports cutoff now)
       (fold (mempool.put reports cutoff now existing) receipts (revoke_uids now ?gone (db_receipts db)))"
    unfolding existing_def by auto
  from row(1) [unfolded rows] obtain y where
    y: "y \<in> set (fold (mempool.put reports cutoff now existing) receipts (revoke_uids now ?gone (db_receipts db)))"
    "row = (if freshness_stale reports cutoff y then refresh_freshness reports cutoff now y else y)"
    by (rule in_update_where)
  have fields: "rr_receipt_uid row = rr_receipt_uid y" "rr_txid row = rr_txid y"
    "rr_receipt_kind row = rr_receipt_kind y" "is_active row = is_active y"
    using y(2) by (auto simp: refresh_freshness_def Let_def is_active_def)
  have dist: "distinct (map rr_receipt_uid (db_receipts db))" using uids by (simp add: receipt_uids_ok_def)
  have gone: "distinct ?gone" unfolding existing_def by (rule distinct_map_filter) (rule btree_collect_distinct_keys)
  show ?thesis
  proof (cases "y \<in> set (revoke_uids now ?gone (db_receipts db))")
    case False
    with mempool_in_fold [OF y(1)] fields show ?thesis by simp
  next
    case True
    then obtain x where x: "x \<in> set (db_receipts db)"
      "y = (if rr_receipt_uid x \<in> set ?gone then revoke_row now x else x)"
      unfolding revoke_uids_facts(1) [OF gone dist] by (rule in_update_where)
    have "rr_receipt_uid x \<notin> set ?gone"
      using x(2) row(3) fields(4) by (auto simp: is_active_def revoke_row_def simp del: set_map split: if_splits)
    moreover from this x(2) have "y = x" by (simp only: if_False)
    ultimately have "y = x" and kept: "rr_receipt_uid x \<notin> set ?gone" by blast+
    have "(rr_receipt_uid x, x) \<in> set existing"
      unfolding existing_def using x(1) row(2) fields(3) \<open>y = x\<close> dist
      by (subst btree_collect_distinct) (auto simp: distinct_map_filter)
    with kept have "\<not> missing txids (rr_receipt_uid x, x)" by force
    then show ?thesis using row(3) fields \<open>y = x\<close> by (simp add: missing_def)
  qed
qed

end
