(* ===== verification/Db_Addresses.thy ===== *)
theory Db_Addresses
  imports Receipt_Ledger
begin

text \<open>
  Issued addresses, their receivers and the public payment links: the operations of
  \<^verbatim>\<open>src/db.rs\<close> on \<^verbatim>\<open>issued_addresses\<close>, \<^verbatim>\<open>address_receivers\<close> and \<^verbatim>\<open>payment_links\<close>, with the
  \<^verbatim>\<open>UNIQUE\<close>, \<^verbatim>\<open>CHECK\<close> and \<^verbatim>\<open>REFERENCES\<close> constraints of the schema.
\<close>

section \<open>Results\<close>

record issued_address_record =
  ir_address_id :: int
  ir_unified_address :: string
  ir_address_source :: string
  ir_created_at :: string
  ir_request_label :: "string option"
  ir_request_memo :: "string option"
  ir_request_message :: "string option"
  ir_requested_amount :: "string option"

record payment_link_record =
  lr_payment_id :: string
  lr_unified_address :: string
  lr_request_label :: "string option"
  lr_request_memo :: "string option"
  lr_request_message :: "string option"
  lr_requested_amount :: "string option"
  lr_return_url :: "string option"
  lr_created_at :: string
  lr_current_total_zat :: int
  lr_state_version :: int
  lr_received_by_confirmations_zat :: "int list option"

definition record_of_row :: "issued_address_row \<Rightarrow> issued_address_record" where
  "record_of_row r = \<lparr>ir_address_id = ia_address_id r, ir_unified_address = ia_unified_address r,
     ir_address_source = ia_address_source r, ir_created_at = ia_created_at r,
     ir_request_label = ia_request_label r, ir_request_memo = ia_request_memo r,
     ir_request_message = ia_request_message r, ir_requested_amount = ia_requested_amount r\<rparr>"

section \<open>Statements\<close>

definition issued_row :: "int \<Rightarrow> string \<Rightarrow> new_issued_address \<Rightarrow> issued_address_row" where
  "issued_row address_id created_at n =
     \<lparr>ia_address_id = address_id, ia_unified_address = na_unified_address n,
      ia_address_source = na_address_source n, ia_diversifier_index_be = na_diversifier_index_be n,
      ia_diversifier_bytes = na_diversifier_bytes n, ia_created_at = created_at,
      ia_request_label = na_request_label n, ia_request_memo = na_request_memo n,
      ia_request_message = na_request_message n, ia_requested_amount = na_requested_amount n\<rparr>"

text \<open>\<^verbatim>\<open>INSERT INTO issued_addresses\<close> and \<^verbatim>\<open>last_insert_rowid()\<close>.\<close>

definition insert_issued_row :: "string \<Rightarrow> new_issued_address \<Rightarrow> int db_op" where
  "insert_issued_row created_at n db =
     (if \<not> address_source_allowed (na_address_source n) then (Inl (constraint ''CHECK''), db)
      else if na_unified_address n \<in> set (map ia_unified_address (db_issued_addresses db))
      then (Inl (constraint ''UNIQUE''), db)
      else (let i = next_rowid (map ia_address_id (db_issued_addresses db))
            in (Inr i, db\<lparr>db_issued_addresses := db_issued_addresses db @ [issued_row i created_at n]\<rparr>)))"

text \<open>\<^verbatim>\<open>INSERT INTO address_totals (address_id, dirty_state, last_changed_at) VALUES (?1, 'clean', ?2)\<close>.\<close>

definition clean_totals :: "int \<Rightarrow> string \<Rightarrow> totals_row" where
  "clean_totals address_id created_at =
     \<lparr>at_address_id = address_id, at_finalized_through_height = 0, at_finalized_total_zat = 0,
      at_recent_total_zat = 0, at_current_total_zat = 0, at_last_computed_tip_height = 0,
      at_dirty_state = Clean, at_dirty_reason = None, at_dirty_since_height = None,
      at_state_version = 0, at_last_changed_at = created_at, at_last_notified_total_zat = 0,
      at_last_notified_event_id = None, at_last_notified_at = None,
      at_received_by_confirmations = None, at_last_notified_by_confirmations = None\<rparr>"

definition insert_totals_row :: "int \<Rightarrow> string \<Rightarrow> unit db_op" where
  "insert_totals_row address_id created_at db =
     (if address_id \<in> set (map at_address_id (db_totals db)) then (Inl (constraint ''PRIMARY KEY''), db)
      else if \<not> address_exists db address_id then (Inl (constraint ''FOREIGN KEY''), db)
      else (Inr (), db\<lparr>db_totals := db_totals db @ [clean_totals address_id created_at]\<rparr>))"

definition receiver_conflict :: "receiver_row \<Rightarrow> receiver_row \<Rightarrow> bool" where
  "receiver_conflict r s \<longleftrightarrow> rv_pool r = rv_pool s \<and>
     (rv_address_id r = rv_address_id s \<or> rv_receiver_encoding r = rv_receiver_encoding s
      \<or> rv_receiver_fingerprint r = rv_receiver_fingerprint s)"

definition insert_receiver_row :: "receiver_row \<Rightarrow> unit \<Rightarrow> unit db_op" where
  "insert_receiver_row row _ db =
     (if \<not> pool_allowed (rv_pool row) then (Inl (constraint ''CHECK''), db)
      else if \<not> address_exists db (rv_address_id row) then (Inl (constraint ''FOREIGN KEY''), db)
      else if list_ex (receiver_conflict row) (db_receivers db) then (Inl (constraint ''UNIQUE''), db)
      else (Inr (), db\<lparr>db_receivers := db_receivers db
              @ [row\<lparr>rv_receiver_id := next_rowid (map rv_receiver_id (db_receivers db))\<rparr>]\<rparr>))"

definition receiver_of :: "int \<Rightarrow> string \<Rightarrow> new_receiver \<Rightarrow> receiver_row" where
  "receiver_of address_id created_at n =
     \<lparr>rv_receiver_id = 0, rv_address_id = address_id, rv_pool = nr_pool n,
      rv_receiver_encoding = nr_receiver_encoding n, rv_receiver_fingerprint = nr_receiver_fingerprint n,
      rv_is_active = True, rv_created_at = created_at\<rparr>"

section \<open>Operations\<close>

definition find_issued_address :: "string \<Rightarrow> app_db \<Rightarrow> issued_address_record option" where
  "find_issued_address address db =
     map_option record_of_row (find_key ia_unified_address address (db_issued_addresses db))"

text \<open>Two statements, each committed on its own.\<close>

definition insert_issued_address :: "new_issued_address \<Rightarrow> string \<Rightarrow> issued_address_record db_op" where
  "insert_issued_address n created_at =
     andThen (insert_issued_row created_at n) (\<lambda>address_id.
     andThen (insert_totals_row address_id created_at) (\<lambda>_.
     andThen (reads (find_issued_address (na_unified_address n))) (\<lambda>found.
       case found of
         Some r \<Rightarrow> ret r
       | None \<Rightarrow> raise (InvalidConfig ''failed to reload inserted issued address''))))"

definition insert_address_receivers :: "int \<Rightarrow> new_receiver list \<Rightarrow> string \<Rightarrow> unit db_op" where
  "insert_address_receivers address_id receivers created_at =
     in_tx (for_each insert_receiver_row (map (receiver_of address_id created_at) receivers) ())"

text \<open>\<^verbatim>\<open>WHERE diversifier_index_be IS NOT NULL ORDER BY address_id DESC LIMIT 1\<close>.\<close>

definition latest_diversifier_index_be :: "app_db \<Rightarrow> byte list option" where
  "latest_diversifier_index_be db =
     Option.bind (last_by ia_address_id (filter (\<lambda>r. ia_diversifier_index_be r \<noteq> None) (db_issued_addresses db)))
       ia_diversifier_index_be"

definition allocate_fresh_address ::
  "(byte list option \<Rightarrow> fresh_allocation result) \<Rightarrow> string \<Rightarrow> issued_address_record db_op" where
  "allocate_fresh_address prepare created_at =
     in_tx (
       andThen (reads latest_diversifier_index_be) (\<lambda>last_index.
       andThen (lift_result (prepare last_index)) (\<lambda>allocation.
       andThen (insert_issued_row created_at (fa_issued_address allocation)) (\<lambda>address_id.
       andThen (insert_totals_row address_id created_at) (\<lambda>_.
       andThen (for_each insert_receiver_row (map (receiver_of address_id created_at) (fa_receivers allocation)) ()) (\<lambda>_.
       ret (record_of_row (issued_row address_id created_at (fa_issued_address allocation)))))))))"

definition address_total_zat :: "int \<Rightarrow> app_db \<Rightarrow> int option" where
  "address_total_zat a db = map_option at_current_total_zat (find_key at_address_id a (db_totals db))"

definition insert_payment_link :: "string \<Rightarrow> int \<Rightarrow> string option \<Rightarrow> string \<Rightarrow> unit db_op" where
  "insert_payment_link payment_id address_id return_url created_at db =
     (if payment_id \<in> set (map pl_payment_id (db_payment_links db)) then (Inl (constraint ''PRIMARY KEY''), db)
      else if address_id \<in> set (map pl_address_id (db_payment_links db)) then (Inl (constraint ''UNIQUE''), db)
      else if \<not> address_exists db address_id then (Inl (constraint ''FOREIGN KEY''), db)
      else (Inr (), db\<lparr>db_payment_links := db_payment_links db @
              [\<lparr>pl_payment_id = payment_id, pl_address_id = address_id,
                pl_return_url = return_url, pl_created_at = created_at\<rparr>]\<rparr>))"

definition link_record ::
  "externals \<Rightarrow> payment_link_row \<Rightarrow> issued_address_row \<Rightarrow> totals_row \<Rightarrow> payment_link_record" where
  "link_record ext p i t =
     \<lparr>lr_payment_id = pl_payment_id p, lr_unified_address = ia_unified_address i,
      lr_request_label = ia_request_label i, lr_request_memo = ia_request_memo i,
      lr_request_message = ia_request_message i, lr_requested_amount = ia_requested_amount i,
      lr_return_url = pl_return_url p, lr_created_at = pl_created_at p,
      lr_current_total_zat = at_current_total_zat t, lr_state_version = at_state_version t,
      lr_received_by_confirmations_zat = decode_zat_array ext (at_received_by_confirmations t)\<rparr>"

text \<open>The query with its two inner joins.\<close>

definition find_payment_link :: "externals \<Rightarrow> string \<Rightarrow> app_db \<Rightarrow> payment_link_record option" where
  "find_payment_link ext payment_id db =
     Option.bind (find_key pl_payment_id payment_id (db_payment_links db)) (\<lambda>p.
     Option.bind (find_key ia_address_id (pl_address_id p) (db_issued_addresses db)) (\<lambda>i.
     Option.bind (find_key at_address_id (pl_address_id p) (db_totals db)) (\<lambda>t.
     Some (link_record ext p i t))))"

definition find_address_id_by_receiver_fingerprint :: "string \<Rightarrow> byte list \<Rightarrow> app_db \<Rightarrow> int option" where
  "find_address_id_by_receiver_fingerprint pool fp db =
     map_option rv_address_id
       (find (\<lambda>r. rv_pool r = pool \<and> rv_receiver_fingerprint r = fp \<and> rv_is_active r) (db_receivers db))"

text \<open>
  \<^verbatim>\<open>copy_orchard_receivers_to_ironwood\<close>: one statement, so a conflict inserts nothing.
\<close>

definition ironwood_copy :: "receiver_row \<Rightarrow> receiver_row" where
  "ironwood_copy r = r\<lparr>rv_receiver_id := 0, rv_pool := ''ironwood''\<rparr>"

definition lacks_ironwood :: "app_db \<Rightarrow> receiver_row \<Rightarrow> bool" where
  "lacks_ironwood db r \<longleftrightarrow> rv_pool r = ''orchard''
     \<and> \<not> list_ex (\<lambda>i. rv_address_id i = rv_address_id r \<and> rv_pool i = ''ironwood'') (db_receivers db)"

definition copy_orchard_receivers_to_ironwood :: "unit db_op" where
  "copy_orchard_receivers_to_ironwood = in_tx (\<lambda>db.
     for_each insert_receiver_row (map ironwood_copy (filter (lacks_ironwood db) (db_receivers db))) () db)"

section \<open>The address tables\<close>

text \<open>
  Keys and references of the address tables: ids and unified addresses are unique, every
  address has exactly one row of totals (inserted with it, so in the same order), receivers
  are unique per pool, and every reference is to an issued address.
\<close>

definition receivers_unique :: "receiver_row list \<Rightarrow> bool" where
  "receivers_unique rows \<longleftrightarrow>
     distinct (map (\<lambda>r. (rv_pool r, rv_address_id r)) rows)
     \<and> distinct (map (\<lambda>r. (rv_pool r, rv_receiver_encoding r)) rows)
     \<and> distinct (map (\<lambda>r. (rv_pool r, rv_receiver_fingerprint r)) rows)"

definition addresses_ok :: "app_db \<Rightarrow> bool" where
  "addresses_ok db \<longleftrightarrow>
     distinct (map ia_address_id (db_issued_addresses db))
     \<and> distinct (map ia_unified_address (db_issued_addresses db))
     \<and> map at_address_id (db_totals db) = map ia_address_id (db_issued_addresses db)
     \<and> receivers_unique (db_receivers db)
     \<and> distinct (map pl_payment_id (db_payment_links db))
     \<and> distinct (map pl_address_id (db_payment_links db))
     \<and> list_all (address_exists db) (map rv_address_id (db_receivers db) @ map pl_address_id (db_payment_links db))"

lemma addresses_ok_totals_keys: "addresses_ok db \<Longrightarrow> totals_keys_ok db"
  by (simp add: addresses_ok_def totals_keys_ok_def)

lemma receivers_unique_snoc:
  "receivers_unique (rows @ [r\<lparr>rv_receiver_id := i\<rparr>]) \<longleftrightarrow>
     receivers_unique rows \<and> \<not> list_ex (receiver_conflict r) rows"
  by (auto simp: receivers_unique_def receiver_conflict_def list_ex_iff image_iff; metis)

text \<open>Inserting a list of receivers appends them, numbered.\<close>

definition numbered :: "receiver_row \<Rightarrow> receiver_row \<Rightarrow> bool" where
  "numbered r n \<longleftrightarrow> (\<exists>i. n = r\<lparr>rv_receiver_id := i\<rparr>)"

definition add_receivers :: "receiver_row list \<Rightarrow> app_db \<Rightarrow> app_db" where
  "add_receivers rows db = db\<lparr>db_receivers := db_receivers db @ rows\<rparr>"

lemma insert_receiver_row_Inr:
  "insert_receiver_row r u db = (Inr x, d) \<Longrightarrow>
   \<exists>n. d = add_receivers [n] db \<and> numbered r n \<and> pool_allowed (rv_pool r)
       \<and> address_exists db (rv_address_id r) \<and> \<not> list_ex (receiver_conflict r) (db_receivers db)"
  by (auto simp: insert_receiver_row_def add_receivers_def numbered_def split: if_splits)

lemma add_receivers_simps [simp]:
  "db_receivers (add_receivers rows db) = db_receivers db @ rows"
  "add_receivers rows' (add_receivers rows db) = add_receivers (rows @ rows') db"
  "add_receivers [] db = db"
  "db_issued_addresses (add_receivers rows db) = db_issued_addresses db"
  "db_totals (add_receivers rows db) = db_totals db"
  "db_payment_links (add_receivers rows db) = db_payment_links db"
  "address_exists (add_receivers rows db) a = address_exists db a"
  by (simp_all add: add_receivers_def address_exists_def)

lemma insert_receivers_loop:
  "for_each insert_receiver_row rows u db = (Inr x, d) \<Longrightarrow> receivers_unique (db_receivers db) \<Longrightarrow>
   \<exists>new. d = add_receivers new db \<and> list_all2 numbered rows new \<and> receivers_unique (db_receivers db @ new)
      \<and> list_all (\<lambda>r. address_exists db (rv_address_id r)) rows"
proof (induction rows arbitrary: u db)
  case Nil
  then show ?case by simp
next
  case (Cons r rows)
  then obtain v d1 where 1: "insert_receiver_row r u db = (Inr v, d1)"
    and 2: "for_each insert_receiver_row rows v d1 = (Inr x, d)" by (auto simp: andThen_Inr)
  from insert_receiver_row_Inr [OF 1] obtain n where n: "d1 = add_receivers [n] db" "numbered r n"
    "address_exists db (rv_address_id r)" "\<not> list_ex (receiver_conflict r) (db_receivers db)" by blast
  then have "receivers_unique (db_receivers d1)"
    using Cons.prems(2) by (auto simp: numbered_def receivers_unique_snoc)
  from Cons.IH [OF 2 this] obtain new where new: "d = add_receivers new d1" "list_all2 numbered rows new"
    "receivers_unique (db_receivers d1 @ new)" "list_all (\<lambda>r. address_exists d1 (rv_address_id r)) rows" by blast
  with n show ?case by (intro exI [of _ "n # new"]) (auto simp: list_all_iff)
qed

lemma numbered_fields:
  "list_all2 numbered rows new \<Longrightarrow>
   map rv_address_id new = map rv_address_id rows \<and> map rv_pool new = map rv_pool rows
   \<and> map rv_receiver_fingerprint new = map rv_receiver_fingerprint rows
   \<and> map rv_is_active new = map rv_is_active rows"
  by (induction rule: list_all2_induct) (auto simp: numbered_def)

lemma add_receivers_ok:
  assumes "addresses_ok db" "list_all2 numbered rows new" "receivers_unique (db_receivers db @ new)"
    "list_all (\<lambda>r. address_exists db (rv_address_id r)) rows"
  shows "addresses_ok (add_receivers new db)"
proof -
  have "list_all (address_exists db) (map rv_address_id new)"
    using assms(4) numbered_fields [OF assms(2)] by (auto simp: list_all_iff)
  with assms(1,3) show ?thesis by (auto simp: addresses_ok_def list_all_iff)
qed

text \<open>The same for the other statements.\<close>

definition add_address :: "issued_address_row \<Rightarrow> totals_row \<Rightarrow> app_db \<Rightarrow> app_db" where
  "add_address row t db = db\<lparr>db_issued_addresses := db_issued_addresses db @ [row], db_totals := db_totals db @ [t]\<rparr>"

lemma add_address_simps [simp]:
  "db_issued_addresses (add_address row t db) = db_issued_addresses db @ [row]"
  "db_totals (add_address row t db) = db_totals db @ [t]"
  "db_receivers (add_address row t db) = db_receivers db"
  "db_payment_links (add_address row t db) = db_payment_links db"
  "db_receipts (add_address row t db) = db_receipts db"
  "db_deliveries (add_address row t db) = db_deliveries db"
  "db_attempts (add_address row t db) = db_attempts db"
  "address_exists (add_address row t db) a \<longleftrightarrow> address_exists db a \<or> a = ia_address_id row"
  by (auto simp: add_address_def address_exists_def)

lemma insert_address_rows:
  assumes "addresses_ok db" "insert_issued_row now n db = (Inr i, d1)" "insert_totals_row i now' d1 = (r, d2)"
  shows "r = Inr () \<and> d2 = add_address (issued_row i now n) (clean_totals i now') db \<and> \<not> address_exists db i
    \<and> na_unified_address n \<notin> set (map ia_unified_address (db_issued_addresses db)) \<and> addresses_ok d2"
proof -
  from assms(2) have i: "i = next_rowid (map ia_address_id (db_issued_addresses db))"
    and d1: "d1 = db\<lparr>db_issued_addresses := db_issued_addresses db @ [issued_row i now n]\<rparr>"
    and new: "na_unified_address n \<notin> set (map ia_unified_address (db_issued_addresses db))"
    by (auto simp: insert_issued_row_def Let_def split: if_splits)
  have fresh: "\<not> address_exists db i"
    unfolding i address_exists_def by (rule next_rowid_fresh)
  moreover have "set (map at_address_id (db_totals db)) = set (map ia_address_id (db_issued_addresses db))"
    using assms(1) unfolding addresses_ok_def by (elim conjE) (drule arg_cong [where f = set], assumption)
  ultimately have "i \<notin> set (map at_address_id (db_totals d1))" "address_exists d1 i"
    by (auto simp: d1 address_exists_def issued_row_def)
  with assms(3) have run: "r = Inr ()" "d2 = d1\<lparr>db_totals := db_totals d1 @ [clean_totals i now']\<rparr>"
    by (simp_all add: insert_totals_row_def del: set_map)
  then have d2: "d2 = add_address (issued_row i now n) (clean_totals i now') db"
    by (simp add: d1 add_address_def)
  moreover have "addresses_ok (add_address (issued_row i now n) (clean_totals i now') db)"
    using assms(1) fresh new
    by (auto simp: addresses_ok_def address_exists_def issued_row_def clean_totals_def list_all_iff)
  ultimately show ?thesis using run(1) fresh new by simp
qed


section \<open>What the operations establish\<close>

lemma find_issued_snoc:
  assumes "na_unified_address n \<notin> set (map ia_unified_address (db_issued_addresses db))"
  shows "find_issued_address (na_unified_address n) (add_address (issued_row i now n) t db)
     = Some (record_of_row (issued_row i now n))"
proof -
  have "find_key ia_unified_address (na_unified_address n) (db_issued_addresses db) = None"
    using assms by (simp add: find_key_None)
  then show ?thesis
    by (simp add: find_issued_address_def find_key_append) (simp add: find_key_def issued_row_def)
qed

lemma insert_issued_run:
  assumes "addresses_ok db" "insert_issued_address n now db = (r, db')"
  shows "(\<exists>e. r = Inl e \<and> db' = db) \<or>
    (\<exists>i. r = Inr (record_of_row (issued_row i now n)) \<and> \<not> address_exists db i
       \<and> db' = add_address (issued_row i now n) (clean_totals i now) db \<and> addresses_ok db')"
proof (cases "insert_issued_row now n db")
  case (Pair q d)
  show ?thesis
  proof (cases q)
    case (Inl e)
    then have "d = db" using Pair by (auto simp: insert_issued_row_def Let_def split: if_splits)
    with Inl Pair assms(2) show ?thesis by (auto simp: insert_issued_address_def andThen_def)
  next
    case (Inr i)
    obtain r2 d2 where 2: "insert_totals_row i now d = (r2, d2)" by (cases "insert_totals_row i now d")
    note F = insert_address_rows [OF assms(1) Pair [unfolded Inr] 2]
    have "find_issued_address (na_unified_address n) d2 = Some (record_of_row (issued_row i now n))"
      using F by (simp add: find_issued_snoc)
    then have "r = Inr (record_of_row (issued_row i now n)) \<and> db' = d2"
      using assms(2) Pair Inr 2 F by (simp add: insert_issued_address_def andThen_def reads_def)
    with F show ?thesis by blast
  qed
qed

lemma allocate_run:
  assumes "addresses_ok db" "allocate_fresh_address prepare now db = (Inr rec, db')"
  obtains alloc i new where "prepare (latest_diversifier_index_be db) = Inr alloc"
    "rec = record_of_row (issued_row i now (fa_issued_address alloc))" "\<not> address_exists db i"
    "na_unified_address (fa_issued_address alloc) \<notin> set (map ia_unified_address (db_issued_addresses db))"
    "list_all2 numbered (map (receiver_of i now) (fa_receivers alloc)) new"
    "db' = add_receivers new (add_address (issued_row i now (fa_issued_address alloc)) (clean_totals i now) db)"
    "addresses_ok db'"
proof -
  from assms(2) obtain alloc i d1 d2 where prep: "Inr alloc = prepare (latest_diversifier_index_be db)"
    and 1: "insert_issued_row now (fa_issued_address alloc) db = (Inr i, d1)"
    and 2: "insert_totals_row i now d1 = (Inr (), d2)"
    and 3: "for_each insert_receiver_row (map (receiver_of i now) (fa_receivers alloc)) () d2 = (Inr (), db')"
    and rec: "rec = record_of_row (issued_row i now (fa_issued_address alloc))"
    by (auto simp: allocate_fresh_address_def in_tx_Inr andThen_Inr)
  note F = insert_address_rows [OF assms(1) 1 2]
  from F have "addresses_ok d2" by blast
  then have "receivers_unique (db_receivers d2)" by (simp add: addresses_ok_def)
  from insert_receivers_loop [OF 3 this] obtain new where new: "db' = add_receivers new d2"
    "list_all2 numbered (map (receiver_of i now) (fa_receivers alloc)) new"
    "receivers_unique (db_receivers d2 @ new)"
    "list_all (\<lambda>r. address_exists d2 (rv_address_id r)) (map (receiver_of i now) (fa_receivers alloc))" by blast
  from F have "addresses_ok d2" by blast
  from add_receivers_ok [OF this new(2-4)] new(1) have "addresses_ok db'" by simp
  with F new prep rec that show thesis by metis
qed

lemma fingerprint_unique:
  "receivers_unique rows \<Longrightarrow> r \<in> set rows \<Longrightarrow> r' \<in> set rows \<Longrightarrow> rv_pool r = rv_pool r' \<Longrightarrow>
   rv_receiver_fingerprint r = rv_receiver_fingerprint r' \<Longrightarrow> r = r'"
  using key_unique [of "\<lambda>r. (rv_pool r, rv_receiver_fingerprint r)" rows r r']
  by (simp add: receivers_unique_def)

text \<open>With unique receivers, the lookup by fingerprint is exactly the stored attribution.\<close>

lemma find_by_fingerprint:
  assumes "receivers_unique (db_receivers db)" "r \<in> set (db_receivers db)" "rv_is_active r"
  shows "find_address_id_by_receiver_fingerprint (rv_pool r) (rv_receiver_fingerprint r) db = Some (rv_address_id r)"
proof -
  let ?P = "\<lambda>s. rv_pool s = rv_pool r \<and> rv_receiver_fingerprint s = rv_receiver_fingerprint r \<and> rv_is_active s"
  obtain s where s: "find ?P (db_receivers db) = Some s"
    using assms(2,3) by (cases "find ?P (db_receivers db)") (auto simp: find_None_iff)
  then have "s \<in> set (db_receivers db)" "?P s" by (auto simp: find_Some_iff)
  with fingerprint_unique [OF assms(1), of s r] assms(2) have "s = r" by simp
  with s show ?thesis by (simp add: find_address_id_by_receiver_fingerprint_def)
qed

lemma find_by_fingerprint_Some:
  assumes "find_address_id_by_receiver_fingerprint pool fp db = Some a"
  obtains r where "r \<in> set (db_receivers db)" "rv_pool r = pool" "rv_receiver_fingerprint r = fp"
    "rv_is_active r" "rv_address_id r = a"
proof -
  from assms obtain r where "find (\<lambda>r. rv_pool r = pool \<and> rv_receiver_fingerprint r = fp \<and> rv_is_active r) (db_receivers db) = Some r"
    and a: "rv_address_id r = a"
    by (auto simp: find_address_id_by_receiver_fingerprint_def)
  from find_SomeD [OF this(1)] a that show thesis by blast
qed

lemma allocate_attributes:
  assumes ok: "addresses_ok db" and run: "allocate_fresh_address prepare now db = (Inr rec, db')"
  shows "prepare (latest_diversifier_index_be db) = Inr alloc \<Longrightarrow> n \<in> set (fa_receivers alloc) \<Longrightarrow>
           find_address_id_by_receiver_fingerprint (nr_pool n) (nr_receiver_fingerprint n) db' = Some (ir_address_id rec)"
    and "find_address_id_by_receiver_fingerprint pool fp db = Some a \<Longrightarrow>
           find_address_id_by_receiver_fingerprint pool fp db' = Some a"
proof -
  from allocate_run [OF ok run] obtain alloc' i new where prep: "prepare (latest_diversifier_index_be db) = Inr alloc'"
    and rec: "rec = record_of_row (issued_row i now (fa_issued_address alloc'))"
    and new: "list_all2 numbered (map (receiver_of i now) (fa_receivers alloc')) new"
    and db': "db' = add_receivers new (add_address (issued_row i now (fa_issued_address alloc')) (clean_totals i now) db)"
    and ok': "addresses_ok db'" by metis
  have uniq: "receivers_unique (db_receivers db')" using ok' by (simp add: addresses_ok_def)
  show "find_address_id_by_receiver_fingerprint (nr_pool n) (nr_receiver_fingerprint n) db' = Some (ir_address_id rec)"
    if "prepare (latest_diversifier_index_be db) = Inr alloc" "n \<in> set (fa_receivers alloc)"
  proof -
    from that prep have "receiver_of i now n \<in> set (map (receiver_of i now) (fa_receivers alloc'))" by simp
    with new obtain m where m: "m \<in> set new" "numbered (receiver_of i now n) m"
      by (metis list_all2_conv_all_nth in_set_conv_nth)
    then have "m \<in> set (db_receivers db')" "rv_is_active m" "rv_pool m = nr_pool n"
      "rv_receiver_fingerprint m = nr_receiver_fingerprint n" "rv_address_id m = ir_address_id rec"
      by (auto simp: db' numbered_def receiver_of_def rec record_of_row_def issued_row_def)
    with find_by_fingerprint [OF uniq] show ?thesis by metis
  qed
  show "find_address_id_by_receiver_fingerprint pool fp db' = Some a"
    if "find_address_id_by_receiver_fingerprint pool fp db = Some a"
  proof -
    from that obtain r where r: "r \<in> set (db_receivers db)" "rv_pool r = pool" "rv_receiver_fingerprint r = fp"
      "rv_is_active r" "rv_address_id r = a" by (rule find_by_fingerprint_Some)
    then have "r \<in> set (db_receivers db')" by (simp add: db')
    with find_by_fingerprint [OF uniq this] r show ?thesis by simp
  qed
qed

lemma payment_link_found:
  assumes "addresses_ok db" "insert_payment_link pid a url now db = (Inr (), db')"
  obtains i t where "i \<in> set (db_issued_addresses db)" "ia_address_id i = a" "t \<in> set (db_totals db)" "at_address_id t = a"
    "find_payment_link ext pid db' =
       Some (link_record ext \<lparr>pl_payment_id = pid, pl_address_id = a, pl_return_url = url, pl_created_at = now\<rparr> i t)"
    "addresses_ok db'"
proof -
  let ?p = "\<lparr>pl_payment_id = pid, pl_address_id = a, pl_return_url = url, pl_created_at = now\<rparr>"
  from assms(2) have db': "db' = db\<lparr>db_payment_links := db_payment_links db @ [?p]\<rparr>"
    and new: "pid \<notin> set (map pl_payment_id (db_payment_links db))" "a \<notin> set (map pl_address_id (db_payment_links db))"
      "address_exists db a"
    by (auto simp: insert_payment_link_def split: if_splits)
  have sets: "at_address_id ` set (db_totals db) = ia_address_id ` set (db_issued_addresses db)"
    using assms(1) unfolding addresses_ok_def by (metis set_map)
  from new(3) obtain i where i: "find_key ia_address_id a (db_issued_addresses db) = Some i"
    by (cases "find_key ia_address_id a (db_issued_addresses db)") (auto simp: find_key_None address_exists_def)
  from new(3) sets obtain t where t: "find_key at_address_id a (db_totals db) = Some t"
    by (cases "find_key at_address_id a (db_totals db)") (auto simp: find_key_None address_exists_def)
  have "find_key pl_payment_id pid (db_payment_links db) = None" using new(1) by (simp add: find_key_None)
  then have "find_key pl_payment_id pid (db_payment_links db @ [?p]) = Some ?p"
    by (simp add: find_key_append) (simp add: find_key_def)
  with i t have "find_payment_link ext pid db' = Some (link_record ext ?p i t)"
    by (simp add: find_payment_link_def db')
  moreover have "addresses_ok db'"
    using assms(1) new by (auto simp: addresses_ok_def db' address_exists_def list_all_iff)
  ultimately show thesis using that find_key_Some [OF i] find_key_Some [OF t] by blast
qed


lemma numbered_from:
  "list_all2 numbered (map f rs) new \<Longrightarrow> n \<in> set new \<Longrightarrow> \<exists>r \<in> set rs. numbered (f r) n"
  by (metis in_set_conv_nth length_map list_all2_conv_all_nth nth_map)

lemma ironwood_run:
  assumes "addresses_ok db" "copy_orchard_receivers_to_ironwood db = (Inr u, db')"
  obtains new where "db' = add_receivers new db"
    "list_all2 numbered (map ironwood_copy (filter (lacks_ironwood db) (db_receivers db))) new" "addresses_ok db'"
proof -
  have run: "for_each insert_receiver_row (map ironwood_copy (filter (lacks_ironwood db) (db_receivers db))) () db = (Inr u, db')"
    using assms(2) by (simp add: copy_orchard_receivers_to_ironwood_def in_tx_Inr)
  have "receivers_unique (db_receivers db)" using assms(1) by (simp add: addresses_ok_def)
  from insert_receivers_loop [OF run this] add_receivers_ok [OF assms(1)] that show thesis by blast
qed

lemma ironwood_complete:
  assumes "addresses_ok db" "copy_orchard_receivers_to_ironwood db = (Inr u, db')" "r \<in> set (db_receivers db')"
  shows "\<not> lacks_ironwood db' r"
proof -
  from ironwood_run [OF assms(1,2)] obtain new where new: "db' = add_receivers new db"
    "list_all2 numbered (map ironwood_copy (filter (lacks_ironwood db) (db_receivers db))) new" by metis
  note fields = numbered_fields [OF new(2)]
  have iron: "rv_pool n = ''ironwood''" if "n \<in> set new" for n
    using numbered_from [OF new(2) that] by (auto simp: numbered_def ironwood_copy_def)
  show ?thesis
  proof (cases "r \<in> set new")
    case True
    with iron show ?thesis by (simp add: lacks_ironwood_def)
  next
    case False
    then have old: "r \<in> set (db_receivers db)" using assms(3) new(1) by simp
    show ?thesis
    proof (cases "lacks_ironwood db r")
      case True
      then have "rv_address_id r \<in> set (map rv_address_id new)"
        using fields old by (auto simp: ironwood_copy_def image_iff intro!: bexI [of _ r])
      then obtain n where "n \<in> set new" "rv_address_id n = rv_address_id r" by auto
      with iron show ?thesis by (auto simp: lacks_ironwood_def new(1) list_ex_iff)
    next
      case False
      then show ?thesis by (auto simp: lacks_ironwood_def new(1) list_ex_iff)
    qed
  qed
qed

lemma ironwood_idempotent:
  assumes "addresses_ok db" "copy_orchard_receivers_to_ironwood db = (Inr u, db')"
  shows "copy_orchard_receivers_to_ironwood db' = (Inr (), db')"
proof -
  have "filter (lacks_ironwood db') (db_receivers db') = []"
    using ironwood_complete [OF assms] by (simp add: filter_empty_conv)
  then show ?thesis by (simp add: copy_orchard_receivers_to_ironwood_def in_tx_def ret_def)
qed

lemma ironwood_attributes:
  assumes "addresses_ok db" "copy_orchard_receivers_to_ironwood db = (Inr u, db')"
    and "r \<in> set (db_receivers db)" "lacks_ironwood db r" "rv_is_active r"
  shows "find_address_id_by_receiver_fingerprint ''ironwood'' (rv_receiver_fingerprint r) db' = Some (rv_address_id r)"
proof -
  from ironwood_run [OF assms(1,2)] obtain new where new: "db' = add_receivers new db"
    "list_all2 numbered (map ironwood_copy (filter (lacks_ironwood db) (db_receivers db))) new"
    and ok: "addresses_ok db'" by metis
  have "ironwood_copy r \<in> set (map ironwood_copy (filter (lacks_ironwood db) (db_receivers db)))" using assms by simp
  with new(2) obtain n where n: "n \<in> set new" "numbered (ironwood_copy r) n"
    by (metis list_all2_conv_all_nth in_set_conv_nth)
  then have "n \<in> set (db_receivers db')" "rv_is_active n" "rv_pool n = ''ironwood''"
    "rv_receiver_fingerprint n = rv_receiver_fingerprint r" "rv_address_id n = rv_address_id r"
    using assms(5) by (auto simp: new numbered_def ironwood_copy_def)
  moreover have "receivers_unique (db_receivers db')" using ok by (simp add: addresses_ok_def)
  ultimately show ?thesis using find_by_fingerprint by metis
qed

end
