(* ===== verification/Env_Config.thy ===== *)
theory Env_Config
  imports App_Error
begin

text \<open>
  The configuration (\<^verbatim>\<open>src/config.rs\<close>, \<^verbatim>\<open>src/constants.rs\<close>): reading the environment with its
  defaults and checks, the checks on URLs, and the normalised origin a return URL is compared
  by. The URI parser of the \<^verbatim>\<open>http\<close> crate is a parameter.
\<close>

section \<open>Constants\<close>

definition APP_SCHEMA_VERSION :: int where "APP_SCHEMA_VERSION = 2"
definition WEBHOOK_REPORT_CONFIRMATIONS :: nat where "WEBHOOK_REPORT_CONFIRMATIONS = 0"
definition FINALITY_CONFIRMATIONS :: nat where "FINALITY_CONFIRMATIONS = 100"
definition DEFAULT_CATCH_UP_THRESHOLD_BLOCKS :: nat where "DEFAULT_CATCH_UP_THRESHOLD_BLOCKS = 1"
definition DEFAULT_CATCH_UP_BATCH_SIZE :: nat where "DEFAULT_CATCH_UP_BATCH_SIZE = 100"
definition DEFAULT_SYNC_POLL_INTERVAL_SECONDS :: nat where "DEFAULT_SYNC_POLL_INTERVAL_SECONDS = 5"
definition DEFAULT_WEBHOOK_POLL_INTERVAL_SECONDS :: nat where "DEFAULT_WEBHOOK_POLL_INTERVAL_SECONDS = 2"
definition DEFAULT_WEBHOOK_RETRY_DELAY_SECONDS :: nat where "DEFAULT_WEBHOOK_RETRY_DELAY_SECONDS = 30"
definition DEFAULT_WEBHOOK_RETRY_MAX_DELAY_SECONDS :: nat where "DEFAULT_WEBHOOK_RETRY_MAX_DELAY_SECONDS = 300"
definition DEFAULT_WEBHOOK_MAX_ATTEMPTS :: nat where "DEFAULT_WEBHOOK_MAX_ATTEMPTS = 8"
definition MAX_REQUIRED_CONFIRMATIONS :: nat where "MAX_REQUIRED_CONFIRMATIONS = 100"

lemmas config_constants = APP_SCHEMA_VERSION_def WEBHOOK_REPORT_CONFIRMATIONS_def FINALITY_CONFIRMATIONS_def
  DEFAULT_CATCH_UP_THRESHOLD_BLOCKS_def DEFAULT_CATCH_UP_BATCH_SIZE_def DEFAULT_SYNC_POLL_INTERVAL_SECONDS_def
  DEFAULT_WEBHOOK_POLL_INTERVAL_SECONDS_def DEFAULT_WEBHOOK_RETRY_DELAY_SECONDS_def
  DEFAULT_WEBHOOK_RETRY_MAX_DELAY_SECONDS_def DEFAULT_WEBHOOK_MAX_ATTEMPTS_def MAX_REQUIRED_CONFIRMATIONS_def

section \<open>Data\<close>

record config =
  listen_addr :: string
  network :: string
  startup_uivk :: "string option"
  lightwalletd_url :: "string option"
  birthday_height :: "nat option"
  wallet_db_path :: string
  app_db_path :: string
  log_dir :: string
  catch_up_threshold_blocks :: nat
  catch_up_batch_size :: nat
  scan_parallelism :: nat
  sync_poll_interval_seconds :: nat
  webhook_url :: "string option"
  webhook_secret :: "string option"
  webhook_poll_interval_seconds :: nat
  webhook_retry_delay_seconds :: nat
  webhook_retry_max_delay_seconds :: nat
  webhook_max_attempts :: nat
  webhook_report_confirmations :: nat
  finality_confirmations :: nat
  required_confirmations :: "nat option"
  public_base_url :: "string option"
  dev_simulated_payments :: bool
  return_url_allowed_origins :: "string list"

text \<open>
  What the code reads of a parsed \<^verbatim>\<open>http::Uri\<close>, and the parser: the error is its text.
\<close>

record authority =
  au_text :: string
  au_host :: string
  au_port :: "nat option"

record uri =
  uri_scheme :: "string option"
  uri_authority :: "authority option"
  uri_path :: string
  uri_query :: "string option"

type_synonym uri_parser = "string \<Rightarrow> string + uri"

text \<open>The environment: a variable is absent, UTF-8 text, or bytes that are not UTF-8.\<close>

datatype env_value = Utf8 string | NotUnicode string

type_synonym environment = "string \<Rightarrow> env_value option"

definition env_var :: "environment \<Rightarrow> string \<Rightarrow> string option" where
  "env_var env name = (case env name of Some (Utf8 s) \<Rightarrow> Some s | _ \<Rightarrow> None)"

definition env_var_os :: "environment \<Rightarrow> string \<Rightarrow> string option" where
  "env_var_os env name = (case env name of None \<Rightarrow> None | Some (Utf8 s) \<Rightarrow> Some s | Some (NotUnicode s) \<Rightarrow> Some s)"

text \<open>\<^verbatim>\<open>.ok().map(|v| v.trim().to_string()).filter(|v| !v.is_empty())\<close>.\<close>

definition trimmed_var :: "environment \<Rightarrow> string \<Rightarrow> string option" where
  "trimmed_var env name =
     (case env_var env name of None \<Rightarrow> None | Some v \<Rightarrow> if trim v = [] then None else Some (trim v))"

section \<open>Paths\<close>

text \<open>\<^verbatim>\<open>Path::join\<close> with a relative path, and the components \<^verbatim>\<open>Path\<close> equality compares.\<close>

definition path_join :: "string \<Rightarrow> string \<Rightarrow> string" where
  "path_join p q =
     (if q \<noteq> [] \<and> hd q = CHR ''/'' then q
      else if p = [] \<or> last p = CHR ''/'' then p @ q else p @ CHR ''/'' # q)"

definition path_components :: "string \<Rightarrow> bool \<times> string list" where
  "path_components p =
     (let parts = split_char (CHR ''/'') p;
          kept = filter (\<lambda>c. c \<noteq> [] \<and> c \<noteq> ''.'') parts
      in (p \<noteq> [] \<and> hd p = CHR ''/'', if hd parts = ''.'' then ''.'' # kept else kept))"

definition same_path :: "string \<Rightarrow> string \<Rightarrow> bool" where
  "same_path p q \<longleftrightarrow> path_components p = path_components q"

section \<open>URLs\<close>

text \<open>\<^verbatim>\<open>map_err\<close>.\<close>

definition map_error :: "('e \<Rightarrow> 'f) \<Rightarrow> 'e + 'a \<Rightarrow> 'f + 'a" where
  "map_error f r = (case r of Inl e \<Rightarrow> Inl (f e) | Inr x \<Rightarrow> Inr x)"

definition validate_http_url :: "uri_parser \<Rightarrow> string \<Rightarrow> string \<Rightarrow> string + unit" where
  "validate_http_url parse name value =
     (case parse value of
        Inl err \<Rightarrow> Inl (name @ '' must be a valid absolute http(s) URL; got '' @ value @ '': '' @ err)
      | Inr u \<Rightarrow>
          (case uri_scheme u of
             None \<Rightarrow> Inl (name @ '' must be an absolute http(s) URL; got '' @ value)
           | Some scheme \<Rightarrow>
               if scheme \<noteq> ''http'' \<and> scheme \<noteq> ''https''
               then Inl (name @ '' must use http or https; got '' @ value)
               else if uri_authority u = None then Inl (name @ '' must include a host; got '' @ value)
               else Inr ()))"

definition validate_webhook_url :: "uri_parser \<Rightarrow> string \<Rightarrow> unit result" where
  "validate_webhook_url parse value =
     map_error InvalidConfig (validate_http_url parse ''ZCASH_WEBHOOK_URL'' value)"

definition validate_public_base_url :: "uri_parser \<Rightarrow> string \<Rightarrow> string + unit" where
  "validate_public_base_url parse value =
     bind_result (validate_http_url parse ''PUBLIC_BASE_URL'' value) (\<lambda>_.
       if CHR ''?'' \<in> set value \<or> CHR ''#'' \<in> set value
       then Inl (''PUBLIC_BASE_URL must not include a query or fragment; got '' @ value) else Inr ())"

definition url_origin :: "uri \<Rightarrow> string + string" where
  "url_origin u =
     (case uri_authority u of
        None \<Rightarrow> Inl ''URL must include a host''
      | Some a \<Rightarrow>
          if CHR ''@'' \<in> set (au_text a) then Inl ''URL must not include user info''
          else let scheme = to_ascii_lowercase (case uri_scheme u of None \<Rightarrow> [] | Some s \<Rightarrow> s);
                   host = to_ascii_lowercase (au_host a)
               in case au_port a of
                    None \<Rightarrow> Inr (scheme @ ''://'' @ host)
                  | Some port \<Rightarrow>
                      if (scheme = ''http'' \<and> port = 80) \<or> (scheme = ''https'' \<and> port = 443)
                      then Inr (scheme @ ''://'' @ host)
                      else Inr (scheme @ ''://'' @ host @ '':'' @ show_nat port))"

text \<open>One entry of the list; an entry that fails ends the parsing.\<close>

definition allowed_origin :: "uri_parser \<Rightarrow> string \<Rightarrow> string + string" where
  "allowed_origin parse entry =
     (let item = trim_end_char (CHR ''/'') entry in
      bind_result (validate_http_url parse ''RETURN_URL_ALLOWED_ORIGINS'' item) (\<lambda>_.
      bind_result (parse item) (\<lambda>u.
        if (uri_path u \<noteq> ''/'' \<and> uri_path u \<noteq> []) \<or> uri_query u \<noteq> None
        then Inl (''RETURN_URL_ALLOWED_ORIGINS entries must be origins without a path; got '' @ item)
        else url_origin u)))"

definition parse_allowed_origins :: "uri_parser \<Rightarrow> string \<Rightarrow> string + string list" where
  "parse_allowed_origins parse value =
     map_result (allowed_origin parse)
       (filter (\<lambda>i. i \<noteq> []) (map trim (split_char (CHR '','') value)))"

definition validate_return_url :: "uri_parser \<Rightarrow> string \<Rightarrow> string list \<Rightarrow> string + unit" where
  "validate_return_url parse value allowed =
     bind_result (validate_http_url parse ''return_url'' value) (\<lambda>_.
     bind_result (map_error (\<lambda>e. ''return_url is invalid: '' @ e) (parse value)) (\<lambda>u.
     bind_result (map_error (\<lambda>e. ''return_url: '' @ e) (url_origin u)) (\<lambda>origin.
       if allowed \<noteq> [] \<and> origin \<notin> set allowed
       then Inl (''return_url origin '' @ origin @ '' is not in RETURN_URL_ALLOWED_ORIGINS'')
       else Inr ())))"

section \<open>Settings\<close>

definition validate_required_confirmations :: "nat option \<Rightarrow> nat \<Rightarrow> nat \<Rightarrow> string + unit" where
  "validate_required_confirmations required report finality =
     (case required of
        None \<Rightarrow> Inr ()
      | Some r \<Rightarrow>
          if report \<noteq> 0
          then Inl ''REQUIRED_CONFIRMATIONS needs WEBHOOK_REPORT_CONFIRMATIONS=0, because received_by_confirmations[0] includes mempool receipts''
          else if MAX_REQUIRED_CONFIRMATIONS < r
          then Inl (''REQUIRED_CONFIRMATIONS must be at most '' @ show_nat MAX_REQUIRED_CONFIRMATIONS)
          else if finality < r
          then Inl ''REQUIRED_CONFIRMATIONS must not exceed FINALITY_CONFIRMATIONS''
          else Inr ())"

definition validate_dev_simulated_payments :: "string \<Rightarrow> string option \<Rightarrow> string + unit" where
  "validate_dev_simulated_payments net lightwalletd =
     (if net \<noteq> ''testnet''
      then Inl ''ZCASH_DEV_SIMULATED_PAYMENTS is only allowed with ZCASH_NETWORK=testnet''
      else if lightwalletd \<noteq> None
      then Inl ''ZCASH_DEV_SIMULATED_PAYMENTS cannot be combined with LIGHTWALLETD_URL''
      else Inr ())"

definition parse_scan_parallelism :: "string option \<Rightarrow> nat \<Rightarrow> nat result" where
  "parse_scan_parallelism value dflt =
     (case value of
        None \<Rightarrow> Inr dflt
      | Some v \<Rightarrow>
          (case parse_unsigned u64_max (trim v) of
             None \<Rightarrow> Inl (InvalidConfig ''SCAN_PARALLELISM must be a positive integer'')
           | Some 0 \<Rightarrow> Inl (InvalidConfig ''SCAN_PARALLELISM must be greater than zero'')
           | Some n \<Rightarrow> Inr n))"

text \<open>\<^verbatim>\<open>.ok().map(|v| v.parse().map_err(..)).transpose()?\<close>, then the default, then the zero check.\<close>

definition number_setting :: "environment \<Rightarrow> nat \<Rightarrow> string \<Rightarrow> string \<Rightarrow> nat option result" where
  "number_setting env mx name kind =
     (case env_var env name of
        None \<Rightarrow> Inr None
      | Some v \<Rightarrow>
          (case parse_unsigned mx v of
             None \<Rightarrow> Inl (InvalidConfig (name @ '' must be a '' @ kind @ '' integer''))
           | Some n \<Rightarrow> Inr (Some n)))"

definition or_default :: "nat \<Rightarrow> nat option result \<Rightarrow> nat result" where
  "or_default d r = bind_result r (\<lambda>v. Inr (case v of None \<Rightarrow> d | Some n \<Rightarrow> n))"

definition positive_setting :: "environment \<Rightarrow> nat \<Rightarrow> string \<Rightarrow> nat \<Rightarrow> nat result" where
  "positive_setting env mx name d =
     bind_result (or_default d (number_setting env mx name ''positive'')) (\<lambda>n.
       if n = 0 then Inl (InvalidConfig (name @ '' must be greater than zero'')) else Inr n)"

definition simulated_setting :: "environment \<Rightarrow> bool result" where
  "simulated_setting env =
     (case map_option (\<lambda>v. to_ascii_lowercase (trim v)) (env_var env ''ZCASH_DEV_SIMULATED_PAYMENTS'') of
        None \<Rightarrow> Inr False
      | Some v \<Rightarrow>
          if v \<in> set ['''', ''false'', ''0''] then Inr False
          else if v \<in> set [''true'', ''1''] then Inr True
          else Inl (InvalidConfig (''ZCASH_DEV_SIMULATED_PAYMENTS must be 'true' or 'false'' @ [CHR 0x27])))"

definition required_setting :: "environment \<Rightarrow> nat option result" where
  "required_setting env =
     (case nonblank (env_var env ''REQUIRED_CONFIRMATIONS'') of
        None \<Rightarrow> Inr None
      | Some v \<Rightarrow>
          (case parse_unsigned u32_max (trim v) of
             None \<Rightarrow> Inl (InvalidConfig ''REQUIRED_CONFIRMATIONS must be a non-negative integer'')
           | Some n \<Rightarrow> Inr (Some n)))"

definition base_url_setting :: "environment \<Rightarrow> string option" where
  "base_url_setting env =
     (case env_var env ''PUBLIC_BASE_URL'' of
        None \<Rightarrow> None
      | Some v \<Rightarrow>
          (let u = trim_end_char (CHR ''/'') (trim v) in if u = [] then None else Some u))"

definition listen_addr_setting :: "environment \<Rightarrow> string" where
  "listen_addr_setting env =
     (case env_var env ''LISTEN_ADDR'' of
        Some a \<Rightarrow> a
      | None \<Rightarrow> (case env_var env ''PORT'' of Some p \<Rightarrow> ''0.0.0.0:'' @ p | None \<Rightarrow> ''0.0.0.0:8787''))"

definition path_setting :: "environment \<Rightarrow> string \<Rightarrow> string \<Rightarrow> string" where
  "path_setting env name dflt = (case env_var_os env name of Some p \<Rightarrow> p | None \<Rightarrow> dflt)"

definition check :: "bool \<Rightarrow> string \<Rightarrow> unit result" where
  "check b msg = (if b then Inr () else Inl (InvalidConfig msg))"

section \<open>Reading the environment\<close>

text \<open>\<open>parallelism\<close> is what \<^verbatim>\<open>std::thread::available_parallelism\<close> reports, or 1.\<close>

definition from_env :: "uri_parser \<Rightarrow> nat \<Rightarrow> environment \<Rightarrow> config result" where
  "from_env parse parallelism env =
     (let data_dir = path_setting env ''APP_DATA_DIR'' ''data/zcash-payment'';
          app_db = path_setting env ''APP_DB_PATH'' (path_join data_dir ''app.db'');
          wallet_db = path_setting env ''WALLET_DB_PATH'' (path_join data_dir ''wallet.db'');
          logs = path_setting env ''LOG_DIR'' (path_join data_dir ''logs'');
          net = (case env_var env ''ZCASH_NETWORK'' of Some n \<Rightarrow> n | None \<Rightarrow> ''testnet'');
          lwd = trimmed_var env ''LIGHTWALLETD_URL'';
          hook = trimmed_var env ''ZCASH_WEBHOOK_URL'';
          base = base_url_setting env
      in bind_result (check (\<not> same_path app_db wallet_db)
           ''APP_DB_PATH and WALLET_DB_PATH must point to different files'') (\<lambda>_.
         bind_result (check (net = ''testnet'' \<or> net = ''mainnet'')
           (''ZCASH_NETWORK must be 'testnet' or 'mainnet'' @ [CHR 0x27])) (\<lambda>_.
         bind_result (case hook of None \<Rightarrow> Inr () | Some u \<Rightarrow> validate_webhook_url parse u) (\<lambda>_.
         bind_result (case base of None \<Rightarrow> Inr () | Some u \<Rightarrow> map_error InvalidConfig (validate_public_base_url parse u)) (\<lambda>_.
         bind_result (simulated_setting env) (\<lambda>simulated.
         bind_result (map_error InvalidConfig (case env_var env ''RETURN_URL_ALLOWED_ORIGINS'' of
             None \<Rightarrow> Inr [] | Some v \<Rightarrow> parse_allowed_origins parse v)) (\<lambda>origins.
         bind_result (number_setting env u32_max ''ZCASH_BIRTHDAY_HEIGHT'' ''positive'') (\<lambda>birthday.
         bind_result (or_default DEFAULT_CATCH_UP_THRESHOLD_BLOCKS
           (number_setting env u32_max ''CATCH_UP_THRESHOLD_BLOCKS'' ''non-negative'')) (\<lambda>threshold.
         bind_result (positive_setting env u32_max ''CATCH_UP_BATCH_SIZE'' DEFAULT_CATCH_UP_BATCH_SIZE) (\<lambda>batch.
         bind_result (parse_scan_parallelism (env_var env ''SCAN_PARALLELISM'') parallelism) (\<lambda>parallel.
         bind_result (positive_setting env u64_max ''SYNC_POLL_INTERVAL_SECONDS'' DEFAULT_SYNC_POLL_INTERVAL_SECONDS) (\<lambda>sync_poll.
         bind_result (positive_setting env u64_max ''WEBHOOK_POLL_INTERVAL_SECONDS'' DEFAULT_WEBHOOK_POLL_INTERVAL_SECONDS) (\<lambda>hook_poll.
         bind_result (positive_setting env u64_max ''WEBHOOK_RETRY_DELAY_SECONDS'' DEFAULT_WEBHOOK_RETRY_DELAY_SECONDS) (\<lambda>delay.
         bind_result (positive_setting env u64_max ''WEBHOOK_RETRY_MAX_DELAY_SECONDS'' DEFAULT_WEBHOOK_RETRY_MAX_DELAY_SECONDS) (\<lambda>max_delay.
         bind_result (positive_setting env u32_max ''WEBHOOK_MAX_ATTEMPTS'' DEFAULT_WEBHOOK_MAX_ATTEMPTS) (\<lambda>attempts.
         bind_result (or_default WEBHOOK_REPORT_CONFIRMATIONS
           (number_setting env u32_max ''WEBHOOK_REPORT_CONFIRMATIONS'' ''non-negative'')) (\<lambda>report.
         bind_result (or_default FINALITY_CONFIRMATIONS
           (number_setting env u32_max ''FINALITY_CONFIRMATIONS'' ''non-negative'')) (\<lambda>finality.
         bind_result (required_setting env) (\<lambda>required.
         bind_result (map_error InvalidConfig (validate_required_confirmations required report finality)) (\<lambda>_.
         bind_result (if simulated then map_error InvalidConfig (validate_dev_simulated_payments net lwd) else Inr ()) (\<lambda>_.
         Inr \<lparr>listen_addr = listen_addr_setting env, network = net,
              startup_uivk = trimmed_var env ''ZCASH_UIVK'', lightwalletd_url = lwd,
              birthday_height = birthday, wallet_db_path = wallet_db, app_db_path = app_db, log_dir = logs,
              catch_up_threshold_blocks = threshold, catch_up_batch_size = batch, scan_parallelism = parallel,
              sync_poll_interval_seconds = sync_poll, webhook_url = hook,
              webhook_secret = trimmed_var env ''ZCASH_WEBHOOK_SECRET'',
              webhook_poll_interval_seconds = hook_poll, webhook_retry_delay_seconds = delay,
              webhook_retry_max_delay_seconds = max_delay, webhook_max_attempts = attempts,
              webhook_report_confirmations = report, finality_confirmations = finality,
              required_confirmations = required, public_base_url = base,
              dev_simulated_payments = simulated, return_url_allowed_origins = origins\<rparr>)))))))))))))))))))))"


section \<open>What the checks guarantee\<close>

lemma map_error_Inr [simp]: "map_error f r = Inr x \<longleftrightarrow> r = Inr x"
  by (auto simp: map_error_def split: sum.splits)

lemma map_error_Inl [simp]: "map_error f r = Inl e \<longleftrightarrow> (\<exists>d. r = Inl d \<and> e = f d)"
  by (auto simp: map_error_def split: sum.splits)

lemma check_Inr [simp]: "check b m = Inr u \<longleftrightarrow> b"
  by (simp add: check_def)

lemma check_Inl [simp]: "check b m = Inl e \<longleftrightarrow> \<not> b \<and> e = InvalidConfig m"
  by (auto simp: check_def)

lemma validate_http_url_Inr:
  "validate_http_url parse name v = Inr x \<longleftrightarrow>
     (\<exists>u s. parse v = Inr u \<and> uri_scheme u = Some s \<and> (s = ''http'' \<or> s = ''https'') \<and> uri_authority u \<noteq> None)"
  by (auto simp: validate_http_url_def split: sum.splits option.splits)

lemma number_setting_Inr: "number_setting env mx name kind = Inr (Some n) \<Longrightarrow> n \<le> mx"
  by (auto simp: number_setting_def dest: parse_unsigned_bound split: option.splits)

lemma or_default_Inr:
  "or_default d (number_setting env mx name kind) = Inr n \<Longrightarrow> d \<le> mx \<Longrightarrow> n \<le> mx"
  by (auto simp: or_default_def bind_result_Inr dest: number_setting_Inr split: option.splits)

lemma positive_setting_Inr:
  "positive_setting env mx name d = Inr n \<Longrightarrow> d \<le> mx \<Longrightarrow> 0 < n \<and> n \<le> mx"
  by (auto simp: positive_setting_def bind_result_Inr dest: or_default_Inr split: if_splits)

lemma required_setting_Inr: "required_setting env = Inr (Some n) \<Longrightarrow> n \<le> u32_max"
  by (auto simp: required_setting_def dest: parse_unsigned_bound split: option.splits)

lemma parallelism_Inr: "parse_scan_parallelism v d = Inr n \<Longrightarrow> 0 < d \<Longrightarrow> 0 < n"
  by (auto simp: parse_scan_parallelism_def split: option.splits nat.splits)

lemma validate_required_Inr:
  "validate_required_confirmations req report finality = Inr u \<longleftrightarrow>
     (case req of None \<Rightarrow> True | Some r \<Rightarrow> report = 0 \<and> r \<le> MAX_REQUIRED_CONFIRMATIONS \<and> r \<le> finality)"
  by (auto simp: validate_required_confirmations_def split: option.splits)

lemma validate_dev_Inr:
  "validate_dev_simulated_payments net lwd = Inr u \<longleftrightarrow> net = ''testnet'' \<and> lwd = None"
  by (simp add: validate_dev_simulated_payments_def)

text \<open>What the rest of the service relies on of its configuration.\<close>

definition config_ok :: "uri_parser \<Rightarrow> config \<Rightarrow> bool" where
  "config_ok parse c \<longleftrightarrow>
     network c \<in> {''testnet'', ''mainnet''} \<and> \<not> same_path (app_db_path c) (wallet_db_path c)
     \<and> 0 < catch_up_batch_size c \<and> catch_up_batch_size c \<le> u32_max \<and> 0 < scan_parallelism c
     \<and> 0 < sync_poll_interval_seconds c \<and> 0 < webhook_poll_interval_seconds c
     \<and> 0 < webhook_retry_delay_seconds c \<and> webhook_retry_delay_seconds c \<le> u64_max
     \<and> 0 < webhook_retry_max_delay_seconds c \<and> webhook_retry_max_delay_seconds c \<le> u64_max
     \<and> 0 < webhook_max_attempts c \<and> webhook_max_attempts c \<le> u32_max
     \<and> webhook_report_confirmations c \<le> u32_max \<and> finality_confirmations c \<le> u32_max
     \<and> catch_up_threshold_blocks c \<le> u32_max
     \<and> (case required_confirmations c of None \<Rightarrow> True
        | Some r \<Rightarrow> webhook_report_confirmations c = 0 \<and> r \<le> MAX_REQUIRED_CONFIRMATIONS \<and> r \<le> finality_confirmations c)
     \<and> (dev_simulated_payments c \<longrightarrow> network c = ''testnet'' \<and> lightwalletd_url c = None)
     \<and> (case webhook_url c of None \<Rightarrow> True | Some u \<Rightarrow> validate_webhook_url parse u = Inr ())
     \<and> (case public_base_url c of None \<Rightarrow> True | Some u \<Rightarrow> validate_public_base_url parse u = Inr () \<and> u \<noteq> [])"

lemma base_url_setting_nonempty: "base_url_setting env = Some u \<Longrightarrow> u \<noteq> []"
  by (auto simp: base_url_setting_def Let_def split: option.splits if_splits)

lemma from_env_fields:
  assumes "from_env parse parallelism env = Inr c"
  shows "network c = ''testnet'' \<or> network c = ''mainnet''"
    and "\<not> same_path (app_db_path c) (wallet_db_path c)"
    and "positive_setting env u32_max ''CATCH_UP_BATCH_SIZE'' DEFAULT_CATCH_UP_BATCH_SIZE = Inr (catch_up_batch_size c)"
    and "parse_scan_parallelism (env_var env ''SCAN_PARALLELISM'') parallelism = Inr (scan_parallelism c)"
    and "positive_setting env u64_max ''SYNC_POLL_INTERVAL_SECONDS'' DEFAULT_SYNC_POLL_INTERVAL_SECONDS
         = Inr (sync_poll_interval_seconds c)"
    and "positive_setting env u64_max ''WEBHOOK_POLL_INTERVAL_SECONDS'' DEFAULT_WEBHOOK_POLL_INTERVAL_SECONDS
         = Inr (webhook_poll_interval_seconds c)"
    and "positive_setting env u64_max ''WEBHOOK_RETRY_DELAY_SECONDS'' DEFAULT_WEBHOOK_RETRY_DELAY_SECONDS
         = Inr (webhook_retry_delay_seconds c)"
    and "positive_setting env u64_max ''WEBHOOK_RETRY_MAX_DELAY_SECONDS'' DEFAULT_WEBHOOK_RETRY_MAX_DELAY_SECONDS
         = Inr (webhook_retry_max_delay_seconds c)"
    and "positive_setting env u32_max ''WEBHOOK_MAX_ATTEMPTS'' DEFAULT_WEBHOOK_MAX_ATTEMPTS = Inr (webhook_max_attempts c)"
    and "or_default DEFAULT_CATCH_UP_THRESHOLD_BLOCKS
         (number_setting env u32_max ''CATCH_UP_THRESHOLD_BLOCKS'' ''non-negative'') = Inr (catch_up_threshold_blocks c)"
    and "or_default WEBHOOK_REPORT_CONFIRMATIONS
         (number_setting env u32_max ''WEBHOOK_REPORT_CONFIRMATIONS'' ''non-negative'') = Inr (webhook_report_confirmations c)"
    and "or_default FINALITY_CONFIRMATIONS
         (number_setting env u32_max ''FINALITY_CONFIRMATIONS'' ''non-negative'') = Inr (finality_confirmations c)"
    and "validate_required_confirmations (required_confirmations c) (webhook_report_confirmations c)
         (finality_confirmations c) = Inr ()"
    and "dev_simulated_payments c \<Longrightarrow> validate_dev_simulated_payments (network c) (lightwalletd_url c) = Inr ()"
    and "webhook_url c = Some u \<Longrightarrow> validate_webhook_url parse u = Inr ()"
    and "public_base_url c = Some u \<Longrightarrow> validate_public_base_url parse u = Inr () \<and> u \<noteq> []"
  using assms unfolding from_env_def Let_def bind_result_Inr
  by - ((elim exE conjE, drule Inr_inject, hypsubst,
      simp add: base_url_setting_nonempty split: if_splits)+)

lemma from_env_config_ok:
  assumes "from_env parse parallelism env = Inr c" "0 < parallelism"
  shows "config_ok parse c"
proof -
  note F = from_env_fields [OF assms(1)]
  show ?thesis
    unfolding config_ok_def
    using F(1,2,13-16) F(3,5-9) [THEN positive_setting_Inr] F(10-12) [THEN or_default_Inr]
      parallelism_Inr [OF F(4) assms(2)]
    by (auto simp: validate_required_Inr validate_dev_Inr config_constants split: option.splits)
qed


text \<open>Every error of the configuration is an \<^verbatim>\<open>InvalidConfig\<close>.\<close>

definition config_error :: "'a result \<Rightarrow> bool" where
  "config_error r \<longleftrightarrow> (case r of Inl e \<Rightarrow> (case e of InvalidConfig _ \<Rightarrow> True | _ \<Rightarrow> False) | Inr _ \<Rightarrow> True)"

lemma config_error_bind: "config_error r \<Longrightarrow> (\<And>x. config_error (f x)) \<Longrightarrow> config_error (bind_result r f)"
  by (cases r) (auto simp: config_error_def)

lemma config_error_leaves:
  "config_error (Inr x)" "config_error (check b m)" "config_error (map_error InvalidConfig r)"
  "config_error (number_setting env mx name kind)" "config_error (parse_scan_parallelism v d)"
  "config_error (simulated_setting env)" "config_error (required_setting env)"
  "config_error (validate_webhook_url parse u)"
  by (auto simp: config_error_def check_def map_error_def number_setting_def parse_scan_parallelism_def
      simulated_setting_def required_setting_def validate_webhook_url_def
      split: sum.splits option.splits nat.splits)

lemma config_error_or_default: "config_error (or_default d (number_setting env mx name kind))"
  unfolding or_default_def by (intro config_error_bind config_error_leaves)

lemma config_error_positive: "config_error (positive_setting env mx name d)"
  unfolding positive_setting_def
  by (rule config_error_bind [OF config_error_or_default]) (simp add: config_error_def)

lemmas config_errors = config_error_bind config_error_leaves config_error_or_default config_error_positive

lemma from_env_config_error: "config_error (from_env parse parallelism env)"
proof -
  have cases: "config_error (case v of None \<Rightarrow> Inr () | Some u \<Rightarrow> f u)" if "\<And>u. config_error (f u)" for v f
    using that by (cases v) (simp_all add: config_error_leaves)
  have ifs: "config_error (if b then map_error InvalidConfig r else Inr x)" for b r x
    by (simp add: config_error_leaves)
  show ?thesis
    unfolding from_env_def Let_def by (intro config_errors cases ifs)
qed

section \<open>Origins\<close>

text \<open>
  The origin of a URI as data: scheme and host in lower case, and the port unless it is the
  scheme's default. \<open>show_origin\<close> is how it is written.
\<close>

definition effective_port :: "string \<Rightarrow> nat option \<Rightarrow> nat option" where
  "effective_port scheme port =
     (if (scheme = ''http'' \<and> port = Some 80) \<or> (scheme = ''https'' \<and> port = Some 443) then None else port)"

definition origin_key :: "uri \<Rightarrow> authority \<Rightarrow> string \<times> string \<times> nat option" where
  "origin_key u a =
     (let scheme = to_ascii_lowercase (case uri_scheme u of None \<Rightarrow> [] | Some s \<Rightarrow> s)
      in (scheme, to_ascii_lowercase (au_host a), effective_port scheme (au_port a)))"

definition show_origin :: "string \<times> string \<times> nat option \<Rightarrow> string" where
  "show_origin = (\<lambda>(scheme, host, port). scheme @ ''://'' @ host
     @ (case port of None \<Rightarrow> [] | Some p \<Rightarrow> '':'' @ show_nat p))"

text \<open>A host without a colon, or an IP literal in brackets: RFC 3986, as the parser has it.\<close>

definition host_ok :: "string \<Rightarrow> bool" where
  "host_ok h \<longleftrightarrow> CHR '':'' \<notin> set h \<or> last h = CHR '']''"

definition hosts_ok :: "uri_parser \<Rightarrow> bool" where
  "hosts_ok parse \<longleftrightarrow> (\<forall>v u a. parse v = Inr u \<longrightarrow> uri_authority u = Some a \<longrightarrow> host_ok (au_host a))"

lemma url_origin_key:
  "url_origin u = Inr x \<longleftrightarrow>
     (\<exists>a. uri_authority u = Some a \<and> CHR ''@'' \<notin> set (au_text a) \<and> x = show_origin (origin_key u a))"
proof (cases "uri_authority u")
  case None
  then show ?thesis by (simp add: url_origin_def)
next
  case (Some a)
  define scheme where "scheme = to_ascii_lowercase (case uri_scheme u of None \<Rightarrow> [] | Some s \<Rightarrow> s)"
  have "url_origin u = (if CHR ''@'' \<in> set (au_text a) then Inl ''URL must not include user info''
      else Inr (show_origin (origin_key u a)))"
    by (cases "au_port a")
      (simp_all add: url_origin_def Some origin_key_def show_origin_def effective_port_def Let_def scheme_def [symmetric])
  with Some show ?thesis by auto
qed

lemma digits_no_colon: "CHR '':'' \<notin> set (show_nat n)" "last (show_nat n) \<noteq> CHR '']''"
proof -
  have d: "\<forall>c \<in> set (show_nat n). is_ascii_digit c" using show_nat_digits [of n] by (simp add: list_all_iff)
  then show "CHR '':'' \<notin> set (show_nat n)" by (auto simp: is_ascii_digit_def)
  have "is_ascii_digit (last (show_nat n))" using d by simp
  then show "last (show_nat n) \<noteq> CHR '']''" by (auto simp: is_ascii_digit_def)
qed

lemma lower_colon: "ascii_lower_char c = CHR '':'' \<longleftrightarrow> c = CHR '':''"
proof
  assume c: "ascii_lower_char c = CHR '':''"
  have "(of_char (ascii_lower_char c) :: nat) = 58" by (simp add: c)
  then show "c = CHR '':''" using c
    by (cases "65 \<le> (of_char c :: nat) \<and> (of_char c :: nat) \<le> 90") (auto simp: ascii_lower_char_def Let_def)
qed (simp add: ascii_lower_char_def)

lemma host_ok_lower:
  assumes "host_ok h"
  shows "host_ok (to_ascii_lowercase h)"
proof -
  have colon: "CHR '':'' \<in> set (to_ascii_lowercase h) \<longleftrightarrow> CHR '':'' \<in> set h"
  proof (induction h)
    case (Cons c h)
    moreover have "CHR '':'' = ascii_lower_char c \<longleftrightarrow> CHR '':'' = c" using lower_colon [of c] by metis
    ultimately show ?case by (simp add: to_ascii_lowercase_def)
  qed (simp add: to_ascii_lowercase_def)
  have "last (to_ascii_lowercase h) = CHR '']''" if "CHR '':'' \<in> set h"
    using assms that last_map [of h ascii_lower_char] 
    by (cases "h = []") (auto simp: host_ok_def to_ascii_lowercase_def ascii_lower_char_def)
  with colon show ?thesis by (auto simp: host_ok_def)
qed

lemma suffix_inject:
  assumes "host_ok h" "host_ok k"
    and "h @ (case p of None \<Rightarrow> [] | Some n \<Rightarrow> '':'' @ show_nat n) = k @ (case q of None \<Rightarrow> [] | Some n \<Rightarrow> '':'' @ show_nat n)"
  shows "h = k \<and> p = q"
proof -
  have one: "False" if "host_ok h" "h = k @ '':'' @ show_nat n" for h k n
    using that digits_no_colon(2) [of n] by (auto simp: host_ok_def)
  have split: "split_once (CHR '':'') (rev (h @ '':'' @ show_nat n)) = Some (rev (show_nat n), rev h)" for h n
    using split_once_append [of "CHR '':''" "rev (show_nat n)" "rev h"] digits_no_colon(1) by simp
  show ?thesis
  proof (cases p; cases q)
    fix m n assume pq: "p = Some m" "q = Some n"
    then have "h @ '':'' @ show_nat m = k @ '':'' @ show_nat n" using assms(3) by simp
    then have "split_once (CHR '':'') (rev (h @ '':'' @ show_nat m)) = split_once (CHR '':'') (rev (k @ '':'' @ show_nat n))"
      by simp
    then show ?thesis unfolding split by (simp add: pq)
  qed (use assms one in \<open>auto dest: sym\<close>)
qed

lemma show_origin_inject:
  assumes "s \<in> {''http'', ''https''}" "t \<in> {''http'', ''https''}" "host_ok h" "host_ok k"
    and "show_origin (s, h, p) = show_origin (t, k, q)"
  shows "(s, h, p) = (t, k, q)"
proof -
  have "s = t" "h @ (case p of None \<Rightarrow> [] | Some n \<Rightarrow> '':'' @ show_nat n) = k @ (case q of None \<Rightarrow> [] | Some n \<Rightarrow> '':'' @ show_nat n)"
    using assms(1,2,5) by (auto simp: show_origin_def)
  with suffix_inject [OF assms(3,4)] show ?thesis by simp
qed

text \<open>
  A return URL passes exactly when it is an \<^verbatim>\<open>http(s)\<close> URL with a host and without user info
  whose origin is one of the allowed ones, or none is configured.
\<close>

lemma validate_return_url_Inr:
  "validate_return_url parse v allowed = Inr () \<longleftrightarrow>
     (\<exists>u s a. parse v = Inr u \<and> uri_scheme u = Some s \<and> s \<in> {''http'', ''https''}
        \<and> uri_authority u = Some a \<and> CHR ''@'' \<notin> set (au_text a)
        \<and> (allowed = [] \<or> show_origin (origin_key u a) \<in> set allowed))"
  by (auto simp: validate_return_url_def bind_result_Inr validate_http_url_Inr url_origin_key)

lemma lower_scheme: "s \<in> {''http'', ''https''} \<Longrightarrow> to_ascii_lowercase s = s"
  by (auto simp: to_ascii_lowercase_def ascii_lower_char_def)

lemma same_origin_key:
  assumes "hosts_ok parse" "parse v = Inr u" "parse w = Inr u'"
    and "uri_scheme u = Some s" "s \<in> {''http'', ''https''}" "uri_scheme u' = Some s'" "s' \<in> {''http'', ''https''}"
    and "uri_authority u = Some a" "uri_authority u' = Some a'"
    and "show_origin (origin_key u a) = show_origin (origin_key u' a')"
  shows "origin_key u a = origin_key u' a'"
proof -
  have "host_ok (to_ascii_lowercase (au_host a))" "host_ok (to_ascii_lowercase (au_host a'))"
    using assms(1-3,8,9) by (auto simp: hosts_ok_def intro!: host_ok_lower)
  with assms(4-7,10) show ?thesis
    using show_origin_inject [of s s' "to_ascii_lowercase (au_host a)" "to_ascii_lowercase (au_host a')"]
    by (simp add: origin_key_def Let_def lower_scheme)
qed

section \<open>Properties\<close>

text \<open>A parser that knows one URL and one origin.\<close>

definition sample_parser :: uri_parser where
  "sample_parser v =
     (if v = ''https://Shop.example:443/thanks'' then
        Inr \<lparr>uri_scheme = Some ''https'', uri_authority = Some \<lparr>au_text = ''Shop.example:443'', au_host = ''Shop.example'',
             au_port = Some 443\<rparr>, uri_path = ''/thanks'', uri_query = None\<rparr>
      else if v = ''https://shop.example'' then
        Inr \<lparr>uri_scheme = Some ''https'', uri_authority = Some \<lparr>au_text = ''shop.example'', au_host = ''shop.example'',
             au_port = None\<rparr>, uri_path = ''/'', uri_query = None\<rparr>
      else Inl ''invalid uri character'')"

lemma allowed_origin_Inr:
  assumes "allowed_origin parse entry = Inr x"
  obtains w s b where "parse (trim_end_char (CHR ''/'') entry) = Inr w" "uri_scheme w = Some s" "s \<in> {''http'', ''https''}"
    "uri_authority w = Some b" "x = show_origin (origin_key w b)"
  using assms by (auto simp: allowed_origin_def Let_def bind_result_Inr validate_http_url_Inr url_origin_key split: if_splits)

lemma allowed_entry:
  assumes "parse_allowed_origins parse v = Inr allowed" "x \<in> set allowed"
  obtains entry where "entry \<in> set (split_char (CHR '','') v)" "allowed_origin parse (trim entry) = Inr x"
proof -
  from assms(1) have "list_all2 (\<lambda>e y. allowed_origin parse e = Inr y) (filter (\<lambda>i. i \<noteq> []) (map trim (split_char (CHR '','') v))) allowed"
    by (simp add: parse_allowed_origins_def map_result_Inr)
  from this assms(2) have "\<exists>e \<in> set (filter (\<lambda>i. i \<noteq> []) (map trim (split_char (CHR '','') v))). allowed_origin parse e = Inr x"
    by (induction rule: list_all2_induct) auto
  with that show thesis by auto
qed

lemma return_url_origin:
  assumes hosts: "hosts_ok parse" and list: "parse_allowed_origins parse v = Inr allowed" "allowed \<noteq> []"
    and url: "validate_return_url parse url allowed = Inr ()"
  shows "\<exists>u a entry w b. parse url = Inr u \<and> uri_authority u = Some a \<and> CHR ''@'' \<notin> set (au_text a)
    \<and> entry \<in> set (split_char (CHR '','') v) \<and> parse (trim_end_char (CHR ''/'') (trim entry)) = Inr w
    \<and> uri_authority w = Some b \<and> origin_key u a = origin_key w b"
proof -
  from url list(2) obtain u s a where u: "parse url = Inr u" "uri_scheme u = Some s" "s \<in> {''http'', ''https''}"
    "uri_authority u = Some a" "CHR ''@'' \<notin> set (au_text a)" "show_origin (origin_key u a) \<in> set allowed"
    by (auto simp: validate_return_url_Inr)
  from allowed_entry [OF list(1) u(6)] obtain entry where e: "entry \<in> set (split_char (CHR '','') v)"
    "allowed_origin parse (trim entry) = Inr (show_origin (origin_key u a))" .
  from allowed_origin_Inr [OF e(2)] obtain w s' b where w: "parse (trim_end_char (CHR ''/'') (trim entry)) = Inr w"
    "uri_scheme w = Some s'" "s' \<in> {''http'', ''https''}" "uri_authority w = Some b"
    "show_origin (origin_key u a) = show_origin (origin_key w b)" .
  have "origin_key u a = origin_key w b" by (rule same_origin_key [OF hosts u(1) w(1) u(2,3) w(2,3) u(4) w(4,5)])
  with u w e show ?thesis by blast
qed

text \<open>C8: With an allow list configured, a session's return URL that passes the check points at the
  scheme, host (up to case) and effective port of an entry of the list, and carries no user
  information; a look-alike origin is never taken for a listed one.\<close>
theorem return_url_stays_on_allowed_origins:
  assumes "hosts_ok parse" "parse_allowed_origins parse v = Inr allowed" "allowed \<noteq> []"
    and "validate_return_url parse url allowed = Inr ()"
  shows "\<exists>u a entry w b. parse url = Inr u \<and> uri_authority u = Some a \<and> CHR ''@'' \<notin> set (au_text a)
    \<and> entry \<in> set (split_char (CHR '','') v) \<and> parse (trim_end_char (CHR ''/'') (trim entry)) = Inr w
    \<and> uri_authority w = Some b \<and> origin_key u a = origin_key w b"
  using assms by (rule return_url_origin)

theorem return_url_stays_on_allowed_origins_witness:
  "\<exists>u a entry w b. sample_parser ''https://Shop.example:443/thanks'' = Inr u \<and> uri_authority u = Some a
    \<and> CHR ''@'' \<notin> set (au_text a) \<and> entry \<in> set (split_char (CHR '','') '' https://shop.example/ '')
    \<and> sample_parser (trim_end_char (CHR ''/'') (trim entry)) = Inr w
    \<and> uri_authority w = Some b \<and> origin_key u a = origin_key w b"
proof (rule return_url_stays_on_allowed_origins)
  show "hosts_ok sample_parser" by (auto simp: hosts_ok_def sample_parser_def host_ok_def split: if_splits)
  show "parse_allowed_origins sample_parser '' https://shop.example/ '' = Inr [''https://shop.example'']" by code_simp
  show "[''https://shop.example''] \<noteq> []" by simp
  show "validate_return_url sample_parser ''https://Shop.example:443/thanks'' [''https://shop.example''] = Inr ()" by code_simp
qed

text \<open>C9: A configuration read from the environment satisfies what the service relies on: the two
  databases are different files, intervals, batch size and attempt limits are positive and in range,
  the required confirmations are reportable and final, and simulated payments are only enabled on
  testnet without a chain source.\<close>
theorem config_from_env_is_sound:
  assumes "from_env parse parallelism env = Inr c" "0 < parallelism"
  shows "config_ok parse c"
  using assms by (rule from_env_config_ok)

definition sample_env :: environment where
  "sample_env = (\<lambda>name. if name = ''REQUIRED_CONFIRMATIONS'' then Some (Utf8 ''10'') else None)"

theorem config_from_env_is_sound_witness:
  "\<exists>c. from_env sample_parser 4 sample_env = Inr c \<and> config_ok sample_parser c"
proof -
  have "case from_env sample_parser 4 sample_env of Inr c \<Rightarrow> required_confirmations c = Some 10 | Inl _ \<Rightarrow> False" by code_simp
  then obtain c where "from_env sample_parser 4 sample_env = Inr c" by (auto split: sum.splits)
  with config_from_env_is_sound [OF this] show ?thesis by simp
qed

text \<open>Whatever the environment holds, reading the configuration either succeeds or stops with an
  invalid-configuration error; no other error and no panic leaves it.\<close>
theorem config_from_env_errors:
  "case from_env parse parallelism env of Inr _ \<Rightarrow> True | Inl e \<Rightarrow> (\<exists>m. e = InvalidConfig m)"
  using from_env_config_error [of parse parallelism env]
  by (auto simp: config_error_def split: sum.splits app_error.splits)

end
