(* ===== verification/Db_Identity.thy ===== *)
theory Db_Identity
  imports Db_Addresses Env_Config
begin

text \<open>
  The rows that hold one value per database: the wallet identity, the service metadata with the
  sync status, and the simulated-data marker; and the log of state transitions and reorgs
  (\<^verbatim>\<open>src/db.rs\<close>, with \<^verbatim>\<open>read_wallet_db_identity\<close> of \<^verbatim>\<open>src/wallet_db.rs\<close>).
\<close>

section \<open>The identity in the wallet database\<close>

record wallet_db_identity =
  wd_uivk :: string
  wd_birthday_height :: nat

text \<open>
  \<open>query\<close> is what the query on the wallet file gives, \<open>file_exists\<close> whether it is there. The
  statement errors the code treats as a missing identity carry a message.
\<close>

definition read_wallet_db_identity ::
  "bool \<Rightarrow> sqlite_error + wallet_db_identity option \<Rightarrow> wallet_db_identity option result" where
  "read_wallet_db_identity file_exists query =
     (if \<not> file_exists then Inr None
      else case query of
             Inr identity \<Rightarrow> Inr identity
           | Inl (SqlInputError _) \<Rightarrow> Inr None
           | Inl (ConstraintViolation _) \<Rightarrow> Inr None
           | Inl QueryReturnedNoRows \<Rightarrow> Inr None
           | Inl e \<Rightarrow> Inl (Database e))"

section \<open>Wallet identity\<close>

definition integrity :: "string \<Rightarrow> 'a db_op" where
  "integrity msg = raise (StartupIntegrity msg)"

definition insert_wallet_identity :: "wallet_identity \<Rightarrow> unit db_op" where
  "insert_wallet_identity i db =
     (if db_wallet_identity db \<noteq> None then (Inl (constraint ''PRIMARY KEY''), db)
      else (Inr (), db\<lparr>db_wallet_identity := Some i\<rparr>))"

definition touch_wallet_identity_validation :: "string \<Rightarrow> unit db_op" where
  "touch_wallet_identity_validation now =
     writes (\<lambda>db. db\<lparr>db_wallet_identity := map_option (\<lambda>i. i\<lparr>last_validated_at := now\<rparr>) (db_wallet_identity db)\<rparr>)"

text \<open>The checks against an identity that is already stored, in the order of the code.\<close>

definition identity_mismatch :: "config \<Rightarrow> wallet_db_identity option \<Rightarrow> wallet_identity \<Rightarrow> string option" where
  "identity_mismatch cfg wallet_db i =
     (if (case wallet_db of None \<Rightarrow> False | Some w \<Rightarrow> wd_uivk w \<noteq> canonical_uivk i)
      then Some ''wallet DB UIVK does not match stored wallet identity''
      else if (case wallet_db of None \<Rightarrow> False | Some w \<Rightarrow> wd_birthday_height w \<noteq> wi_birthday_height i)
      then Some ''wallet DB birthday height does not match stored wallet identity''
      else if (case startup_uivk cfg of None \<Rightarrow> False | Some u \<Rightarrow> u \<noteq> canonical_uivk i)
      then Some ''provided ZCASH_UIVK does not match stored wallet identity''
      else if wi_network i \<noteq> network cfg
      then Some ''configured ZCASH_NETWORK does not match stored wallet identity''
      else if (case birthday_height cfg of None \<Rightarrow> False | Some b \<Rightarrow> b \<noteq> wi_birthday_height i)
      then Some ''provided ZCASH_BIRTHDAY_HEIGHT does not match stored wallet identity''
      else None)"

definition or_else :: "'a option \<Rightarrow> 'a option \<Rightarrow> 'a option" where
  "or_else a b = (case a of Some x \<Rightarrow> Some x | None \<Rightarrow> b)"

text \<open>The identity a first startup stores.\<close>

definition first_identity :: "config \<Rightarrow> wallet_db_identity option \<Rightarrow> string \<Rightarrow> wallet_identity result" where
  "first_identity cfg wallet_db now =
     (if (case (startup_uivk cfg, wallet_db) of (Some u, Some w) \<Rightarrow> u \<noteq> wd_uivk w | _ \<Rightarrow> False)
      then Inl (StartupIntegrity ''provided ZCASH_UIVK does not match the existing wallet DB identity'')
      else case or_else (startup_uivk cfg) (map_option wd_uivk wallet_db) of
        None \<Rightarrow> Inl (StartupIntegrity ''first startup requires ZCASH_UIVK unless the wallet DB already contains a canonical account'')
      | Some uivk \<Rightarrow>
          (case or_else (birthday_height cfg) (map_option wd_birthday_height wallet_db) of
             None \<Rightarrow> Inl (StartupIntegrity ''first startup requires ZCASH_BIRTHDAY_HEIGHT unless the wallet DB already contains a canonical account'')
           | Some birthday \<Rightarrow>
               Inr \<lparr>canonical_uivk = uivk, uivk_fingerprint = fingerprint uivk, wi_network = network cfg,
                    wi_birthday_height = birthday, wi_wallet_db_path = wallet_db_path cfg,
                    initialized_at = now, last_validated_at = now\<rparr>))"

definition same_identity :: "wallet_identity \<Rightarrow> wallet_identity \<Rightarrow> bool" where
  "same_identity i j \<longleftrightarrow> canonical_uivk i = canonical_uivk j \<and> wi_network i = wi_network j
     \<and> wi_birthday_height i = wi_birthday_height j \<and> wi_wallet_db_path i = wi_wallet_db_path j"

text \<open>
  Another process may insert the row between the read and the insert: \<open>between\<close> is what it does
  to the database in that gap.
\<close>

definition store_first_identity :: "wallet_identity \<Rightarrow> wallet_identity db_op" where
  "store_first_identity i db =
     (case insert_wallet_identity i db of
        (Inr _, d) \<Rightarrow> (Inr i, d)
      | (Inl (Database e), d) \<Rightarrow>
          if is_singleton_insert_conflict e then
            (case db_wallet_identity d of
               None \<Rightarrow> (Inl (Database e), d)
             | Some j \<Rightarrow>
                 if same_identity j i then (Inr j, d)
                 else (Inl (StartupIntegrity ''concurrent wallet identity initialization produced conflicting singleton data''), d))
          else (Inl (Database e), d)
      | (Inl e, d) \<Rightarrow> (Inl e, d))"

definition ensure_wallet_identity ::
  "(app_db \<Rightarrow> app_db) \<Rightarrow> config \<Rightarrow> wallet_db_identity option result \<Rightarrow> string \<Rightarrow> wallet_identity db_op" where
  "ensure_wallet_identity between cfg wallet_db_result now =
     andThen (reads db_wallet_identity) (\<lambda>existing.
     andThen (lift_result wallet_db_result) (\<lambda>wallet_db.
       case existing of
         Some i \<Rightarrow>
           (case identity_mismatch cfg wallet_db i of
              Some msg \<Rightarrow> integrity msg
            | None \<Rightarrow> andThen (touch_wallet_identity_validation now) (\<lambda>_.
                andThen (reads db_wallet_identity) (\<lambda>v. case v of
                  Some j \<Rightarrow> ret j
                | None \<Rightarrow> raise (StartupIntegrity ''wallet identity must still exist''))))
       | None \<Rightarrow>
           andThen (lift_result (first_identity cfg wallet_db now)) (\<lambda>i.
           andThen (writes between) (\<lambda>_. store_first_identity i))))"

section \<open>Service metadata\<close>

abbreviation public_metadata :: "service_metadata_row \<Rightarrow> service_metadata" where
  "public_metadata \<equiv> service_metadata.truncate"

definition current_service_metadata :: "service_metadata db_op" where
  "current_service_metadata =
     andThen (reads db_metadata) (\<lambda>m. case m of
       Some r \<Rightarrow> ret (public_metadata r)
     | None \<Rightarrow> raise (InvalidConfig ''service metadata is missing''))"

definition fresh_metadata :: "config \<Rightarrow> service_metadata" where
  "fresh_metadata cfg =
     \<lparr>app_schema_version = APP_SCHEMA_VERSION, wallet_schema_version_seen = 0, last_seen_tip_height = 0,
      last_scanned_height = 0, last_stable_tip_height = 0, current_sync_state = ''starting'',
      current_scan_epoch = 0, catch_up_entered_at = None, catch_up_exited_at = None,
      md_webhook_report_confirmations = int (webhook_report_confirmations cfg),
      md_finality_confirmations = int (finality_confirmations cfg)\<rparr>"

text \<open>A new row has \<^verbatim>\<open>NULL\<close> in the added column.\<close>

definition insert_service_metadata :: "service_metadata \<Rightarrow> unit db_op" where
  "insert_service_metadata m db =
     (if db_metadata db \<noteq> None then (Inl (constraint ''PRIMARY KEY''), db)
      else (Inr (), db\<lparr>db_metadata := Some (service_metadata.extend m (service_metadata_row.fields None))\<rparr>))"

definition confirmations_match :: "config \<Rightarrow> service_metadata \<Rightarrow> bool" where
  "confirmations_match cfg m \<longleftrightarrow>
     md_webhook_report_confirmations m = int (webhook_report_confirmations cfg)
     \<and> md_finality_confirmations m = int (finality_confirmations cfg)"

definition store_fresh_metadata :: "config \<Rightarrow> service_metadata db_op" where
  "store_fresh_metadata cfg db =
     (case insert_service_metadata (fresh_metadata cfg) db of
        (Inr _, d) \<Rightarrow> (Inr (fresh_metadata cfg), d)
      | (Inl (Database e), d) \<Rightarrow>
          if is_singleton_insert_conflict e then
            (case db_metadata d of
               None \<Rightarrow> (Inl (Database e), d)
             | Some r \<Rightarrow>
                 if confirmations_match cfg (public_metadata r) then (Inr (public_metadata r), d)
                 else (Inl (StartupIntegrity ''concurrent service metadata initialization produced conflicting confirmation settings''), d))
          else (Inl (Database e), d)
      | (Inl e, d) \<Rightarrow> (Inl e, d))"

definition ensure_service_metadata_row :: "(app_db \<Rightarrow> app_db) \<Rightarrow> config \<Rightarrow> service_metadata db_op" where
  "ensure_service_metadata_row between cfg =
     andThen (reads db_metadata) (\<lambda>existing. case existing of
       Some r \<Rightarrow>
         if confirmations_match cfg (public_metadata r) then ret (public_metadata r)
         else integrity ''stored service metadata confirmation settings do not match the configured constants''
     | None \<Rightarrow> andThen (writes between) (\<lambda>_. store_fresh_metadata cfg))"

text \<open>The rebuild of the arrays: silent, so neither version nor dirty state changes.\<close>

definition rebuilt_array :: "app_db \<Rightarrow> int option \<Rightarrow> totals_row \<Rightarrow> totals_row" where
  "rebuilt_array db wanted t = t\<lparr>at_received_by_confirmations :=
     encode_zat_array (received_by_confirmations_zat db (at_address_id t) (at_last_computed_tip_height t) wanted)\<rparr>"

definition apply_required_confirmations :: "nat option \<Rightarrow> unit db_op" where
  "apply_required_confirmations required =
     writes (\<lambda>db.
       let wanted = map_option int required in
       if stored_required_confirmations db = wanted then db
       else db\<lparr>db_metadata := map_option (\<lambda>m. m\<lparr>md_required_confirmations := wanted\<rparr>) (db_metadata db),
               db_totals := map (rebuilt_array db wanted) (db_totals db)\<rparr>)"

definition ensure_service_metadata :: "(app_db \<Rightarrow> app_db) \<Rightarrow> config \<Rightarrow> service_metadata db_op" where
  "ensure_service_metadata between cfg =
     andThen (ensure_service_metadata_row between cfg) (\<lambda>m.
     andThen (apply_required_confirmations (required_confirmations cfg)) (\<lambda>_. ret m))"

section \<open>Simulated data\<close>

definition mark_simulated_data :: "string \<Rightarrow> unit db_op" where
  "mark_simulated_data now =
     writes (\<lambda>db. db\<lparr>db_simulated_marker := or_else (db_simulated_marker db) (Some now)\<rparr>)"

definition has_simulated_data :: "app_db \<Rightarrow> bool" where
  "has_simulated_data db \<longleftrightarrow> db_simulated_marker db \<noteq> None"

section \<open>Sync status and reorg log\<close>

definition next_metadata ::
  "string \<Rightarrow> int \<Rightarrow> int \<Rightarrow> string \<Rightarrow> service_metadata_row \<Rightarrow> service_metadata_row" where
  "next_metadata new_state tip scanned now m =
     (let changed = current_sync_state m \<noteq> new_state
      in m\<lparr>last_seen_tip_height := tip, last_scanned_height := scanned, last_stable_tip_height := scanned,
           current_sync_state := new_state,
           current_scan_epoch := (if changed then current_scan_epoch m + 1 else current_scan_epoch m),
           catch_up_entered_at := (if changed \<and> new_state = ''catching_up'' then Some now else catch_up_entered_at m),
           catch_up_exited_at :=
             (if changed \<and> current_sync_state m = ''catching_up'' \<and> new_state \<noteq> ''catching_up''
              then Some now else catch_up_exited_at m)\<rparr>)"

definition transition_of ::
  "string \<Rightarrow> string \<Rightarrow> int \<Rightarrow> int \<Rightarrow> string \<Rightarrow> service_metadata_row \<Rightarrow> sync_transition_row" where
  "transition_of new_state reason tip scanned now m =
     \<lparr>st_from_state = current_sync_state m, st_to_state = new_state, st_reason = reason,
      st_tip_height = tip, st_scanned_height = scanned,
      st_scan_epoch = current_scan_epoch m + 1, st_detected_at = now\<rparr>"

definition record_sync_status :: "string \<Rightarrow> string \<Rightarrow> int \<Rightarrow> int \<Rightarrow> string \<Rightarrow> service_metadata db_op" where
  "record_sync_status new_state reason tip scanned now = in_tx (\<lambda>db.
     case db_metadata db of
       None \<Rightarrow> (Inl (InvalidConfig ''service metadata is missing''), db)
     | Some m \<Rightarrow>
         (let m' = next_metadata new_state tip scanned now m
          in (Inr (public_metadata m'),
              db\<lparr>db_metadata := Some m',
                 db_transitions := db_transitions db
                   @ (if current_sync_state m \<noteq> new_state
                      then [transition_of new_state reason tip scanned now m] else [])\<rparr>)))"

definition record_reorg_event ::
  "int \<Rightarrow> int \<Rightarrow> int \<Rightarrow> int \<Rightarrow> string \<Rightarrow> string \<Rightarrow> unit db_op" where
  "record_reorg_event previous_tip new_tip rewind_height affected_count notes now = in_tx (\<lambda>db.
     case db_metadata db of
       None \<Rightarrow> (Inl (Database QueryReturnedNoRows), db)
     | Some m \<Rightarrow>
         (Inr (), db\<lparr>db_reorgs := db_reorgs db @
            [\<lparr>re_scan_epoch = current_scan_epoch m, re_detected_at = now,
              re_previous_tip_height = previous_tip, re_new_tip_height = new_tip,
              re_rewind_height = rewind_height, re_affected_address_count = min affected_count i64_max,
              re_notes = notes\<rparr>]\<rparr>))"

section \<open>Opening the database\<close>

text \<open>
  \<^verbatim>\<open>initialize_schema\<close> on a file whose tables already have every column: creating and
  rebuilding tables keeps the rows, so what it changes is the ironwood receivers and the
  recorded schema version.
\<close>

definition bump_schema_version :: "unit db_op" where
  "bump_schema_version = writes (\<lambda>db. db\<lparr>db_metadata :=
     map_option (\<lambda>m. if app_schema_version m < APP_SCHEMA_VERSION
                       then m\<lparr>app_schema_version := APP_SCHEMA_VERSION\<rparr> else m) (db_metadata db)\<rparr>)"

definition initialize_schema :: "unit db_op" where
  "initialize_schema =
     in_tx (andThen copy_orchard_receivers_to_ironwood (\<lambda>_. bump_schema_version))"

section \<open>Rows that exist once\<close>

text \<open>
  The contract of a singleton table: the first insert wins, every later one is a constraint
  violation and changes nothing. Both singleton tables of the schema fulfil it.
\<close>

locale singleton_table =
  fixes get :: "app_db \<Rightarrow> 'r option"
    and insert_row :: "'v \<Rightarrow> unit db_op"
    and stored :: "'v \<Rightarrow> 'r"
  assumes insert_empty: "get db = None \<Longrightarrow> \<exists>d. insert_row v db = (Inr (), d) \<and> get d = Some (stored v)"
    and insert_full: "get db = Some r \<Longrightarrow> insert_row v db = (Inl (constraint ''PRIMARY KEY''), db)"
begin

lemma row_after_insert:
  assumes "insert_row v db = (res, d)"
  obtains r where "get d = Some r" "get db = None \<longrightarrow> res = Inr () \<and> r = stored v"
    "get db \<noteq> None \<longrightarrow> res = Inl (constraint ''PRIMARY KEY'') \<and> d = db"
  using assms insert_empty [of db v] insert_full [of db _ v] by (cases "get db") auto

lemma first_insert_wins:
  assumes "insert_row v db = (res, d)" "insert_row w d = (res', d')"
  shows "d' = d"
  using row_after_insert [OF assms(1)] insert_full assms(2) by (metis prod.inject)

end

interpretation identity_table: singleton_table db_wallet_identity insert_wallet_identity "\<lambda>i. i"
  by unfold_locales (auto simp: insert_wallet_identity_def)

interpretation metadata_table: singleton_table db_metadata insert_service_metadata
    "\<lambda>m. service_metadata.extend m (service_metadata_row.fields None)"
  by unfold_locales (auto simp: insert_service_metadata_def)

section \<open>The wallet identity\<close>

lemma store_first_identity_run:
  assumes "store_first_identity i db = (r, db')"
  shows "(db_wallet_identity db = None \<and> r = Inr i \<and> db_wallet_identity db' = Some i)
    \<or> (\<exists>j. db_wallet_identity db = Some j \<and> db' = db \<and> (if same_identity j i then r = Inr j else \<exists>m. r = Inl m))"
proof (cases "db_wallet_identity db")
  case None
  from identity_table.insert_empty [OF this, of i] obtain d where
    "insert_wallet_identity i db = (Inr (), d)" "db_wallet_identity d = Some i" by blast
  with assms None show ?thesis by (simp add: store_first_identity_def)
next
  case (Some j)
  from identity_table.insert_full [OF this, of i] assms Some show ?thesis
    by (auto simp: store_first_identity_def constraint_def is_singleton_insert_conflict_def)
qed

text \<open>What a stored identity must agree with.\<close>

definition identity_fits :: "config \<Rightarrow> wallet_db_identity option \<Rightarrow> wallet_identity \<Rightarrow> bool" where
  "identity_fits cfg wallet_db i \<longleftrightarrow> wi_network i = network cfg
     \<and> (case startup_uivk cfg of None \<Rightarrow> True | Some u \<Rightarrow> u = canonical_uivk i)
     \<and> (case birthday_height cfg of None \<Rightarrow> True | Some b \<Rightarrow> b = wi_birthday_height i)
     \<and> (case wallet_db of None \<Rightarrow> True | Some w \<Rightarrow> wd_uivk w = canonical_uivk i)"

lemma identity_mismatch_None:
  "identity_mismatch cfg wallet_db i = None \<longleftrightarrow> identity_fits cfg wallet_db i
     \<and> (case wallet_db of None \<Rightarrow> True | Some w \<Rightarrow> wd_birthday_height w = wi_birthday_height i)"
  by (auto simp: identity_mismatch_def identity_fits_def split: option.splits if_splits)

lemma first_identity_Inr:
  assumes "first_identity cfg wallet_db now = Inr i"
  shows "identity_fits cfg wallet_db i"
  using assms
  by (auto simp: first_identity_def identity_fits_def or_else_def split: option.splits if_splits)

lemma same_identity_fits: "same_identity j i \<Longrightarrow> identity_fits cfg w i \<Longrightarrow> identity_fits cfg w j"
  by (auto simp: same_identity_def identity_fits_def split: option.splits)

lemma ensure_identity_first:
  assumes "ensure_wallet_identity between cfg w now db = (Inr i, db')" "db_wallet_identity db = None"
  shows "\<exists>wallet_db. w = Inr wallet_db \<and> identity_fits cfg wallet_db i \<and> db_wallet_identity db' = Some i"
proof -
  from assms obtain wallet_db i0 where w: "w = Inr wallet_db"
    and first: "first_identity cfg wallet_db now = Inr i0"
    and store: "store_first_identity i0 (between db) = (Inr i, db')"
    by (auto simp: ensure_wallet_identity_def andThen_Inr) (metis)
  from store_first_identity_run [OF store] first_identity_Inr [OF first] w same_identity_fits
  show ?thesis by (auto split: if_splits)
qed

lemma ensure_identity_again:
  assumes "ensure_wallet_identity between cfg w now db = (r, db')" "db_wallet_identity db = Some j"
  shows "(case r of
      Inr i \<Rightarrow> (\<exists>wallet_db. w = Inr wallet_db \<and> identity_fits cfg wallet_db i)
        \<and> i = j\<lparr>last_validated_at := now\<rparr> \<and> db_wallet_identity db' = Some i
    | Inl _ \<Rightarrow> db' = db)"
proof (cases w)
  case (Inl e)
  with assms show ?thesis
    by (auto simp: ensure_wallet_identity_def andThen_def reads_def lift_result_def split: sum.splits)
next
  case (Inr wallet_db)
  show ?thesis
  proof (cases "identity_mismatch cfg wallet_db j")
    case None
    then have "identity_fits cfg wallet_db (j\<lparr>last_validated_at := now\<rparr>)"
      by (auto simp: identity_mismatch_None identity_fits_def split: option.splits)
    moreover have "r = Inr (j\<lparr>last_validated_at := now\<rparr>)" "db_wallet_identity db' = Some (j\<lparr>last_validated_at := now\<rparr>)"
      using assms Inr None by (auto simp: ensure_wallet_identity_def andThen_def reads_def lift_result_def
          touch_wallet_identity_validation_def writes_def ret_def)
    ultimately show ?thesis using Inr by simp
  next
    case (Some m)
    with assms Inr show ?thesis by (auto simp: ensure_wallet_identity_def andThen_def reads_def lift_result_def
        integrity_def raise_def)
  qed
qed


text \<open>
  A first startup does not compare a configured birthday with the one in the wallet database,
  but every later one does: it stores an identity that the next startup refuses.
\<close>

lemma birthday_lockout:
  assumes "db_wallet_identity db = None" "startup_uivk cfg = Some (wd_uivk w)"
    and "birthday_height cfg = Some b" "b \<noteq> wd_birthday_height w"
  shows "\<exists>i d. ensure_wallet_identity (\<lambda>d. d) cfg (Inr (Some w)) now db = (Inr i, d)
    \<and> ensure_wallet_identity between cfg (Inr (Some w)) later d
       = (Inl (StartupIntegrity ''wallet DB birthday height does not match stored wallet identity''), d)"
proof -
  let ?i = "\<lparr>canonical_uivk = wd_uivk w, uivk_fingerprint = fingerprint (wd_uivk w), wi_network = network cfg,
    wi_birthday_height = b, wi_wallet_db_path = wallet_db_path cfg, initialized_at = now, last_validated_at = now\<rparr>"
  let ?d = "db\<lparr>db_wallet_identity := Some ?i\<rparr>"
  have "ensure_wallet_identity (\<lambda>d. d) cfg (Inr (Some w)) now db = (Inr ?i, ?d)"
    using assms by (simp add: ensure_wallet_identity_def andThen_def reads_def lift_result_def writes_def
        first_identity_def or_else_def store_first_identity_def insert_wallet_identity_def)
  moreover have "ensure_wallet_identity between cfg (Inr (Some w)) later ?d
       = (Inl (StartupIntegrity ''wallet DB birthday height does not match stored wallet identity''), ?d)"
    using assms(4) by (simp add: ensure_wallet_identity_def andThen_def reads_def lift_result_def
        identity_mismatch_def integrity_def raise_def)
  ultimately show ?thesis by blast
qed

section \<open>The service metadata\<close>

lemma ensure_metadata_row_Inr:
  assumes "ensure_service_metadata_row between cfg db = (Inr m, db')"
  shows "confirmations_match cfg m \<and> (\<exists>r. db_metadata db' = Some r \<and> public_metadata r = m)
    \<and> (db_metadata db \<noteq> None \<longrightarrow> db' = db)"
proof (cases "db_metadata db")
  case (Some r)
  with assms show ?thesis
    by (auto simp: ensure_service_metadata_row_def andThen_def reads_def integrity_def raise_def ret_def split: if_splits)
next
  case None
  with assms have store: "store_fresh_metadata cfg (between db) = (Inr m, db')"
    by (simp add: ensure_service_metadata_row_def andThen_def reads_def writes_def)
  show ?thesis
  proof (cases "db_metadata (between db)")
    case None': None
    from metadata_table.insert_empty [OF this, of "fresh_metadata cfg"] store None show ?thesis
      by (auto simp: store_fresh_metadata_def confirmations_match_def fresh_metadata_def
          service_metadata.defs service_metadata_row.defs)
  next
    case (Some r)
    from metadata_table.insert_full [OF this, of "fresh_metadata cfg"] store Some None show ?thesis
      by (auto simp: store_fresh_metadata_def constraint_def is_singleton_insert_conflict_def split: if_splits)
  qed
qed

text \<open>The silent rebuild: only the arrays of the totals change.\<close>

definition only_arrays :: "totals_row \<Rightarrow> totals_row \<Rightarrow> bool" where
  "only_arrays t t' \<longleftrightarrow> t' = t\<lparr>at_received_by_confirmations := at_received_by_confirmations t'\<rparr>"

lemma rebuilt_only_arrays: "only_arrays t (rebuilt_array db wanted t)"
  by (simp add: only_arrays_def rebuilt_array_def)

lemma only_arrays_fields:
  assumes "only_arrays t t'"
  shows "at_address_id t' = at_address_id t" "at_current_total_zat t' = at_current_total_zat t"
    "at_dirty_state t' = at_dirty_state t" "at_state_version t' = at_state_version t"
    "at_last_notified_total_zat t' = at_last_notified_total_zat t"
    "at_last_notified_event_id t' = at_last_notified_event_id t"
proof -
  obtain x where "t' = t\<lparr>at_received_by_confirmations := x\<rparr>" using assms by (metis only_arrays_def)
  then show "at_address_id t' = at_address_id t" "at_current_total_zat t' = at_current_total_zat t"
    "at_dirty_state t' = at_dirty_state t" "at_state_version t' = at_state_version t"
    "at_last_notified_total_zat t' = at_last_notified_total_zat t"
    "at_last_notified_event_id t' = at_last_notified_event_id t" by simp_all
qed

lemma apply_required_run:
  assumes "apply_required_confirmations required db = (r, db')"
  shows "r = Inr ()" "db_receipts db' = db_receipts db" "db_deliveries db' = db_deliveries db"
    "list_all2 only_arrays (db_totals db) (db_totals db')"
    "db_metadata db \<noteq> None \<Longrightarrow> stored_required_confirmations db' = map_option int required"
  using assms
  by (auto simp: apply_required_confirmations_def Let_def only_arrays_def rebuilt_array_def
      stored_required_confirmations_def list_all2_refl list_all2_conv_all_nth split: if_splits)

lemma apply_required_arrays:
  assumes "apply_required_confirmations required db = (r, db')"
    and "stored_required_confirmations db \<noteq> map_option int required" "t \<in> set (db_totals db')"
  shows "at_received_by_confirmations t = encode_zat_array
    (received_by_confirmations_zat db' (at_address_id t) (at_last_computed_tip_height t) (map_option int required))"
  using assms
  by (auto simp: apply_required_confirmations_def Let_def rebuilt_array_def received_by_confirmations_zat_def
      receipts_of_def split: option.splits)

lemma only_arrays_keys:
  "list_all2 only_arrays ts ts' \<Longrightarrow> map at_address_id ts' = map at_address_id ts"
  by (induction rule: list_all2_induct) (simp_all add: only_arrays_fields)

lemma apply_required_ledger:
  assumes "ledger_ok db" "apply_required_confirmations required db = (r, db')"
  shows "ledger_ok db'"
proof -
  note R = apply_required_run [OF assms(2)]
  have "total_current db' t'" if "t' \<in> set (db_totals db')" for t'
  proof -
    from that R(4) obtain t where "t \<in> set (db_totals db)" "only_arrays t t'"
      by (metis in_set_conv_nth list_all2_conv_all_nth)
    with assms(1) R(2) only_arrays_fields show ?thesis
      by (auto simp: ledger_ok_def totals_current_def list_all_iff total_current_def eligible_total_rows)
  qed
  with assms(1) R(2) only_arrays_keys [OF R(4)] show ?thesis
    by (simp add: ledger_ok_def totals_keys_ok_def receipt_uids_ok_def totals_current_def list_all_iff)
qed

section \<open>The log of sync states\<close>

text \<open>
  The transitions form a chain from \<^verbatim>\<open>starting\<close> to the current state, numbered by the epochs
  \<open>1, 2, ..\<close>; every recorded transition changes the state.
\<close>

fun chain :: "string \<Rightarrow> int \<Rightarrow> sync_transition_row list \<Rightarrow> string \<Rightarrow> int \<Rightarrow> bool" where
  "chain s e [] s' e' \<longleftrightarrow> s = s' \<and> e = e'"
| "chain s e (x # xs) s' e' \<longleftrightarrow>
     st_from_state x = s \<and> st_to_state x \<noteq> s \<and> st_scan_epoch x = e + 1 \<and> chain (st_to_state x) (e + 1) xs s' e'"

definition sync_log_ok :: "app_db \<Rightarrow> bool" where
  "sync_log_ok db \<longleftrightarrow>
     (case db_metadata db of
        None \<Rightarrow> db_transitions db = []
      | Some m \<Rightarrow> chain ''starting'' 0 (db_transitions db) (current_sync_state m) (current_scan_epoch m))"

lemma chain_snoc:
  "chain s e (xs @ [x]) s' e' \<longleftrightarrow>
     (\<exists>t d. chain s e xs t d \<and> st_from_state x = t \<and> st_to_state x = s' \<and> st_to_state x \<noteq> t
        \<and> st_scan_epoch x = d + 1 \<and> e' = d + 1)"
  by (induction xs arbitrary: s e) auto

lemma record_sync_status_Inr:
  assumes "record_sync_status s reason tip scanned now db = (Inr m', db')"
  obtains m where "db_metadata db = Some m" "m' = public_metadata (next_metadata s tip scanned now m)"
    "db_metadata db' = Some (next_metadata s tip scanned now m)"
    "db_transitions db' = db_transitions db @ (if current_sync_state m \<noteq> s then [transition_of s reason tip scanned now m] else [])"
  using assms by (auto simp: record_sync_status_def in_tx_Inr Let_def split: option.splits)

lemma record_sync_status_log:
  assumes "sync_log_ok db" "record_sync_status s reason tip scanned now db = (r, db')"
  shows "sync_log_ok db'"
proof (cases r)
  case (Inl e)
  with assms show ?thesis by (auto simp: record_sync_status_def in_tx_Inl)
next
  case (Inr m')
  from record_sync_status_Inr [OF assms(2) [unfolded Inr]] obtain m where m: "db_metadata db = Some m"
    "db_metadata db' = Some (next_metadata s tip scanned now m)"
    "db_transitions db' = db_transitions db @ (if current_sync_state m \<noteq> s then [transition_of s reason tip scanned now m] else [])"
    by metis
  have st: "current_sync_state (next_metadata s tip scanned now m) = s"
    "current_scan_epoch (next_metadata s tip scanned now m)
      = (if current_sync_state m \<noteq> s then current_scan_epoch m + 1 else current_scan_epoch m)"
    by (simp_all add: next_metadata_def Let_def)
  from m(1) assms(1) have "chain ''starting'' 0 (db_transitions db) (current_sync_state m) (current_scan_epoch m)"
    by (simp add: sync_log_ok_def)
  then show ?thesis
    by (cases "current_sync_state m = s") (simp_all add: sync_log_ok_def m(2,3) st chain_snoc transition_of_def)
qed

end
