(* ===== verification/Db_Webhooks.thy ===== *)
theory Db_Webhooks
  imports Db_Identity
begin

text \<open>
  The webhook queue of \<^verbatim>\<open>src/db.rs\<close>: dirty addresses become deliveries, deliveries are claimed,
  and the outcome of an attempt is recorded. Each operation is one transaction.
\<close>

section \<open>Reading the queue\<close>

definition is_outstanding :: "delivery_row \<Rightarrow> bool" where
  "is_outstanding d \<longleftrightarrow> wd_delivery_state d \<in> set [Queued, Sending, RetryWait]"

text \<open>The delivery of the event an address last acknowledged.\<close>

definition acked_delivery :: "app_db \<Rightarrow> int \<Rightarrow> delivery_row option" where
  "acked_delivery db a =
     Option.bind (find_key at_address_id a (db_totals db)) (\<lambda>t.
     Option.bind (at_last_notified_event_id t) (\<lambda>e.
       find (\<lambda>d. wd_address_id d = a \<and> wd_event_id d = e) (db_deliveries db)))"

definition acked_id :: "app_db \<Rightarrow> int \<Rightarrow> int" where
  "acked_id db a = (case acked_delivery db a of None \<Rightarrow> 0 | Some d \<Rightarrow> wd_delivery_id d)"

definition outstanding :: "app_db \<Rightarrow> int \<Rightarrow> delivery_row option" where
  "outstanding db a =
     last_by wd_delivery_id
       (filter (\<lambda>d. wd_address_id d = a \<and> is_outstanding d \<and> acked_id db a < wd_delivery_id d) (db_deliveries db))"

section \<open>Queueing\<close>

text \<open>\<^verbatim>\<open>format!("zcash:{address_id}:v{state_version}")\<close> and the JSON body.\<close>

definition event_text :: "int \<Rightarrow> int \<Rightarrow> string" where
  "event_text a version = ''zcash:'' @ show_int a @ '':v'' @ show_int version"

definition webhook_body :: "string \<Rightarrow> string \<Rightarrow> int \<Rightarrow> string \<Rightarrow> int list option \<Rightarrow> json" where
  "webhook_body event_id address total_zat observed_at by_confirmations =
     JObject ([(''event_id'', JString event_id), (''payment_source'', JString ''zcash''),
               (''address'', JString address), (''total_received'', JString (format_zat_as_zec total_zat)),
               (''observed_at'', JString observed_at)]
       @ (case by_confirmations of None \<Rightarrow> []
          | Some vs \<Rightarrow> [(''received_by_confirmations'', JArray (map JString (format_zat_array vs)))]))"

definition update_totals :: "int \<Rightarrow> (totals_row \<Rightarrow> totals_row) \<Rightarrow> app_db \<Rightarrow> app_db" where
  "update_totals a f db = db\<lparr>db_totals := update_where (\<lambda>t. at_address_id t = a) f (db_totals db)\<rparr>"

definition mark_clean :: "totals_row \<Rightarrow> totals_row" where
  "mark_clean t = t\<lparr>at_dirty_state := Clean, at_dirty_reason := None, at_dirty_since_height := None\<rparr>"

definition mark_queued :: "totals_row \<Rightarrow> totals_row" where
  "mark_queued t = t\<lparr>at_dirty_state := QueuedForWebhook, at_dirty_reason := Some ''webhook_queued''\<rparr>"

definition new_delivery :: "int \<Rightarrow> string \<Rightarrow> int \<Rightarrow> string \<Rightarrow> string \<Rightarrow> string option \<Rightarrow> delivery_row list \<Rightarrow> delivery_row" where
  "new_delivery a event_id total_zat observed_at body by_conf ds =
     \<lparr>wd_delivery_id = next_rowid (map wd_delivery_id ds), wd_address_id = a, wd_event_id = event_id,
      wd_total_received_zat = total_zat, wd_observed_at = observed_at, wd_request_body_json = body,
      wd_delivery_state = Queued, wd_attempt_count = 0, wd_next_attempt_at = None,
      wd_last_http_status = None, wd_last_response_body = None, wd_last_attempt_at = None,
      wd_received_by_confirmations = by_conf\<rparr>"

text \<open>\<^verbatim>\<open>INSERT OR IGNORE\<close>: the unique event id decides.\<close>

definition insert_delivery :: "int \<Rightarrow> string \<Rightarrow> int \<Rightarrow> string \<Rightarrow> string \<Rightarrow> string option \<Rightarrow> app_db \<Rightarrow> app_db" where
  "insert_delivery a event_id total_zat observed_at body by_conf db =
     (if event_id \<in> set (map wd_event_id (db_deliveries db)) then db
      else db\<lparr>db_deliveries := db_deliveries db
             @ [new_delivery a event_id total_zat observed_at body by_conf (db_deliveries db)]\<rparr>)"

text \<open>What the receiver will have seen last: an outstanding event, else the acknowledged one.\<close>

definition last_word :: "app_db \<Rightarrow> totals_row \<Rightarrow> int \<times> string option" where
  "last_word db t =
     (case outstanding db (at_address_id t) of
        Some d \<Rightarrow> (wd_total_received_zat d, wd_received_by_confirmations d)
      | None \<Rightarrow> (at_last_notified_total_zat t, at_last_notified_by_confirmations t))"

definition queue_event :: "externals \<Rightarrow> string \<Rightarrow> string \<Rightarrow> totals_row \<Rightarrow> unit db_op" where
  "queue_event ext now address t =
     (let a = at_address_id t;
          event_id = event_text a (at_state_version t);
          body = webhook_body event_id address (at_current_total_zat t) now
                   (decode_zat_array ext (at_received_by_confirmations t))
      in andThen (lift_result (ext_print_json ext body)) (\<lambda>text.
         andThen (writes (insert_delivery a event_id (at_current_total_zat t) now text
                            (at_received_by_confirmations t))) (\<lambda>_.
         writes (update_totals a (\<lambda>u. (mark_queued u)\<lparr>at_last_changed_at := now\<rparr>)))))"

definition queue_address :: "externals \<Rightarrow> string \<Rightarrow> int \<Rightarrow> int list \<Rightarrow> int list db_op" where
  "queue_address ext now a queued db =
     (case find_key at_address_id a (db_totals db) of
        None \<Rightarrow> (Inr queued, db)
      | Some t \<Rightarrow>
          (case find_key ia_address_id a (db_issued_addresses db) of
             None \<Rightarrow> (Inr queued, db)
           | Some i \<Rightarrow>
               if at_dirty_state t \<noteq> Dirty then (Inr queued, db)
               else if (at_current_total_zat t, at_received_by_confirmations t) = last_word db t
               then (if outstanding db a = None then (Inr queued, update_totals a mark_clean db)
                     else (Inr queued, update_totals a mark_queued db))
               else andThen (queue_event ext now (ia_unified_address i) t)
                      (\<lambda>_. ret (bset_insert a queued)) db))"

definition queue_webhook_deliveries_in_tx :: "externals \<Rightarrow> int list \<Rightarrow> string \<Rightarrow> int list db_op" where
  "queue_webhook_deliveries_in_tx ext address_ids now =
     for_each (queue_address ext now) (bset_of address_ids) []"

definition queue_webhook_deliveries_for_dirty_addresses :: "externals \<Rightarrow> int list \<Rightarrow> string \<Rightarrow> int list db_op" where
  "queue_webhook_deliveries_for_dirty_addresses ext address_ids now =
     (if address_ids = [] then ret []
      else in_tx (queue_webhook_deliveries_in_tx ext address_ids now))"

definition dirty_addresses :: "app_db \<Rightarrow> int list" where
  "dirty_addresses db = sort (map at_address_id (filter (\<lambda>t. at_dirty_state t = Dirty) (db_totals db)))"

definition queue_all_dirty_webhook_deliveries :: "externals \<Rightarrow> string \<Rightarrow> int list db_op" where
  "queue_all_dirty_webhook_deliveries ext now =
     andThen (reads dirty_addresses) (\<lambda>ids. queue_webhook_deliveries_for_dirty_addresses ext ids now)"

section \<open>Working the queue\<close>

definition update_delivery :: "int \<Rightarrow> (delivery_row \<Rightarrow> delivery_row) \<Rightarrow> app_db \<Rightarrow> app_db" where
  "update_delivery i f db = db\<lparr>db_deliveries := update_where (\<lambda>d. wd_delivery_id d = i) f (db_deliveries db)\<rparr>"

definition coalesce :: "'a option \<Rightarrow> 'a \<Rightarrow> 'a option" where
  "coalesce v d = Some (case v of Some x \<Rightarrow> x | None \<Rightarrow> d)"

definition interrupted :: "string \<Rightarrow> delivery_row \<Rightarrow> delivery_row" where
  "interrupted now d = d\<lparr>wd_delivery_state := RetryWait, wd_next_attempt_at := Some now,
     wd_last_response_body := coalesce (wd_last_response_body d) ''delivery interrupted before completion'',
     wd_last_attempt_at := coalesce (wd_last_attempt_at d) now\<rparr>"

definition recover_interrupted_webhook_deliveries :: "string \<Rightarrow> int list db_op" where
  "recover_interrupted_webhook_deliveries now db =
     (let ids = sort (map wd_delivery_id (filter (\<lambda>d. wd_delivery_state d = Sending) (db_deliveries db)))
      in (Inr ids, fold (\<lambda>i. update_delivery i (interrupted now)) ids db))"

record queued_delivery =
  qd_delivery_id :: int
  qd_address_id :: int
  qd_event_id :: string
  qd_total_received_zat :: int
  qd_request_body_json :: string
  qd_attempt_count :: int

definition queued_of :: "delivery_row \<Rightarrow> queued_delivery" where
  "queued_of d = \<lparr>qd_delivery_id = wd_delivery_id d, qd_address_id = wd_address_id d,
     qd_event_id = wd_event_id d, qd_total_received_zat = wd_total_received_zat d,
     qd_request_body_json = wd_request_body_json d, qd_attempt_count = wd_attempt_count d\<rparr>"

definition is_ready :: "string \<Rightarrow> delivery_row \<Rightarrow> bool" where
  "is_ready now d \<longleftrightarrow> wd_delivery_state d = Queued
     \<or> (wd_delivery_state d = RetryWait \<and> (case wd_next_attempt_at d of None \<Rightarrow> False | Some at \<Rightarrow> at \<le> now))"

definition claim_row :: "delivery_row \<Rightarrow> delivery_row" where
  "claim_row d = d\<lparr>wd_delivery_state := Sending, wd_next_attempt_at := None\<rparr>"

definition claim_ready_webhook_delivery :: "string \<Rightarrow> queued_delivery option db_op" where
  "claim_ready_webhook_delivery now db =
     (case first_by (\<lambda>d. (wd_observed_at d, wd_delivery_id d)) (filter (is_ready now) (db_deliveries db)) of
        None \<Rightarrow> (Inr None, db)
      | Some d \<Rightarrow> (Inr (Some (queued_of d)), update_delivery (wd_delivery_id d) claim_row db))"

definition attempt_row_of ::
  "int \<Rightarrow> string \<Rightarrow> int option \<Rightarrow> string option \<Rightarrow> string option \<Rightarrow> int \<Rightarrow> attempt_row list \<Rightarrow> attempt_row" where
  "attempt_row_of i attempted_at status body transport_error duration attempts =
     \<lparr>wa_attempt_id = next_rowid (map wa_attempt_id attempts), wa_delivery_id = i, wa_attempted_at = attempted_at,
      wa_http_status = status, wa_response_body = body, wa_transport_error = transport_error,
      wa_duration_ms = duration\<rparr>"

text \<open>\<^verbatim>\<open>INSERT INTO webhook_delivery_attempts\<close>, whose delivery must exist.\<close>

definition insert_attempt ::
  "int \<Rightarrow> string \<Rightarrow> int option \<Rightarrow> string option \<Rightarrow> string option \<Rightarrow> int \<Rightarrow> unit db_op" where
  "insert_attempt i attempted_at status body transport_error duration db =
     (if i \<notin> set (map wd_delivery_id (db_deliveries db)) then (Inl (constraint ''FOREIGN KEY''), db)
      else (Inr (), db\<lparr>db_attempts := db_attempts db
             @ [attempt_row_of i attempted_at status body transport_error duration (db_attempts db)]\<rparr>))"

definition finish_row ::
  "delivery_state \<Rightarrow> string option \<Rightarrow> int option \<Rightarrow> string option \<Rightarrow> string \<Rightarrow> delivery_row \<Rightarrow> delivery_row" where
  "finish_row state next_at status body attempted_at d = d\<lparr>wd_delivery_state := state,
     wd_attempt_count := wd_attempt_count d + 1, wd_next_attempt_at := next_at,
     wd_last_http_status := status, wd_last_response_body := body, wd_last_attempt_at := Some attempted_at\<rparr>"

definition acknowledge :: "delivery_row \<Rightarrow> string \<Rightarrow> totals_row \<Rightarrow> totals_row" where
  "acknowledge d attempted_at t = t\<lparr>at_last_notified_total_zat := wd_total_received_zat d,
     at_last_notified_event_id := Some (wd_event_id d), at_last_notified_at := Some attempted_at,
     at_last_notified_by_confirmations := wd_received_by_confirmations d,
     at_dirty_state := Dirty, at_dirty_reason := coalesce (at_dirty_reason t) ''webhook_acknowledged''\<rparr>"

definition record_webhook_delivery_success ::
  "externals \<Rightarrow> int \<Rightarrow> string \<Rightarrow> int \<Rightarrow> string \<Rightarrow> int \<Rightarrow> string \<Rightarrow> unit db_op" where
  "record_webhook_delivery_success ext i attempted_at status body duration now = in_tx (\<lambda>db.
     case find_key wd_delivery_id i (db_deliveries db) of
       None \<Rightarrow> (Inl (Database QueryReturnedNoRows), db)
     | Some d \<Rightarrow>
         andThen (writes (update_delivery i (finish_row Succeeded None (Some status) (Some body) attempted_at))) (\<lambda>_.
         andThen (insert_attempt i attempted_at (Some status) (Some body) None duration) (\<lambda>_.
         andThen (reads (\<lambda>s. acked_delivery s (wd_address_id d))) (\<lambda>acked.
           if (case acked of None \<Rightarrow> False | Some x \<Rightarrow> i < wd_delivery_id x) then ret ()
           else andThen (writes (update_totals (wd_address_id d) (acknowledge d attempted_at))) (\<lambda>_.
                andThen (queue_webhook_deliveries_in_tx ext [wd_address_id d] now) (\<lambda>_. ret ())))))
         db)"

definition record_attempt ::
  "delivery_state \<Rightarrow> int \<Rightarrow> string \<Rightarrow> string option \<Rightarrow> int option \<Rightarrow> string option \<Rightarrow> string option \<Rightarrow> int \<Rightarrow> unit db_op" where
  "record_attempt state i attempted_at next_at status body transport_error duration =
     in_tx (
       andThen (writes (update_delivery i (finish_row state next_at status body attempted_at))) (\<lambda>_.
       insert_attempt i attempted_at status body transport_error duration))"

definition record_webhook_delivery_retry ::
  "int \<Rightarrow> string \<Rightarrow> string \<Rightarrow> int option \<Rightarrow> string option \<Rightarrow> string option \<Rightarrow> int \<Rightarrow> unit db_op" where
  "record_webhook_delivery_retry i attempted_at next_at =
     record_attempt RetryWait i attempted_at (Some next_at)"

definition record_webhook_delivery_permanent_failure ::
  "int \<Rightarrow> string \<Rightarrow> int option \<Rightarrow> string option \<Rightarrow> string option \<Rightarrow> int \<Rightarrow> unit db_op" where
  "record_webhook_delivery_permanent_failure i attempted_at =
     record_attempt PermanentFailure i attempted_at None"

end
