(* ===== verification/Webhook_Ledger.thy ===== *)
theory Webhook_Ledger
  imports Db_Webhooks
begin

text \<open>
  The bookkeeping of one address: its row of totals \<open>t\<close> and its deliveries \<open>ds\<close>. The
  invariant \<open>row_ok\<close> ties the event versions, the acknowledged event and the dirty state
  together; every operation on the webhook queue is shown to keep it, locally.
\<close>

section \<open>The local view\<close>

definition deliveries_of :: "app_db \<Rightarrow> int \<Rightarrow> delivery_row list" where
  "deliveries_of db a = filter (\<lambda>d. wd_address_id d = a) (db_deliveries db)"

definition acked_in :: "totals_row \<Rightarrow> delivery_row list \<Rightarrow> delivery_row option" where
  "acked_in t ds = Option.bind (at_last_notified_event_id t) (\<lambda>e. find (\<lambda>d. wd_event_id d = e) ds)"

definition acked_id_in :: "totals_row \<Rightarrow> delivery_row list \<Rightarrow> int" where
  "acked_id_in t ds = (case acked_in t ds of None \<Rightarrow> 0 | Some d \<Rightarrow> wd_delivery_id d)"

text \<open>Deliveries whose outcome is open and that the receiver has not seen superseded.\<close>

definition pending_in :: "totals_row \<Rightarrow> delivery_row list \<Rightarrow> delivery_row list" where
  "pending_in t ds = filter (\<lambda>d. is_outstanding d \<and> acked_id_in t ds < wd_delivery_id d) ds"

lemma acked_delivery_local:
  "find_key at_address_id a (db_totals db) = Some t \<Longrightarrow> acked_delivery db a = acked_in t (deliveries_of db a)"
proof -
  have "find (\<lambda>d. wd_address_id d = a \<and> P d) ds = find P (filter (\<lambda>d. wd_address_id d = a) ds)"
    for P and ds :: "delivery_row list" by (induction ds) auto
  then show "find_key at_address_id a (db_totals db) = Some t \<Longrightarrow> acked_delivery db a = acked_in t (deliveries_of db a)"
    by (simp add: acked_delivery_def acked_in_def deliveries_of_def)
qed

lemma outstanding_local:
  assumes "find_key at_address_id a (db_totals db) = Some t"
  shows "outstanding db a = last_by wd_delivery_id (pending_in t (deliveries_of db a))"
proof -
  have "acked_id db a = acked_id_in t (deliveries_of db a)"
    by (simp add: acked_id_def acked_id_in_def acked_delivery_local [OF assms])
  moreover have "filter (\<lambda>d. wd_address_id d = a \<and> P d) ds = filter P (filter (\<lambda>d. wd_address_id d = a) ds)"
    for P and ds :: "delivery_row list" by (induction ds) auto
  ultimately show ?thesis by (simp add: outstanding_def pending_in_def deliveries_of_def)
qed

section \<open>The invariant of an address\<close>

text \<open>Each event is a version of the row, newer events have newer versions.\<close>

definition event_ok :: "totals_row \<Rightarrow> delivery_row \<Rightarrow> bool" where
  "event_ok t d \<longleftrightarrow> 0 < wd_delivery_id d \<and>
     (\<exists>v. 0 \<le> v \<and> v \<le> at_state_version t \<and> wd_event_id d = event_text (at_address_id t) v
        \<and> (v = at_state_version t \<longrightarrow> wd_total_received_zat d = at_current_total_zat t))"

definition newer_later :: "int \<Rightarrow> delivery_row \<Rightarrow> delivery_row \<Rightarrow> bool" where
  "newer_later a d e \<longleftrightarrow>
     (\<forall>v w. wd_delivery_id d < wd_delivery_id e \<longrightarrow> wd_event_id d = event_text a v \<longrightarrow>
            wd_event_id e = event_text a w \<longrightarrow> v < w)"

definition versions_ok :: "totals_row \<Rightarrow> delivery_row list \<Rightarrow> bool" where
  "versions_ok t ds \<longleftrightarrow> 0 \<le> at_state_version t \<and> (\<forall>d \<in> set ds. event_ok t d)
     \<and> (\<forall>d \<in> set ds. \<forall>e \<in> set ds. newer_later (at_address_id t) d e)
     \<and> distinct (map wd_delivery_id ds)"

text \<open>The acknowledged event is the newest that succeeded, and its total is on record.\<close>

definition ack_ok :: "totals_row \<Rightarrow> delivery_row list \<Rightarrow> bool" where
  "ack_ok t ds \<longleftrightarrow>
     (case at_last_notified_event_id t of
        None \<Rightarrow> at_last_notified_total_zat t = 0 \<and> (\<forall>d \<in> set ds. wd_delivery_state d \<noteq> Succeeded)
      | Some e \<Rightarrow> (\<exists>d \<in> set ds. wd_event_id d = e \<and> wd_delivery_state d = Succeeded
            \<and> wd_total_received_zat d = at_last_notified_total_zat t
            \<and> (\<forall>x \<in> set ds. wd_delivery_state x = Succeeded \<longrightarrow> wd_delivery_id x \<le> wd_delivery_id d)))"

text \<open>The event with the current total was given up after its last attempt.\<close>

definition gave_up :: "totals_row \<Rightarrow> delivery_row list \<Rightarrow> bool" where
  "gave_up t ds \<longleftrightarrow> (\<exists>d \<in> set ds. wd_delivery_state d = PermanentFailure \<and> acked_id_in t ds < wd_delivery_id d
     \<and> wd_total_received_zat d = at_current_total_zat t)"

text \<open>What the receiver hears last is the current total.\<close>

definition told :: "totals_row \<Rightarrow> delivery_row list \<Rightarrow> bool" where
  "told t ds \<longleftrightarrow>
     (if pending_in t ds = [] then at_last_notified_total_zat t = at_current_total_zat t
      else (\<forall>d \<in> set (pending_in t ds). (\<forall>e \<in> set (pending_in t ds). wd_delivery_id e \<le> wd_delivery_id d) \<longrightarrow>
              wd_total_received_zat d = at_current_total_zat t))"

definition row_ok :: "totals_row \<Rightarrow> delivery_row list \<Rightarrow> bool" where
  "row_ok t ds \<longleftrightarrow> versions_ok t ds \<and> ack_ok t ds \<and> (at_dirty_state t = Dirty \<or> told t ds \<or> gave_up t ds)"

lemma event_text_inject [simp]: "event_text a v = event_text b w \<longleftrightarrow> a = b \<and> v = w"
proof
  assume eq: "event_text a v = event_text b w"
  have no: "CHR '':'' \<notin> set (show_int i)" "CHR ''v'' \<notin> set (show_int i)" for i
    using show_int_chars by (fastforce simp: is_ascii_digit_def)+
  have sp: "split_once (CHR '':'') (show_int i @ '':v'' @ s) = Some (show_int i, ''v'' @ s)" for i s
    using split_once_append [OF no(1)] by simp
  from eq have "split_once (CHR '':'') (show_int a @ '':v'' @ show_int v) = split_once (CHR '':'') (show_int b @ '':v'' @ show_int w)"
    by (simp add: event_text_def)
  then show "a = b \<and> v = w" unfolding sp by simp
qed simp

lemma find_map_same:
  "(\<And>d. d \<in> set ds \<Longrightarrow> wd_event_id (g d) = wd_event_id d) \<Longrightarrow>
   find (\<lambda>d. wd_event_id d = e) (map g ds) = map_option g (find (\<lambda>d. wd_event_id d = e) ds)"
  by (induction ds) auto

section \<open>Steps that keep it\<close>

text \<open>A change of receipts: the row takes a \<open>row_step\<close>.\<close>

lemma row_step_acked: "row_step t t' \<Longrightarrow> acked_id_in t' ds = acked_id_in t ds"
  by (simp add: acked_id_in_def acked_in_def row_step_def)

lemma row_step_ok:
  assumes "row_ok t ds" "row_step t t'"
  shows "row_ok t' ds"
proof -
  have pend: "pending_in t' ds = pending_in t ds" by (simp add: pending_in_def row_step_acked [OF assms(2)])
  have "event_ok t' d" if "event_ok t d" for d
    using that assms(2) by (auto simp: event_ok_def row_step_def split: if_splits)
  then have "versions_ok t' ds"
    using assms by (auto simp: row_ok_def versions_ok_def row_step_def split: if_splits)
  moreover have "ack_ok t' ds" using assms by (auto simp: row_ok_def ack_ok_def row_step_def split: option.splits)
  moreover have "at_dirty_state t' = Dirty \<or> told t' ds \<or> gave_up t' ds"
    using assms unfolding row_ok_def told_def gave_up_def pend row_step_acked [OF assms(2)]
    by (auto simp: row_step_def split: if_splits)
  ultimately show ?thesis by (simp add: row_ok_def)
qed

text \<open>Bookkeeping of attempts: every delivery keeps what it reports and whether it is open.\<close>

definition same_report :: "delivery_row \<Rightarrow> delivery_row \<Rightarrow> bool" where
  "same_report d d' \<longleftrightarrow> wd_delivery_id d' = wd_delivery_id d \<and> wd_event_id d' = wd_event_id d
     \<and> wd_address_id d' = wd_address_id d \<and> wd_total_received_zat d' = wd_total_received_zat d"

definition same_stage :: "delivery_row \<Rightarrow> delivery_row \<Rightarrow> bool" where
  "same_stage d d' \<longleftrightarrow> same_report d d' \<and>
     (wd_delivery_state d' = wd_delivery_state d \<or> is_outstanding d \<and> is_outstanding d')"

lemma acked_map:
  assumes "\<And>d. d \<in> set ds \<Longrightarrow> same_report d (g d)"
  shows "acked_in t (map g ds) = map_option g (acked_in t ds)" "acked_id_in t (map g ds) = acked_id_in t ds"
proof -
  have f: "find (\<lambda>d. wd_event_id d = e) (map g ds) = map_option g (find (\<lambda>d. wd_event_id d = e) ds)" for e
    by (rule find_map_same) (use assms in \<open>simp add: same_report_def\<close>)
  show acked: "acked_in t (map g ds) = map_option g (acked_in t ds)"
    by (cases "at_last_notified_event_id t") (simp_all add: acked_in_def f)
  have "acked_in t ds = Some d \<Longrightarrow> wd_delivery_id (g d) = wd_delivery_id d" for d
    using assms by (cases "at_last_notified_event_id t") (auto simp: acked_in_def same_report_def dest: find_SomeD)
  with acked show "acked_id_in t (map g ds) = acked_id_in t ds"
    by (auto simp: acked_id_in_def split: option.splits)
qed

lemma versions_map:
  assumes "versions_ok t ds" "\<And>d. d \<in> set ds \<Longrightarrow> same_report d (g d)"
  shows "versions_ok t (map g ds)"
proof -
  have "map wd_delivery_id (map g ds) = map wd_delivery_id ds"
    using assms(2) by (simp add: same_report_def)
  moreover have "event_ok t (g d)" if "d \<in> set ds" for d
    using assms(1) assms(2) [OF that] that by (simp add: versions_ok_def event_ok_def same_report_def)
  moreover have "newer_later (at_address_id t) (g d) (g e)" if "d \<in> set ds" "e \<in> set ds" for d e
  proof -
    have "newer_later (at_address_id t) d e" using assms(1) that unfolding versions_ok_def by blast
    moreover from assms(2) [OF that(1)] assms(2) [OF that(2)]
    have "wd_delivery_id (g d) = wd_delivery_id d" "wd_event_id (g d) = wd_event_id d"
      "wd_delivery_id (g e) = wd_delivery_id e" "wd_event_id (g e) = wd_event_id e"
      by (simp_all add: same_report_def)
    ultimately show ?thesis unfolding newer_later_def by (simp only:)
  qed
  moreover have "distinct (map wd_delivery_id ds)" "0 \<le> at_state_version t"
    using assms(1) by (simp_all add: versions_ok_def)
  ultimately show ?thesis
    unfolding versions_ok_def set_map by (intro conjI) (blast, blast, blast, simp only:)
qed

lemma same_stage_ok:
  assumes "row_ok t ds" "\<And>d. d \<in> set ds \<Longrightarrow> same_stage d (g d)"
  shows "row_ok t (map g ds)"
proof -
  have rep: "same_report d (g d)" if "d \<in> set ds" for d using assms(2) [OF that] by (simp add: same_stage_def)
  have out: "is_outstanding (g d) = is_outstanding d" if "d \<in> set ds" for d
    using assms(2) [OF that] by (auto simp: same_stage_def is_outstanding_def)
  have succ: "wd_delivery_state (g d) = s \<longleftrightarrow> wd_delivery_state d = s" if "d \<in> set ds" "s \<in> {Succeeded, PermanentFailure}" for d s
    using assms(2) [OF that(1)] that(2) by (auto simp: same_stage_def is_outstanding_def)
  have ack: "acked_id_in t (map g ds) = acked_id_in t ds" by (rule acked_map) (rule rep)
  have pend: "pending_in t (map g ds) = map g (pending_in t ds)"
    unfolding pending_in_def filter_map comp_def
    by (intro arg_cong [where f = "map g"] filter_cong) (use out rep ack in \<open>auto simp: same_report_def\<close>)
  have sub: "set (pending_in t ds) \<subseteq> set ds" by (auto simp: pending_in_def)
  have "versions_ok t (map g ds)" using assms(1) rep by (intro versions_map) (simp_all add: row_ok_def)
  moreover have "ack_ok t (map g ds)"
    using assms(1) rep succ by (fastforce simp: row_ok_def ack_ok_def same_report_def split: option.splits)
  moreover have "told t (map g ds)" if "told t ds"
  proof -
    have "wd_delivery_id (g d) = wd_delivery_id d" "wd_total_received_zat (g d) = wd_total_received_zat d"
      if "d \<in> set (pending_in t ds)" for d
      using rep [of d] sub that by (auto simp: same_report_def)
    then show ?thesis using that unfolding told_def pend by (simp cong: ball_cong)
  qed
  moreover have "gave_up t (map g ds)" if "gave_up t ds"
  proof -
    from that obtain d where d: "d \<in> set ds" "wd_delivery_state d = PermanentFailure" "acked_id_in t ds < wd_delivery_id d"
      "wd_total_received_zat d = at_current_total_zat t" by (auto simp: gave_up_def)
    with rep [OF d(1)] succ [OF d(1), of PermanentFailure]
    show ?thesis unfolding gave_up_def ack by (intro bexI [of _ "g d"]) (auto simp: same_report_def)
  qed
  ultimately show ?thesis using assms(1) by (auto simp: row_ok_def)
qed


text \<open>The acknowledged delivery, as \<open>ack_ok\<close> describes it.\<close>

lemma same_event: "versions_ok t ds \<Longrightarrow> d \<in> set ds \<Longrightarrow> e \<in> set ds \<Longrightarrow> wd_event_id d = wd_event_id e \<Longrightarrow> d = e"
proof -
  assume v: "versions_ok t ds" and de: "d \<in> set ds" "e \<in> set ds" "wd_event_id d = wd_event_id e"
  then obtain w where w: "wd_event_id d = event_text (at_address_id t) w" "wd_event_id e = event_text (at_address_id t) w"
    by (auto simp: versions_ok_def event_ok_def)
  have "\<not> wd_delivery_id d < wd_delivery_id e" "\<not> wd_delivery_id e < wd_delivery_id d"
    using v de w unfolding versions_ok_def newer_later_def by (metis less_irrefl)+
  then have "wd_delivery_id d = wd_delivery_id e" by simp
  then show "d = e" using v de key_unique [of wd_delivery_id ds d e] by (simp add: versions_ok_def)
qed

lemma acked_cases:
  assumes "versions_ok t ds" "ack_ok t ds"
  obtains (none) "acked_in t ds = None" "acked_id_in t ds = 0" "\<forall>d \<in> set ds. wd_delivery_state d \<noteq> Succeeded"
      "at_last_notified_event_id t = None"
  | (some) d where "acked_in t ds = Some d" "acked_id_in t ds = wd_delivery_id d" "d \<in> set ds"
      "wd_delivery_state d = Succeeded" "wd_total_received_zat d = at_last_notified_total_zat t"
      "at_last_notified_event_id t = Some (wd_event_id d)"
      "\<forall>x \<in> set ds. wd_delivery_state x = Succeeded \<longrightarrow> wd_delivery_id x \<le> wd_delivery_id d"
proof (cases "at_last_notified_event_id t")
  case None
  with assms(2) show ?thesis by (intro none) (simp_all add: acked_in_def acked_id_in_def ack_ok_def)
next
  case (Some e)
  with assms(2) obtain d where d: "d \<in> set ds" "wd_event_id d = e" "wd_delivery_state d = Succeeded"
    "wd_total_received_zat d = at_last_notified_total_zat t"
    "\<forall>x \<in> set ds. wd_delivery_state x = Succeeded \<longrightarrow> wd_delivery_id x \<le> wd_delivery_id d"
    by (auto simp: ack_ok_def)
  have "acked_in t ds \<noteq> None" using d by (auto simp: acked_in_def Some find_None_iff)
  then obtain x where x: "acked_in t ds = Some x" by blast
  then have "x \<in> set ds" "wd_event_id x = e" by (auto simp: acked_in_def Some dest: find_SomeD)
  with same_event [OF assms(1)] d have "x = d" by simp
  with x d Some show ?thesis by (intro some [of d]) (simp_all add: acked_id_in_def)
qed

text \<open>One delivery is rewritten, under its own id.\<close>

definition at_id :: "int \<Rightarrow> (delivery_row \<Rightarrow> delivery_row) \<Rightarrow> delivery_row \<Rightarrow> delivery_row" where
  "at_id i f d = (if wd_delivery_id d = i then f d else d)"

lemma finish_same_report: "same_report d (at_id i (finish_row s n st b at) d)"
  by (simp add: same_report_def at_id_def finish_row_def)

lemma image_one_changed:
  assumes "d0 \<in> set ds" "\<And>d. d \<in> set ds \<Longrightarrow> d \<noteq> d0 \<Longrightarrow> g d = d"
  shows "x \<in> g ` set ds \<longleftrightarrow> x = g d0 \<or> x \<in> set ds \<and> x \<noteq> d0"
proof
  assume "x \<in> g ` set ds"
  then obtain d where "d \<in> set ds" "x = g d" by blast
  with assms(2) show "x = g d0 \<or> x \<in> set ds \<and> x \<noteq> d0" by (cases "d = d0") auto
next
  assume "x = g d0 \<or> x \<in> set ds \<and> x \<noteq> d0"
  with assms(2) [of x] assms(1) show "x \<in> g ` set ds" by (auto intro: rev_image_eqI)
qed

lemma permanent_failure_ok:
  assumes ok: "row_ok t ds" and d0: "d0 \<in> set ds" "is_outstanding d0" "wd_delivery_id d0 = i"
  shows "row_ok t (map (at_id i (finish_row PermanentFailure n st b at)) ds)"
proof -
  define g where "g = at_id i (finish_row PermanentFailure n st b at)"
  have rep: "same_report d (g d)" for d unfolding g_def by (rule finish_same_report)
  have v: "versions_ok t ds" and ack: "ack_ok t ds" using ok by (simp_all add: row_ok_def)
  have uniq: "d = d0" if "d \<in> set ds" "wd_delivery_id d = i" for d
    using v that d0 key_unique [of wd_delivery_id ds d d0] by (simp add: versions_ok_def)
  have g0: "wd_delivery_state (g d0) = PermanentFailure" using d0 by (simp add: g_def at_id_def finish_row_def)
  have g1: "g d = d" if "d \<in> set ds" "d \<noteq> d0" for d using uniq [OF that(1)] that(2) by (auto simp: g_def at_id_def)
  have acked: "acked_id_in t (map g ds) = acked_id_in t ds" by (rule acked_map) (rule rep)
  have pend: "set (pending_in t (map g ds)) = set (pending_in t ds) - {d0}"
  proof (rule set_eqI)
    fix x
    have "\<not> is_outstanding (g d0)" using g0 by (simp add: is_outstanding_def)
    moreover note image_one_changed [OF d0(1) g1, of x]
    ultimately show "x \<in> set (pending_in t (map g ds)) \<longleftrightarrow> x \<in> set (pending_in t ds) - {d0}"
      by (auto simp: pending_in_def acked)
  qed
  have "ack_ok t (map g ds)"
    using v ack
  proof (cases rule: acked_cases)
    case none
    then have "wd_delivery_state (g d) \<noteq> Succeeded" if "d \<in> set ds" for d
      using g0 g1 that by (cases "d = d0") auto
    with none ack show ?thesis by (simp add: ack_ok_def)
  next
    case (some d)
    then have "d \<noteq> d0" using d0 by (auto simp: is_outstanding_def)
    with some g1 have "g d = d" by blast
    moreover have "wd_delivery_id (g x) \<le> wd_delivery_id d" if "x \<in> set ds" "wd_delivery_state (g x) = Succeeded" for x
      using that some g0 g1 by (cases "x = d0") auto
    ultimately show ?thesis using some by (auto simp: ack_ok_def intro!: bexI [of _ d] rev_image_eqI [of d])
  qed
  moreover have "told t (map g ds) \<or> gave_up t (map g ds)" if "gave_up t ds"
  proof -
    from that obtain d where d: "d \<in> set ds" "wd_delivery_state d = PermanentFailure" "acked_id_in t ds < wd_delivery_id d"
      "wd_total_received_zat d = at_current_total_zat t" by (auto simp: gave_up_def)
    moreover have "d \<noteq> d0" using d(2) d0(2) by (auto simp: is_outstanding_def)
    ultimately have "g d = d" using g1 by blast
    with d show ?thesis by (auto simp: gave_up_def acked intro!: bexI [of _ d] rev_image_eqI [of d])
  qed
  moreover have "told t (map g ds) \<or> gave_up t (map g ds)" if told: "told t ds"
  proof (cases "d0 \<in> set (pending_in t ds)")
    case False
    with pend have "set (pending_in t (map g ds)) = set (pending_in t ds)" by simp
    with told show ?thesis by (auto simp: told_def split: if_splits)
  next
    case in_pend: True
    show ?thesis
    proof (cases "\<forall>e \<in> set (pending_in t ds). wd_delivery_id e \<le> wd_delivery_id d0")
      case True
      with told in_pend have "wd_total_received_zat d0 = at_current_total_zat t" by (auto simp: told_def split: if_splits)
      then have "gave_up t (map g ds)"
        using d0 in_pend rep [of d0] g0 unfolding gave_up_def acked
        by (intro bexI [of _ "g d0"]) (auto simp: pending_in_def same_report_def)
      then show ?thesis by blast
    next
      case False
      then obtain e where e: "e \<in> set (pending_in t ds)" "wd_delivery_id d0 < wd_delivery_id e" by force
      then have e': "e \<in> set (pending_in t (map g ds))" using pend by auto
      have "wd_total_received_zat d = at_current_total_zat t"
        if "d \<in> set (pending_in t (map g ds))" "\<forall>x \<in> set (pending_in t (map g ds)). wd_delivery_id x \<le> wd_delivery_id d" for d
      proof -
        have "wd_delivery_id e \<le> wd_delivery_id d" using that(2) e' by blast
        with e that pend have "\<forall>x \<in> set (pending_in t ds). wd_delivery_id x \<le> wd_delivery_id d" "d \<in> set (pending_in t ds)"
          by auto
        with told show ?thesis by (auto simp: told_def split: if_splits)
      qed
      with e' have "told t (map g ds)" by (auto simp: told_def)
      then show ?thesis by blast
    qed
  qed
  moreover have "versions_ok t (map g ds)" by (rule versions_map [OF v rep])
  ultimately show ?thesis using ok unfolding g_def [symmetric] row_ok_def by blast
qed


text \<open>A late success of an event older than the acknowledged one.\<close>

lemma late_success_ok:
  assumes ok: "row_ok t ds" and d0: "d0 \<in> set ds" "is_outstanding d0" "wd_delivery_id d0 = i"
    and late: "i < acked_id_in t ds"
  shows "row_ok t (map (at_id i (finish_row Succeeded n st b at)) ds)"
proof -
  define g where "g = at_id i (finish_row Succeeded n st b at)"
  have rep: "same_report d (g d)" for d unfolding g_def by (rule finish_same_report)
  have v: "versions_ok t ds" and ack: "ack_ok t ds" using ok by (simp_all add: row_ok_def)
  have uniq: "d = d0" if "d \<in> set ds" "wd_delivery_id d = i" for d
    using v that d0 key_unique [of wd_delivery_id ds d d0] by (simp add: versions_ok_def)
  have g1: "g d = d" if "d \<in> set ds" "d \<noteq> d0" for d using uniq [OF that(1)] that(2) by (auto simp: g_def at_id_def)
  have acked: "acked_id_in t (map g ds) = acked_id_in t ds" by (rule acked_map) (rule rep)
  have pend: "set (pending_in t (map g ds)) = set (pending_in t ds)"
  proof (rule set_eqI)
    fix x
    have "\<not> acked_id_in t ds < wd_delivery_id d0" "\<not> acked_id_in t ds < wd_delivery_id (g d0)"
      using late d0 rep [of d0] by (simp_all add: same_report_def)
    moreover note image_one_changed [OF d0(1) g1, of x]
    ultimately show "x \<in> set (pending_in t (map g ds)) \<longleftrightarrow> x \<in> set (pending_in t ds)"
      by (auto simp: pending_in_def acked)
  qed
  have told: "told t (map g ds)" if "told t ds"
    using that pend by (auto simp: told_def split: if_splits)
  have gave: "gave_up t (map g ds)" if "gave_up t ds"
  proof -
    from that obtain d where d: "d \<in> set ds" "wd_delivery_state d = PermanentFailure" "acked_id_in t ds < wd_delivery_id d"
      "wd_total_received_zat d = at_current_total_zat t" by (auto simp: gave_up_def)
    moreover have "d \<noteq> d0" using d(2) d0(2) by (auto simp: is_outstanding_def)
    ultimately have "g d = d" using g1 by blast
    with d show ?thesis by (auto simp: gave_up_def acked intro!: bexI [of _ d] rev_image_eqI [of d])
  qed
  have "ack_ok t (map g ds)"
    using v ack
  proof (cases rule: acked_cases)
    case none
    then show ?thesis using late d0 v by (auto simp: versions_ok_def event_ok_def)
  next
    case (some d)
    then have "d \<noteq> d0" using d0 by (auto simp: is_outstanding_def)
    with some g1 have "g d = d" by blast
    moreover have "wd_delivery_id (g x) \<le> wd_delivery_id d" if "x \<in> set ds" "wd_delivery_state (g x) = Succeeded" for x
      using that some g1 late d0 rep [of x] by (cases "x = d0") (auto simp: same_report_def)
    ultimately show ?thesis using some by (auto simp: ack_ok_def intro!: bexI [of _ d] rev_image_eqI [of d])
  qed
  moreover have "versions_ok t (map g ds)" by (rule versions_map [OF v rep])
  ultimately show ?thesis using ok told gave unfolding g_def [symmetric] row_ok_def by blast
qed

text \<open>A success of a newer event acknowledges it and leaves the row dirty.\<close>

lemma acknowledge_ok:
  assumes ok: "row_ok t ds" and d0: "d0 \<in> set ds" "is_outstanding d0" "wd_delivery_id d0 = i"
    and newer: "\<not> i < acked_id_in t ds"
  shows "row_ok (acknowledge d0 at t) (map (at_id i (finish_row Succeeded n st b at)) ds)"
proof -
  define g where "g = at_id i (finish_row Succeeded n st b at)"
  have rep: "same_report d (g d)" for d unfolding g_def by (rule finish_same_report)
  have v: "versions_ok t ds" and ack: "ack_ok t ds" using ok by (simp_all add: row_ok_def)
  have uniq: "d = d0" if "d \<in> set ds" "wd_delivery_id d = i" for d
    using v that d0 key_unique [of wd_delivery_id ds d d0] by (simp add: versions_ok_def)
  have g1: "g d = d" if "d \<in> set ds" "d \<noteq> d0" for d using uniq [OF that(1)] that(2) by (auto simp: g_def at_id_def)
  have old: "wd_delivery_id x \<le> i" if "x \<in> set ds" "wd_delivery_state x = Succeeded" for x
    using v ack
  proof (cases rule: acked_cases)
    case none
    with that show ?thesis by blast
  next
    case (some d)
    with that newer show ?thesis by force
  qed
  have "wd_delivery_id (g x) \<le> i" if "x \<in> set ds" "wd_delivery_state (g x) = Succeeded" for x
    using that old g1 d0 rep [of x] by (cases "x = d0") (auto simp: same_report_def)
  moreover have "wd_delivery_state (g d0) = Succeeded" "wd_delivery_id (g d0) = i" "wd_event_id (g d0) = wd_event_id d0"
    "wd_total_received_zat (g d0) = wd_total_received_zat d0"
    using d0 by (simp_all add: g_def at_id_def finish_row_def)
  ultimately have "ack_ok (acknowledge d0 at t) (map g ds)"
    using d0 by (auto simp: ack_ok_def acknowledge_def intro!: bexI [of _ d0])
  moreover have "versions_ok (acknowledge d0 at t) (map g ds)"
    using versions_map [OF v rep] by (simp add: versions_ok_def event_ok_def acknowledge_def)
  ultimately show ?thesis by (simp add: row_ok_def g_def acknowledge_def)
qed

text \<open>Queueing a dirty row.\<close>

lemma mark_row_ok:
  assumes "row_ok t ds" "told t ds"
  shows "row_ok (mark_clean t) ds" "row_ok ((mark_queued t)\<lparr>at_last_changed_at := c\<rparr>) ds" "row_ok (mark_queued t) ds"
proof -
  have "row_ok u ds" if "at_address_id u = at_address_id t" "at_state_version u = at_state_version t"
    "at_current_total_zat u = at_current_total_zat t" "at_last_notified_total_zat u = at_last_notified_total_zat t"
    "at_last_notified_event_id u = at_last_notified_event_id t" for u
  proof -
    have "acked_id_in u ds = acked_id_in t ds" by (simp add: acked_id_in_def acked_in_def that(5))
    then have "told u ds = told t ds" by (simp add: told_def pending_in_def that)
    moreover have "versions_ok u ds = versions_ok t ds" by (simp add: versions_ok_def event_ok_def that)
    moreover have "ack_ok u ds = ack_ok t ds"
      by (cases "at_last_notified_event_id t") (simp_all add: ack_ok_def that)
    ultimately show ?thesis using assms by (simp add: row_ok_def)
  qed
  then show "row_ok (mark_clean t) ds" "row_ok ((mark_queued t)\<lparr>at_last_changed_at := c\<rparr>) ds" "row_ok (mark_queued t) ds"
    by (simp_all add: mark_clean_def mark_queued_def)
qed


lemma mark_row_ok_gave_up:
  assumes "row_ok t ds" "gave_up t ds"
  shows "row_ok ((mark_queued t)\<lparr>at_last_changed_at := c\<rparr>) ds"
proof -
  let ?u = "(mark_queued t)\<lparr>at_last_changed_at := c\<rparr>"
  have same: "at_address_id ?u = at_address_id t" "at_state_version ?u = at_state_version t"
    "at_current_total_zat ?u = at_current_total_zat t" "at_last_notified_total_zat ?u = at_last_notified_total_zat t"
    "at_last_notified_event_id ?u = at_last_notified_event_id t" by (simp_all add: mark_queued_def)
  then have "acked_id_in ?u ds = acked_id_in t ds" by (simp add: acked_id_in_def acked_in_def)
  then have "gave_up ?u ds" using assms(2) same by (simp add: gave_up_def)
  moreover have "versions_ok ?u ds" using assms(1) same by (simp add: row_ok_def versions_ok_def event_ok_def)
  moreover have "ack_ok ?u ds"
    using assms(1) same by (cases "at_last_notified_event_id t") (simp_all add: row_ok_def ack_ok_def)
  ultimately show ?thesis by (simp add: row_ok_def)
qed

text \<open>The event of the current version exists already: it told the receiver, or was given up.\<close>

lemma current_event_known:
  assumes ok: "row_ok t ds" and d: "d \<in> set ds" "wd_event_id d = event_text (at_address_id t) (at_state_version t)"
  shows "told t ds \<or> gave_up t ds"
proof -
  have v: "versions_ok t ds" and ack: "ack_ok t ds" using ok by (simp_all add: row_ok_def)
  have total: "wd_total_received_zat d = at_current_total_zat t"
    using v d by (auto simp: versions_ok_def event_ok_def)
  have newest: "wd_delivery_id e \<le> wd_delivery_id d" if "e \<in> set ds" for e
  proof (rule ccontr)
    assume "\<not> wd_delivery_id e \<le> wd_delivery_id d"
    moreover from v that obtain w where w: "w \<le> at_state_version t" "wd_event_id e = event_text (at_address_id t) w"
      by (auto simp: versions_ok_def event_ok_def)
    ultimately have "at_state_version t < w"
      using v d that unfolding versions_ok_def newer_later_def by (metis not_le)
    with w show False by simp
  qed
  have id_eq: "e = d" if "e \<in> set ds" "wd_delivery_id e = wd_delivery_id d" for e
    using v that d key_unique [of wd_delivery_id ds e d] by (simp add: versions_ok_def)
  have pend: "\<forall>e \<in> set (pending_in t ds). e \<in> set ds \<and> acked_id_in t ds < wd_delivery_id e \<and> is_outstanding e"
    by (auto simp: pending_in_def)
  show ?thesis
  proof (cases "wd_delivery_state d = Succeeded")
    case True
    show ?thesis
      using v ack
    proof (cases rule: acked_cases)
      case none
      with True d show ?thesis by blast
    next
      case (some x)
      with True d newest have "wd_delivery_id x = wd_delivery_id d" by (simp add: order_antisym)
      with id_eq some have x: "x = d" by blast
      have "pending_in t ds = []"
      proof (rule ccontr)
        assume "pending_in t ds \<noteq> []"
        then obtain e where "e \<in> set (pending_in t ds)" by (cases "pending_in t ds") auto
        with pend newest [of e] some(2) x show False by force
      qed
      then show ?thesis using some x total by (simp add: told_def)
    qed
  next
    case False
    have less: "acked_id_in t ds < wd_delivery_id d"
      using v ack
    proof (cases rule: acked_cases)
      case none
      then show ?thesis using v d by (simp add: versions_ok_def event_ok_def)
    next
      case (some x)
      with False have "x \<noteq> d" by auto
      with some newest [of x] id_eq [of x] show ?thesis by force
    qed
    show ?thesis
    proof (cases "wd_delivery_state d = PermanentFailure")
      case True
      with less total d show ?thesis by (auto simp: gave_up_def)
    next
      case False
      with \<open>wd_delivery_state d \<noteq> Succeeded\<close> have "is_outstanding d"
        by (cases "wd_delivery_state d") (simp_all add: is_outstanding_def)
      with d less have d_pend: "d \<in> set (pending_in t ds)" by (simp add: pending_in_def)
      have "wd_total_received_zat e = at_current_total_zat t"
        if "e \<in> set (pending_in t ds)" "\<forall>x \<in> set (pending_in t ds). wd_delivery_id x \<le> wd_delivery_id e" for e
        using that d_pend pend newest [of e] id_eq [of e] total by (metis order_antisym)
      with d_pend show ?thesis by (auto simp: told_def)
    qed
  qed
qed

text \<open>A new event for the current version.\<close>

lemma new_event_ok:
  assumes ok: "row_ok t ds" and new: "\<forall>d \<in> set ds. wd_event_id d \<noteq> event_text (at_address_id t) (at_state_version t)"
    and n: "wd_event_id n = event_text (at_address_id t) (at_state_version t)" "wd_delivery_state n = Queued"
      "wd_total_received_zat n = at_current_total_zat t" "0 < wd_delivery_id n"
    and later: "\<forall>d \<in> set ds. wd_delivery_id d < wd_delivery_id n"
  shows "row_ok t (ds @ [n]) \<and> told t (ds @ [n])"
proof -
  have v: "versions_ok t ds" and ack: "ack_ok t ds" using ok by (simp_all add: row_ok_def)
  have "newer_later (at_address_id t) d n" if "d \<in> set ds" for d
    using v new n(1) that by (fastforce simp: versions_ok_def event_ok_def newer_later_def)
  moreover have "newer_later (at_address_id t) n d" if "d \<in> set (ds @ [n])" for d
    using later that by (auto simp: newer_later_def)
  moreover have "event_ok t n" using n v by (simp add: event_ok_def versions_ok_def)
  ultimately have v': "versions_ok t (ds @ [n])" using v later by (auto simp: versions_ok_def)
  have acked: "acked_id_in t (ds @ [n]) = acked_id_in t ds"
    using v ack
  proof (cases rule: acked_cases)
    case none
    then show ?thesis by (simp add: acked_id_in_def acked_in_def)
  next
    case (some d)
    have app: "find P xs = Some x \<Longrightarrow> find P (xs @ ys) = Some x" for P x ys and xs :: "delivery_row list"
      by (induction xs) (auto split: if_splits)
    from some have "acked_in t (ds @ [n]) = Some d" by (simp add: acked_in_def app)
    with some show ?thesis by (simp add: acked_id_in_def)
  qed
  have "acked_id_in t ds < wd_delivery_id n"
    using v ack by (cases rule: acked_cases) (use later n(4) in auto)
  then have pend: "pending_in t (ds @ [n]) = pending_in t ds @ [n]"
    using n(2) by (simp add: pending_in_def acked is_outstanding_def)
  have "wd_total_received_zat e = at_current_total_zat t"
    if "e \<in> set (pending_in t ds @ [n])" "\<forall>x \<in> set (pending_in t ds @ [n]). wd_delivery_id x \<le> wd_delivery_id e" for e
  proof (cases "e = n")
    case False
    with that(1) have "e \<in> set ds" by (auto simp: pending_in_def)
    with later that(2) show ?thesis by force
  qed (simp add: n)
  then have told: "told t (ds @ [n])" unfolding told_def pend by simp
  have "ack_ok t (ds @ [n])"
    using v ack
  proof (cases rule: acked_cases)
    case none
    with ack n(2) show ?thesis by (simp add: ack_ok_def)
  next
    case (some d)
    then show ?thesis using n(2) by (auto simp: ack_ok_def intro!: bexI [of _ d])
  qed
  with v' told show ?thesis by (simp add: row_ok_def)
qed

text \<open>What the comparison with the last word decides.\<close>

lemma last_word_told:
  assumes "find_key at_address_id a (db_totals db) = Some t" "at_address_id t = a"
    and v: "versions_ok t (deliveries_of db a)"
    and "(at_current_total_zat t, c) = last_word db t"
  shows "told t (deliveries_of db a)"
proof (cases "outstanding db a")
  case None
  then have "pending_in t (deliveries_of db a) = []" by (simp add: outstanding_local [OF assms(1)])
  with None assms show ?thesis by (simp add: told_def last_word_def)
next
  case (Some d)
  then have d: "last_by wd_delivery_id (pending_in t (deliveries_of db a)) = Some d"
    by (simp add: outstanding_local [OF assms(1)])
  note d' = last_by_Some [OF d]
  have total: "wd_total_received_zat d = at_current_total_zat t" using assms(2,4) Some by (simp add: last_word_def)
  have "wd_total_received_zat e = at_current_total_zat t"
    if "e \<in> set (pending_in t (deliveries_of db a))"
      "\<forall>x \<in> set (pending_in t (deliveries_of db a)). wd_delivery_id x \<le> wd_delivery_id e" for e
  proof -
    have "wd_delivery_id e = wd_delivery_id d" using that d' by (simp add: order_antisym)
    moreover have "distinct (map wd_delivery_id (deliveries_of db a))" using v by (simp add: versions_ok_def)
    moreover have "e \<in> set (deliveries_of db a)" "d \<in> set (deliveries_of db a)"
      using that d' by (auto simp: pending_in_def)
    ultimately have "e = d" using key_unique [of wd_delivery_id "deliveries_of db a" e d] by simp
    with total show ?thesis by simp
  qed
  with d' show ?thesis by (auto simp: told_def)
qed

end
