(* ===== verification/Notification_Safety.thy ===== *)
theory Notification_Safety
  imports Webhook_Ledger
begin

text \<open>
  The service as a transition system. Its tasks (the HTTP handlers, the chain synchronisation
  and the webhook worker) share only the database, and each operation on it is one transaction,
  so a run of the service is a sequence of the operations below in any order. The invariant of
  the reachable databases says that no payment notification is lost.
\<close>

section \<open>The invariant of the queue\<close>

definition notify_ok :: "app_db \<Rightarrow> bool" where
  "notify_ok db \<longleftrightarrow>
     distinct (map wd_delivery_id (db_deliveries db))
     \<and> (\<forall>d \<in> set (db_deliveries db). wd_address_id d \<in> at_address_id ` set (db_totals db))
     \<and> (\<forall>t \<in> set (db_totals db). row_ok t (deliveries_of db (at_address_id t)))"

lemma list_all2_right:
  "list_all2 R xs ys \<Longrightarrow> y \<in> set ys \<Longrightarrow> \<exists>x \<in> set xs. R x y"
  by (induction rule: list_all2_induct) auto

lemma list_all2_weaken: "list_all2 R xs ys \<Longrightarrow> (\<And>x y. R x y \<Longrightarrow> Q x y) \<Longrightarrow> list_all2 Q xs ys"
  by (rule list_all2_mono)

text \<open>A step of the totals rows alone.\<close>

lemma notify_rows:
  assumes "notify_ok db" "db_deliveries db' = db_deliveries db" "list_all2 R (db_totals db) (db_totals db')"
    and "\<And>t t'. R t t' \<Longrightarrow> at_address_id t' = at_address_id t"
    and "\<And>t t' ds. R t t' \<Longrightarrow> row_ok t ds \<Longrightarrow> row_ok t' ds"
  shows "notify_ok db'"
proof -
  have ds: "deliveries_of db' a = deliveries_of db a" for a by (simp add: deliveries_of_def assms(2))
  have "map at_address_id (db_totals db') = map at_address_id (db_totals db)"
    using assms(3,4) by (induction rule: list_all2_induct) auto
  then have keys: "at_address_id ` set (db_totals db') = at_address_id ` set (db_totals db)"
    by (metis set_map)
  have "row_ok t' (deliveries_of db' (at_address_id t'))" if "t' \<in> set (db_totals db')" for t'
  proof -
    from list_all2_right [OF assms(3) that] obtain t where t: "t \<in> set (db_totals db)" "R t t'" by blast
    with assms(1) have "row_ok t (deliveries_of db (at_address_id t))" by (simp add: notify_ok_def)
    with t assms(4,5) show ?thesis by (simp add: ds)
  qed
  with assms(1,2) keys show ?thesis by (simp add: notify_ok_def)
qed

lemma notify_ledger_step: "notify_ok db \<Longrightarrow> ledger_step db db' \<Longrightarrow> notify_ok db'"
proof -
  assume n: "notify_ok db" and l: "ledger_step db db'"
  have "db_deliveries db' = db_deliveries db" using l unfolding ledger_step_def
    by (metis app_db.select_convs(11) app_db.surjective app_db.update_convs(7,8))
  moreover have "list_all2 row_step (db_totals db) (db_totals db')" using l by (simp add: ledger_step_def)
  ultimately show ?thesis
    by (rule notify_rows [OF n]) (auto simp: row_step_def intro: row_step_ok)
qed

lemma only_arrays_ok: "only_arrays t t' \<Longrightarrow> row_ok t ds \<Longrightarrow> row_ok t' ds"
proof -
  assume "only_arrays t t'" "row_ok t ds"
  note F = only_arrays_fields [OF \<open>only_arrays t t'\<close>]
  have acked: "acked_id_in t' ds = acked_id_in t ds" by (simp add: acked_id_in_def acked_in_def F)
  have "told t' ds = told t ds" "gave_up t' ds = gave_up t ds"
    by (simp_all add: told_def gave_up_def pending_in_def acked F)
  moreover have "versions_ok t' ds = versions_ok t ds" by (simp add: versions_ok_def event_ok_def F)
  moreover have "ack_ok t' ds = ack_ok t ds" by (cases "at_last_notified_event_id t") (simp_all add: ack_ok_def F)
  ultimately show ?thesis using \<open>row_ok t ds\<close> by (simp add: row_ok_def F)
qed

lemma notify_only_arrays:
  "notify_ok db \<Longrightarrow> db_deliveries db' = db_deliveries db \<Longrightarrow> list_all2 only_arrays (db_totals db) (db_totals db') \<Longrightarrow> notify_ok db'"
  by (rule notify_rows [where R = only_arrays]) (auto simp: only_arrays_fields intro: only_arrays_ok)

lemma row_ok_new: "row_ok (clean_totals a now) []"
  by (simp add: row_ok_def versions_ok_def ack_ok_def told_def pending_in_def clean_totals_def)

lemma notify_add_address:
  assumes "notify_ok db" "addresses_ok db" "\<not> address_exists db i" "ia_address_id row = i"
  shows "notify_ok (add_address row (clean_totals i now) db)"
proof -
  have "map at_address_id (db_totals db) = map ia_address_id (db_issued_addresses db)"
    using assms(2) by (simp add: addresses_ok_def)
  then have "at_address_id ` set (db_totals db) = ia_address_id ` set (db_issued_addresses db)" by (metis set_map)
  with assms(3) have fresh: "i \<notin> at_address_id ` set (db_totals db)" by (simp add: address_exists_def)
  then have "deliveries_of db i = []" using assms(1) by (auto simp: notify_ok_def deliveries_of_def filter_empty_conv)
  then have "row_ok (clean_totals i now) (deliveries_of db (at_address_id (clean_totals i now)))"
    using row_ok_new by (simp add: clean_totals_def)
  with assms(1) show ?thesis by (auto simp: notify_ok_def deliveries_of_def)
qed

section \<open>Updating deliveries\<close>

lemma update_delivery_map: "db_deliveries (update_delivery i f db) = map (at_id i f) (db_deliveries db)"
  by (simp add: update_delivery_def update_where_def at_id_def)

lemma update_delivery_tables [simp]:
  "db_totals (update_delivery i f db) = db_totals db"
  "db_receipts (update_delivery i f db) = db_receipts db"
  "db_issued_addresses (update_delivery i f db) = db_issued_addresses db"
  "db_attempts (update_delivery i f db) = db_attempts db"
  by (simp_all add: update_delivery_def)

lemma deliveries_of_update:
  assumes "\<And>d. wd_address_id (f d) = wd_address_id d"
  shows "deliveries_of (update_delivery i f db) a = map (at_id i f) (deliveries_of db a)"
proof -
  have "filter (\<lambda>d. wd_address_id d = a) (map (at_id i f) ds) = map (at_id i f) (filter (\<lambda>d. wd_address_id d = a) ds)" for ds
    by (induction ds) (auto simp: at_id_def assms)
  then show ?thesis by (simp add: deliveries_of_def update_delivery_map)
qed

lemma at_id_elsewhere: "(\<And>d. d \<in> set ds \<Longrightarrow> wd_delivery_id d \<noteq> i) \<Longrightarrow> map (at_id i f) ds = ds"
  by (rule map_idI) (simp add: at_id_def)

text \<open>Updating one delivery concerns only the row of its address.\<close>

lemma notify_rewrite:
  assumes n: "notify_ok db" and rep: "\<And>d. same_report d (f d)"
    and d0: "find_key wd_delivery_id i (db_deliveries db) = Some d0"
    and dels: "db_deliveries db' = map (at_id i f) (db_deliveries db)"
    and rows: "\<And>t. t \<in> set (db_totals db') \<Longrightarrow>
      if at_address_id t = wd_address_id d0 then row_ok t (map (at_id i f) (deliveries_of db (wd_address_id d0)))
      else t \<in> set (db_totals db)"
    and keys: "at_address_id ` set (db_totals db') = at_address_id ` set (db_totals db)"
  shows "notify_ok db'"
proof -
  have addr: "wd_address_id (at_id i f d) = wd_address_id d" for d using rep [of d] by (simp add: at_id_def same_report_def)
  have of': "deliveries_of db' a = map (at_id i f) (deliveries_of db a)" for a
    by (simp add: deliveries_of_def dels filter_map comp_def addr)
  have ids: "map wd_delivery_id (db_deliveries db') = map wd_delivery_id (db_deliveries db)"
    using rep by (auto simp: dels at_id_def same_report_def)
  have dist: "distinct (map wd_delivery_id (db_deliveries db))" using n by (simp add: notify_ok_def)
  from find_key_Some [OF d0] have d0': "d0 \<in> set (db_deliveries db)" "wd_delivery_id d0 = i" by auto
  have "row_ok t (deliveries_of db' (at_address_id t))" if "t \<in> set (db_totals db')" for t
  proof (cases "at_address_id t = wd_address_id d0")
    case True
    with rows [OF that] show ?thesis by (simp add: of')
  next
    case False
    then have t: "t \<in> set (db_totals db)" using rows [OF that] by simp
    have "wd_delivery_id d \<noteq> i" if "d \<in> set (deliveries_of db (at_address_id t))" for d
    proof
      assume "wd_delivery_id d = i"
      with that d0' key_unique [OF dist, of d d0] have "d = d0" by (simp add: deliveries_of_def)
      with that False show False by (simp add: deliveries_of_def)
    qed
    then have "map (at_id i f) (deliveries_of db (at_address_id t)) = deliveries_of db (at_address_id t)"
      by (rule at_id_elsewhere)
    with n t show ?thesis by (simp add: notify_ok_def of')
  qed
  moreover have "wd_address_id d \<in> at_address_id ` set (db_totals db)" if "d \<in> set (db_deliveries db')" for d
    using n that by (auto simp: notify_ok_def dels addr)
  moreover have "distinct (map wd_delivery_id (db_deliveries db'))" using ids dist by simp
  ultimately show ?thesis unfolding notify_ok_def keys by blast
qed

lemma notify_update_delivery:
  assumes n: "notify_ok db" and rep: "\<And>d. same_report d (f d)"
    and d0: "find_key wd_delivery_id i (db_deliveries db) = Some d0"
    and row: "\<And>t. t \<in> set (db_totals db) \<Longrightarrow> at_address_id t = wd_address_id d0 \<Longrightarrow>
       row_ok t (map (at_id i f) (deliveries_of db (wd_address_id d0)))"
  shows "notify_ok (update_delivery i f db)"
  by (rule notify_rewrite [OF n rep d0]) (auto simp: update_delivery_map row)

lemma delivery_of_row:
  assumes "find_key wd_delivery_id i (db_deliveries db) = Some d0"
  shows "d0 \<in> set (deliveries_of db (wd_address_id d0))" "wd_delivery_id d0 = i" "d0 \<in> set (db_deliveries db)"
  using find_key_Some [OF assms] by (auto simp: deliveries_of_def)

text \<open>Claiming, interrupting and failing keep the invariant.\<close>

lemma notify_same_stage:
  assumes n: "notify_ok db" and d0: "find_key wd_delivery_id i (db_deliveries db) = Some d0"
    and f: "\<And>d. same_report d (f d)" "is_outstanding d0" "is_outstanding (f d0)"
  shows "notify_ok (update_delivery i f db)"
proof (rule notify_update_delivery [OF n f(1) d0])
  fix t assume t: "t \<in> set (db_totals db)" "at_address_id t = wd_address_id d0"
  let ?ds = "deliveries_of db (wd_address_id d0)"
  have ok: "row_ok t ?ds" using n t by (auto simp: notify_ok_def)
  have "same_stage d (at_id i f d)" if "d \<in> set ?ds" for d
  proof (cases "wd_delivery_id d = i")
    case True
    have "distinct (map wd_delivery_id ?ds)" using ok by (simp add: row_ok_def versions_ok_def)
    with True that delivery_of_row [OF d0] key_unique [of wd_delivery_id ?ds d d0] have "d = d0" by simp
    with True f show ?thesis by (simp add: same_stage_def at_id_def)
  qed (simp add: same_stage_def same_report_def at_id_def)
  with ok show "row_ok t (map (at_id i f) ?ds)" by (intro same_stage_ok)
qed

lemma notify_permanent_failure:
  assumes n: "notify_ok db" and d0: "find_key wd_delivery_id i (db_deliveries db) = Some d0" "is_outstanding d0"
  shows "notify_ok (update_delivery i (finish_row PermanentFailure nx st b at) db)"
proof (rule notify_update_delivery [OF n _ d0(1)])
  show "same_report d (finish_row PermanentFailure nx st b at d)" for d by (simp add: same_report_def finish_row_def)
  fix t assume "t \<in> set (db_totals db)" "at_address_id t = wd_address_id d0"
  with n have "row_ok t (deliveries_of db (wd_address_id d0))" by (auto simp: notify_ok_def)
  with delivery_of_row [OF d0(1)] d0(2)
  show "row_ok t (map (at_id i (finish_row PermanentFailure nx st b at)) (deliveries_of db (wd_address_id d0)))"
    by (intro permanent_failure_ok)
qed


section \<open>Updating the totals row of an address\<close>

lemma update_totals_tables [simp]:
  "db_deliveries (update_totals a h db) = db_deliveries db"
  "db_receipts (update_totals a h db) = db_receipts db"
  "db_issued_addresses (update_totals a h db) = db_issued_addresses db"
  "deliveries_of (update_totals a h db) b = deliveries_of db b"
  by (simp_all add: update_totals_def deliveries_of_def)

lemma in_update_totals:
  assumes "t' \<in> set (db_totals (update_totals a h db))"
  obtains t where "t \<in> set (db_totals db)" "t' = (if at_address_id t = a then h t else t)"
  using assms unfolding update_totals_def by (auto elim: in_update_where)

text \<open>An update of totals writes what is reported about an address, not what it received.\<close>

definition same_money :: "totals_row \<Rightarrow> totals_row \<Rightarrow> bool" where
  "same_money t t' \<longleftrightarrow> at_address_id t' = at_address_id t \<and> at_current_total_zat t' = at_current_total_zat t
     \<and> at_state_version t' = at_state_version t"

lemma same_money_marks [simp]:
  "same_money t (mark_clean t)" "same_money t (mark_queued t)"
  "same_money t ((mark_queued t)\<lparr>at_last_changed_at := c\<rparr>)" "same_money t (acknowledge d at t)"
  by (simp_all add: same_money_def mark_clean_def mark_queued_def acknowledge_def)

lemma notify_update_totals:
  assumes n: "notify_ok db" and key: "\<And>t. at_address_id (h t) = at_address_id t"
    and row: "\<And>t. t \<in> set (db_totals db) \<Longrightarrow> at_address_id t = a \<Longrightarrow> row_ok (h t) (deliveries_of db a)"
  shows "notify_ok (update_totals a h db)"
proof -
  have "row_ok t' (deliveries_of db (at_address_id t'))" if t': "t' \<in> set (db_totals (update_totals a h db))" for t'
  proof -
    from t' obtain t where t: "t \<in> set (db_totals db)" "t' = (if at_address_id t = a then h t else t)"
      by (rule in_update_totals)
    with n row key show ?thesis by (cases "at_address_id t = a") (auto simp: notify_ok_def)
  qed
  moreover have "at_address_id ` set (db_totals (update_totals a h db)) = at_address_id ` set (db_totals db)"
  proof -
    have "map at_address_id (update_where p h ts) = map at_address_id ts" for p ts
      by (induction ts) (auto simp: update_where_def key)
    from this [of "\<lambda>t. at_address_id t = a" "db_totals db"] show ?thesis
      unfolding update_totals_def by simp (metis set_map)
  qed
  ultimately show ?thesis using n by (simp add: notify_ok_def)
qed

section \<open>Steps of the queue\<close>

definition webhook_step :: "app_db \<Rightarrow> app_db \<Rightarrow> bool" where
  "webhook_step db db' \<longleftrightarrow>
     db' = db\<lparr>db_totals := db_totals db', db_deliveries := db_deliveries db', db_attempts := db_attempts db'\<rparr>
     \<and> list_all2 same_money (db_totals db) (db_totals db')"

lemma webhook_step_refl [simp]: "webhook_step db db"
  by (simp add: webhook_step_def same_money_def list_all2_refl)

lemma webhook_step_trans:
  assumes "webhook_step db d1" "webhook_step d1 d2"
  shows "webhook_step db d2"
proof -
  have "list_all2 same_money (db_totals db) (db_totals d2)"
    using assms list_all2_trans [of same_money same_money same_money] by (auto simp: webhook_step_def same_money_def)
  with assms show ?thesis by (cases db; cases d1; cases d2) (simp add: webhook_step_def)
qed

lemma webhook_step_update_totals: "(\<And>t. same_money t (h t)) \<Longrightarrow> webhook_step db (update_totals a h db)"
  by (simp add: webhook_step_def update_totals_def update_where_def list_all2_conv_all_nth same_money_def)

lemma webhook_step_deliveries [simp]:
  "webhook_step db (update_delivery i f db)" "webhook_step db (insert_delivery a e z ob body c db)"
  "webhook_step db (db\<lparr>db_attempts := x\<rparr>)"
  by (simp_all add: webhook_step_def update_delivery_def insert_delivery_def same_money_def list_all2_refl)

lemma webhook_step_tables:
  assumes "webhook_step db db'"
  shows "db_receipts db' = db_receipts db" "db_issued_addresses db' = db_issued_addresses db"
    "db_receivers db' = db_receivers db" "db_payment_links db' = db_payment_links db"
    "map at_address_id (db_totals db') = map at_address_id (db_totals db)"
proof -
  obtain x y z where db': "db' = db\<lparr>db_totals := x, db_deliveries := y, db_attempts := z\<rparr>"
    using assms unfolding webhook_step_def by blast
  then show "db_receipts db' = db_receipts db" "db_issued_addresses db' = db_issued_addresses db"
    "db_receivers db' = db_receivers db" "db_payment_links db' = db_payment_links db" by simp_all
  have "list_all2 same_money (db_totals db) (db_totals db')" using assms by (simp add: webhook_step_def)
  then show "map at_address_id (db_totals db') = map at_address_id (db_totals db)"
    by (induction rule: list_all2_induct) (auto simp: same_money_def)
qed

lemma webhook_step_keeps:
  assumes "webhook_step db db'"
  shows "addresses_ok db \<Longrightarrow> addresses_ok db'" "ledger_ok db \<Longrightarrow> ledger_ok db'"
proof -
  note T = webhook_step_tables [OF assms]
  have ex: "address_exists db' = address_exists db" by (simp add: fun_eq_iff address_exists_def T)
  show "addresses_ok db'" if "addresses_ok db" using that by (simp add: addresses_ok_def T ex)
  have "total_current db' t'" if "t' \<in> set (db_totals db')" "totals_current db" for t'
  proof -
    from assms have "list_all2 same_money (db_totals db) (db_totals db')" by (simp add: webhook_step_def)
    from list_all2_right [OF this that(1)] obtain t where "t \<in> set (db_totals db)" "same_money t t'" by blast
    with that(2) show ?thesis
      by (simp add: totals_current_def list_all_iff total_current_def eligible_total_rows T same_money_def)
  qed
  then show "ledger_ok db'" if "ledger_ok db"
    using that by (simp add: ledger_ok_def totals_keys_ok_def receipt_uids_ok_def totals_current_def list_all_iff T)
qed

lemma row_unique: "totals_keys_ok db \<Longrightarrow> t \<in> set (db_totals db) \<Longrightarrow> u \<in> set (db_totals db) \<Longrightarrow>
  at_address_id t = at_address_id u \<Longrightarrow> t = u"
  using key_unique [of at_address_id "db_totals db" t u] by (simp add: totals_keys_ok_def)

lemma deliveries_of_insert:
  "e \<notin> set (map wd_event_id (db_deliveries db)) \<Longrightarrow>
   deliveries_of (insert_delivery a e z ob body c db) b =
     (if b = a then deliveries_of db b @ [new_delivery a e z ob body c (db_deliveries db)] else deliveries_of db b)"
  by (simp add: insert_delivery_def deliveries_of_def new_delivery_def)

lemma event_owner:
  assumes "notify_ok db" "event_text a v \<in> set (map wd_event_id (db_deliveries db))"
  shows "\<exists>d \<in> set (deliveries_of db a). wd_event_id d = event_text a v"
proof -
  from assms(2) obtain d where d: "d \<in> set (db_deliveries db)" "wd_event_id d = event_text a v" by auto
  with assms(1) obtain t where t: "t \<in> set (db_totals db)" "at_address_id t = wd_address_id d"
    by (auto simp: notify_ok_def)
  then have "row_ok t (deliveries_of db (wd_address_id d))" using assms(1) by (auto simp: notify_ok_def)
  moreover have "d \<in> set (deliveries_of db (wd_address_id d))" using d by (simp add: deliveries_of_def)
  ultimately obtain w where "wd_event_id d = event_text (wd_address_id d) w"
    using t by (auto simp: row_ok_def versions_ok_def event_ok_def)
  with d have "wd_address_id d = a" by simp
  with d show ?thesis by (auto simp: deliveries_of_def)
qed

lemma queue_event_ok:
  assumes n: "notify_ok db" and keys: "totals_keys_ok db" and t: "t \<in> set (db_totals db)"
    and run: "queue_event ext now address t db = (Inr x, db')"
  shows "notify_ok db' \<and> webhook_step db db' \<and> (\<forall>u \<in> set (db_totals db'). at_address_id u = at_address_id t \<longrightarrow> at_dirty_state u \<noteq> Dirty)"
proof -
  define a where "a = at_address_id t"
  define e where "e = event_text a (at_state_version t)"
  define mark where "mark = (\<lambda>u. (mark_queued u)\<lparr>at_last_changed_at := now\<rparr>)"
  from run obtain body where db': "db' = update_totals a mark
      (insert_delivery a e (at_current_total_zat t) now body (at_received_by_confirmations t) db)"
    by (auto simp: queue_event_def Let_def andThen_Inr a_def e_def mark_def)
  let ?d = "insert_delivery a e (at_current_total_zat t) now body (at_received_by_confirmations t) db"
  have ok: "row_ok t (deliveries_of db a)" using n t by (simp add: notify_ok_def a_def)
  have only: "u = t" if "u \<in> set (db_totals db)" "at_address_id u = a" for u
    using row_unique [OF keys that(1) t] that(2) by (simp add: a_def)
  have totals: "db_totals ?d = db_totals db" by (simp add: insert_delivery_def)
  have mark_key: "at_address_id (mark u) = at_address_id u" for u by (simp add: mark_def mark_queued_def)
  have "notify_ok db'"
  proof (cases "e \<in> set (map wd_event_id (db_deliveries db))")
    case True
    then have d: "?d = db" by (simp add: insert_delivery_def)
    from event_owner [OF n True [unfolded e_def]] obtain d where
      "d \<in> set (deliveries_of db a)" "wd_event_id d = event_text (at_address_id t) (at_state_version t)"
      by (auto simp: a_def)
    from current_event_known [OF ok this] have "row_ok (mark t) (deliveries_of db a)"
      unfolding mark_def using mark_row_ok(2) [OF ok] mark_row_ok_gave_up [OF ok] by blast
    then show ?thesis unfolding db' d using only by (intro notify_update_totals [OF n mark_key]) blast
  next
    case False
    let ?n = "new_delivery a e (at_current_total_zat t) now body (at_received_by_confirmations t) (db_deliveries db)"
    have later: "wd_delivery_id d < wd_delivery_id ?n" if "d \<in> set (db_deliveries db)" for d
      using next_rowid_greater [of "wd_delivery_id d" "map wd_delivery_id (db_deliveries db)"] that
      by (simp add: new_delivery_def)
    have pos: "0 < wd_delivery_id ?n"
    proof (cases "db_deliveries db")
      case Nil
      then show ?thesis by (simp add: new_delivery_def next_rowid_def)
    next
      case (Cons d ds)
      then have d: "d \<in> set (db_deliveries db)" by simp
      with n obtain u where u: "u \<in> set (db_totals db)" "at_address_id u = wd_address_id d" by (auto simp: notify_ok_def)
      with n have "row_ok u (deliveries_of db (wd_address_id d))" by (auto simp: notify_ok_def)
      with d have "0 < wd_delivery_id d" by (simp add: row_ok_def versions_ok_def event_ok_def deliveries_of_def)
      with later [OF d] show ?thesis by linarith
    qed
    have new: "row_ok t (deliveries_of db a @ [?n]) \<and> told t (deliveries_of db a @ [?n])"
    proof (rule new_event_ok [OF ok])
      show "\<forall>d \<in> set (deliveries_of db a). wd_event_id d \<noteq> event_text (at_address_id t) (at_state_version t)"
        using False by (force simp: e_def a_def deliveries_of_def)
      show "wd_event_id ?n = event_text (at_address_id t) (at_state_version t)" "wd_delivery_state ?n = Queued"
        "wd_total_received_zat ?n = at_current_total_zat t" by (simp_all add: new_delivery_def e_def a_def)
      show "0 < wd_delivery_id ?n" by (rule pos)
      show "\<forall>d \<in> set (deliveries_of db a). wd_delivery_id d < wd_delivery_id ?n"
        using later by (simp add: deliveries_of_def)
    qed
    have dels: "deliveries_of ?d b = (if b = a then deliveries_of db b @ [?n] else deliveries_of db b)" for b
      by (rule deliveries_of_insert [OF False])
    have "db_deliveries ?d = db_deliveries db @ [?n]" using False by (simp add: insert_delivery_def)
    moreover have "wd_delivery_id ?n \<notin> set (map wd_delivery_id (db_deliveries db))"
      by (simp add: new_delivery_def next_rowid_fresh del: set_map)
    moreover have "wd_address_id ?n = a" by (simp add: new_delivery_def)
    moreover have "row_ok u (deliveries_of ?d (at_address_id u))" if "u \<in> set (db_totals db)" for u
    proof (cases "at_address_id u = a")
      case True
      with only [OF that True] new show ?thesis by (simp add: dels)
    next
      case False
      with n that show ?thesis by (simp add: dels notify_ok_def)
    qed
    moreover have "a \<in> at_address_id ` set (db_totals db)" using t by (simp add: a_def)
    ultimately have "notify_ok ?d" using n by (simp add: notify_ok_def totals)
    moreover have "row_ok (mark u) (deliveries_of ?d a)" if "u \<in> set (db_totals ?d)" "at_address_id u = a" for u
      using only [of u] that new mark_row_ok(2) [of t "deliveries_of db a @ [?n]" now] by (simp add: totals dels mark_def)
    ultimately show ?thesis unfolding db' by (intro notify_update_totals [OF _ mark_key])
  qed
  moreover have "webhook_step db db'"
    unfolding db' by (rule webhook_step_trans [OF webhook_step_deliveries(2) webhook_step_update_totals]) (simp add: mark_def)
  moreover have "at_dirty_state u \<noteq> Dirty" if "u \<in> set (db_totals db')" "at_address_id u = a" for u
    using that(1) unfolding db' by (rule in_update_totals) (use that(2) in \<open>auto simp: mark_def mark_queued_def\<close>)
  ultimately show ?thesis by (simp add: a_def)
qed


lemma find_row:
  "totals_keys_ok db \<Longrightarrow> find_key at_address_id a (db_totals db) = Some t \<Longrightarrow> u \<in> set (db_totals db) \<Longrightarrow>
   at_address_id u = a \<Longrightarrow> u = t"
  using row_unique find_key_Some by metis

text \<open>Queueing one address: afterwards it is not dirty.\<close>

lemma queue_address_ok:
  assumes n: "notify_ok db" and ok: "addresses_ok db"
    and run: "queue_address ext now a q db = (Inr q', db')"
  shows "notify_ok db' \<and> webhook_step db db'
    \<and> (\<forall>u \<in> set (db_totals db'). if at_address_id u = a then at_dirty_state u \<noteq> Dirty else u \<in> set (db_totals db))"
proof (cases "find_key at_address_id a (db_totals db)")
  case None
  then have "a \<notin> at_address_id ` set (db_totals db)" by (simp add: find_key_None)
  with None run n show ?thesis by (auto simp: queue_address_def)
next
  case (Some t)
  have keys: "totals_keys_ok db" using ok by (rule addresses_ok_totals_keys)
  from find_key_Some [OF Some] have t: "t \<in> set (db_totals db)" "at_address_id t = a" by auto
  have sets: "at_address_id ` set (db_totals db) = ia_address_id ` set (db_issued_addresses db)"
    using ok unfolding addresses_ok_def by (metis set_map)
  obtain i where i: "find_key ia_address_id a (db_issued_addresses db) = Some i"
    using t sets by (cases "find_key ia_address_id a (db_issued_addresses db)") (auto simp: find_key_None)
  have only: "u = t" if "u \<in> set (db_totals db)" "at_address_id u = a" for u
    using find_row [OF keys Some that] .
  have row: "row_ok t (deliveries_of db a)" using n t by (auto simp: notify_ok_def)
  then have v: "versions_ok t (deliveries_of db a)" by (simp add: row_ok_def)
  have mark: "notify_ok (update_totals a h db) \<and> webhook_step db (update_totals a h db) \<and>
      (\<forall>u \<in> set (db_totals (update_totals a h db)). if at_address_id u = a then at_dirty_state u \<noteq> Dirty else u \<in> set (db_totals db))"
    if h: "h = mark_clean \<or> h = mark_queued" and told: "told t (deliveries_of db a)" for h
  proof (intro conjI ballI)
    show "notify_ok (update_totals a h db)"
      using h only mark_row_ok(1,3) [OF row told]
      by (intro notify_update_totals [OF n]) (auto simp: mark_clean_def mark_queued_def)
    show "webhook_step db (update_totals a h db)" using h by (intro webhook_step_update_totals) auto
    fix u assume "u \<in> set (db_totals (update_totals a h db))"
    then show "if at_address_id u = a then at_dirty_state u \<noteq> Dirty else u \<in> set (db_totals db)"
      by (rule in_update_totals) (use h in \<open>auto simp: mark_clean_def mark_queued_def\<close>)
  qed
  consider (not_dirty) "at_dirty_state t \<noteq> Dirty" "db' = db"
    | (told) h where "h = mark_clean \<or> h = mark_queued" "db' = update_totals a h db" "told t (deliveries_of db a)"
    | (event) x where "queue_event ext now (ia_unified_address i) t db = (Inr x, db')"
    using run Some i last_word_told [OF Some t(2) v]
    by (auto simp: queue_address_def andThen_Inr split: if_splits)
  then show ?thesis
  proof cases
    case not_dirty
    with n only show ?thesis by auto
  next
    case told
    with mark show ?thesis by simp
  next
    case event
    have others: "u \<in> set (db_totals db)" if "u \<in> set (db_totals db')" "at_address_id u \<noteq> a" for u
    proof -
      from event obtain body where db': "db' = update_totals a (\<lambda>u. (mark_queued u)\<lparr>at_last_changed_at := now\<rparr>)
        (insert_delivery a (event_text a (at_state_version t)) (at_current_total_zat t) now body (at_received_by_confirmations t) db)"
        by (auto simp: queue_event_def Let_def andThen_Inr t(2))
      from that(1) [unfolded db'] obtain w where "w \<in> set (db_totals db)"
        "u = (if at_address_id w = a then (mark_queued w)\<lparr>at_last_changed_at := now\<rparr> else w)"
        by (rule in_update_totals) (simp add: insert_delivery_def split: if_splits)
      with that(2) show ?thesis by (auto simp: mark_queued_def split: if_splits)
    qed
    with queue_event_ok [OF n keys t(1) event] t(2) show ?thesis by auto
  qed
qed

text \<open>The loop over a set of addresses.\<close>

lemma queue_loop_ok:
  assumes "for_each (queue_address ext now) ids q db = (Inr q', db')" "notify_ok db" "addresses_ok db"
  shows "notify_ok db' \<and> webhook_step db db'
    \<and> (\<forall>u \<in> set (db_totals db'). (at_address_id u \<in> set ids \<longrightarrow> at_dirty_state u \<noteq> Dirty)
         \<and> (at_address_id u \<notin> set ids \<longrightarrow> u \<in> set (db_totals db)))"
  using assms
proof (induction ids arbitrary: q db)
  case Nil
  then show ?case by simp
next
  case (Cons a ids)
  then obtain q1 d where 1: "queue_address ext now a q db = (Inr q1, d)"
    and 2: "for_each (queue_address ext now) ids q1 d = (Inr q', db')" by (auto simp: andThen_Inr)
  note A = queue_address_ok [OF Cons.prems(2,3) 1]
  from A have "addresses_ok d" using webhook_step_keeps(1) Cons.prems(3) by blast
  with A have IH: "notify_ok db' \<and> webhook_step d db'
    \<and> (\<forall>u \<in> set (db_totals db'). (at_address_id u \<in> set ids \<longrightarrow> at_dirty_state u \<noteq> Dirty)
         \<and> (at_address_id u \<notin> set ids \<longrightarrow> u \<in> set (db_totals d)))"
    using Cons.IH [OF 2] by blast
  have "webhook_step db db'" using A IH webhook_step_trans by blast
  with A IH show ?case by (auto split: if_splits)
qed

lemma queue_in_tx_ok:
  assumes "queue_webhook_deliveries_in_tx ext ids now db = (Inr q, db')" "notify_ok db" "addresses_ok db"
  shows "notify_ok db' \<and> webhook_step db db' \<and> (\<forall>u \<in> set (db_totals db'). (at_address_id u \<in> set ids \<longrightarrow> at_dirty_state u \<noteq> Dirty)
         \<and> (at_address_id u \<notin> set ids \<longrightarrow> u \<in> set (db_totals db)))"
  using queue_loop_ok [of ext now "bset_of ids" "[]" db q db'] assms
  by (simp add: queue_webhook_deliveries_in_tx_def)

text \<open>Recording a success.\<close>

lemma success_ok:
  assumes n: "notify_ok db" and ok: "addresses_ok db"
    and d0: "find_key wd_delivery_id i (db_deliveries db) = Some d0" "is_outstanding d0"
    and run: "record_webhook_delivery_success ext i at st body dur now db = (r, db')"
  shows "notify_ok db' \<and> webhook_step db db'"
proof (cases r)
  case (Inl e)
  then have "db' = db" using run by (auto simp: record_webhook_delivery_success_def in_tx_Inl)
  with n show ?thesis by simp
next
  case (Inr u)
  define a where "a = wd_address_id d0"
  define f where "f = finish_row Succeeded None (Some st) (Some body) at"
  define d1 where "d1 = update_delivery i f db"
  note own = delivery_of_row [OF d0(1), folded a_def]
  have keys: "totals_keys_ok db" using ok by (rule addresses_ok_totals_keys)
  from n own(3) obtain t0 where "t0 \<in> set (db_totals db)" "at_address_id t0 = a" by (auto simp: notify_ok_def a_def)
  then obtain t where t: "find_key at_address_id a (db_totals db) = Some t"
    by (cases "find_key at_address_id a (db_totals db)") (auto simp: find_key_None)
  from find_key_Some [OF t] have t': "t \<in> set (db_totals db)" "at_address_id t = a" by auto
  have row: "row_ok t (deliveries_of db a)" using n t' by (auto simp: notify_ok_def)
  from run Inr d0(1) obtain d2 x where att: "insert_attempt i at (Some st) (Some body) None dur d1 = (Inr x, d2)"
    and rest: "if (case acked_delivery d2 a of None \<Rightarrow> False | Some y \<Rightarrow> i < wd_delivery_id y) then db' = d2
      else \<exists>q. queue_webhook_deliveries_in_tx ext [a] now (update_totals a (acknowledge d0 at) d2) = (Inr q, db')"
    by (auto simp: record_webhook_delivery_success_def in_tx_Inr andThen_Inr d1_def f_def a_def split: if_splits)
  from att obtain z where d2: "d2 = d1\<lparr>db_attempts := z\<rparr>" by (auto simp: insert_attempt_def split: if_splits)
  have rep: "same_report d (f d)" for d by (simp add: f_def same_report_def finish_row_def)
  have rep': "same_report d (at_id i f d)" for d using rep [of d] by (simp add: at_id_def same_report_def)
  have dels: "deliveries_of d2 b = map (at_id i f) (deliveries_of db b)" for b
    using deliveries_of_update [of f i db b] rep by (simp add: d2 d1_def deliveries_of_def same_report_def)
  have tot: "db_totals d2 = db_totals db" by (simp add: d2 d1_def)
  have acked: "acked_delivery d2 a = map_option (at_id i f) (acked_in t (deliveries_of db a))"
    using acked_delivery_local [of a d2 t] t acked_map(1) [of "deliveries_of db a" "at_id i f" t] rep' by (simp add: tot dels)
  have step: "webhook_step db d2" unfolding d2 d1_def by (rule webhook_step_trans [OF webhook_step_deliveries(1,3)])
  have att_ok: "notify_ok (d\<lparr>db_attempts := z\<rparr>) = notify_ok d" for d by (simp add: notify_ok_def deliveries_of_def)
  have yid: "wd_delivery_id (at_id i f y) = wd_delivery_id y" for y using rep' [of y] by (simp add: same_report_def)
  show ?thesis
  proof (cases "i < acked_id_in t (deliveries_of db a)")
    case True
    have pos: "0 < i" using row own by (auto simp: row_ok_def versions_ok_def event_ok_def)
    then obtain y where "acked_in t (deliveries_of db a) = Some y" "i < wd_delivery_id y"
      using True by (auto simp: acked_id_in_def split: option.splits)
    then have "db' = d2" using rest acked yid by simp
    moreover have "notify_ok (update_delivery i f db)"
    proof (rule notify_update_delivery [OF n rep d0(1)])
      fix s assume "s \<in> set (db_totals db)" "at_address_id s = wd_address_id d0"
      then have "s = t" using find_row [OF keys t] by (simp add: a_def)
      then show "row_ok s (map (at_id i f) (deliveries_of db (wd_address_id d0)))"
        using late_success_ok [OF row own(1) d0(2) own(2) True] by (simp add: f_def a_def)
    qed
    ultimately show ?thesis using step by (simp add: d2 d1_def att_ok)
  next
    case False
    have "\<not> (case acked_delivery d2 a of None \<Rightarrow> False | Some y \<Rightarrow> i < wd_delivery_id y)"
      using False by (auto simp: acked yid acked_id_in_def split: option.splits)
    with rest obtain q where queue: "queue_webhook_deliveries_in_tx ext [a] now (update_totals a (acknowledge d0 at) d2) = (Inr q, db')"
      by auto
    have step2: "webhook_step db (update_totals a (acknowledge d0 at) d2)"
      by (rule webhook_step_trans [OF step webhook_step_update_totals]) simp
    have "notify_ok (update_totals a (acknowledge d0 at) d2)"
    proof (rule notify_rewrite [OF n rep d0(1)])
      show "db_deliveries (update_totals a (acknowledge d0 at) d2) = map (at_id i f) (db_deliveries db)"
        by (simp add: d2 d1_def update_delivery_map)
      show "at_address_id ` set (db_totals (update_totals a (acknowledge d0 at) d2)) = at_address_id ` set (db_totals db)"
        using webhook_step_tables(5) [OF step2] by (metis set_map)
      fix s assume "s \<in> set (db_totals (update_totals a (acknowledge d0 at) d2))"
      then obtain u where u: "u \<in> set (db_totals db)" "s = (if at_address_id u = a then acknowledge d0 at u else u)"
        by (rule in_update_totals) (simp add: tot)
      show "if at_address_id s = wd_address_id d0 then row_ok s (map (at_id i f) (deliveries_of db (wd_address_id d0)))
        else s \<in> set (db_totals db)"
      proof (cases "at_address_id u = a")
        case True
        then have "u = t" using find_row [OF keys t u(1)] by simp
        then show ?thesis
          using acknowledge_ok [OF row own(1) d0(2) own(2) False] u(2) True by (simp add: f_def a_def acknowledge_def)
      qed (use u in \<open>simp add: a_def\<close>)
    qed
    moreover have "addresses_ok (update_totals a (acknowledge d0 at) d2)" by (rule webhook_step_keeps(1) [OF step2 ok])
    ultimately show ?thesis using queue_in_tx_ok [OF queue] step2 webhook_step_trans by blast
  qed
qed

end
