(* ===== verification/Receipt_Owners.thy ===== *)
theory Receipt_Owners
  imports Receipt_Ledger
begin

text \<open>
  What the receipt operations keep of the owners of receipts, whatever operation ran and whether it
  succeeded: every receipt belongs to an issued address (the foreign key of
  \<^verbatim>\<open>address_receipts_recent\<close>), and any relation of uids and addresses that holds of the
  receipts written holds of the table. A calculus of programs that keep a predicate, and its use on
  the operations of \<^verbatim>\<open>Db_Receipts\<close>.
\<close>

section \<open>Receipts belong to issued addresses\<close>

definition receipts_attributed :: "app_db \<Rightarrow> bool" where
  "receipts_attributed db \<longleftrightarrow> list_all (\<lambda>r. address_exists db (rr_address_id r)) (db_receipts db)"

lemma keeps_for_each: "(\<And>x acc. keeps P (body x acc)) \<Longrightarrow> keeps P (for_each body xs acc)"
  by (induction xs arbitrary: acc) (auto intro: keeps_intros)

lemma keeps_tx: "keeps P m \<Longrightarrow> keeps P (in_tx m)"
  by (rule keeps_in_tx) (auto simp: ok_def keeps_def)

lemma keeps_run:
  assumes "\<And>x. keeps P (m x)" "\<And>x y. keeps P (f x y)"
  shows "keeps P (\<lambda>s. andThen (m s) (f s) s)"
  unfolding keeps_def
proof (intro allI impI)
  fix s r t
  assume s: "P s" and run: "andThen (m s) (f s) s = (r, t)"
  show "P t" by (rule keepsD [OF keeps_andThen [OF assms] s run])
qed

lemma keeps_if: "(c \<Longrightarrow> keeps P a) \<Longrightarrow> (\<not> c \<Longrightarrow> keeps P b) \<Longrightarrow> keeps P (if c then a else b)"
  by simp

lemma keeps_writes: "(\<And>s. P s \<Longrightarrow> P (f s)) \<Longrightarrow> keeps P (writes f)"
  by (auto simp: keeps_def)

text \<open>
  The tables of addresses and receivers are \<open>issued\<close> and \<open>receivers\<close>, and the uid and address of
  every receipt are related by \<open>Q\<close>.
\<close>

definition owned :: "issued_address_row list \<Rightarrow> receiver_row list \<Rightarrow> (string \<Rightarrow> int \<Rightarrow> bool) \<Rightarrow> app_db \<Rightarrow> bool" where
  "owned issued receivers Q db \<longleftrightarrow> db_issued_addresses db = issued \<and> db_receivers db = receivers
     \<and> list_all (\<lambda>r. Q (rr_receipt_uid r) (rr_address_id r)) (db_receipts db)"

definition admits :: "issued_address_row list \<Rightarrow> (string \<Rightarrow> int \<Rightarrow> bool) \<Rightarrow> attributed_receipt list \<Rightarrow> bool" where
  "admits issued Q receipts \<longleftrightarrow>
     (\<forall>r \<in> set receipts. sr_address_id r \<in> ia_address_id ` set issued \<longrightarrow> Q (sr_receipt_uid r) (sr_address_id r))"

lemma admitsD: "admits issued Q receipts \<Longrightarrow> r \<in> set receipts \<Longrightarrow>
    sr_address_id r \<in> ia_address_id ` set issued \<Longrightarrow> Q (sr_receipt_uid r) (sr_address_id r)"
  by (simp add: admits_def)

lemma owned_with_receipts:
  "owned issued receivers Q (db\<lparr>db_receipts := rows\<rparr>) \<longleftrightarrow> db_issued_addresses db = issued \<and> db_receivers db = receivers
     \<and> list_all (\<lambda>r. Q (rr_receipt_uid r) (rr_address_id r)) rows"
  by (simp add: owned_def)

lemma attributed_owned:
  "receipts_attributed db \<longleftrightarrow>
     owned (db_issued_addresses db) (db_receivers db) (\<lambda>u a. a \<in> ia_address_id ` set (db_issued_addresses db)) db"
  by (simp add: receipts_attributed_def owned_def address_exists_def)

lemma keeps_attributed:
  assumes "\<And>issued receivers. keeps (owned issued receivers (\<lambda>u a. a \<in> ia_address_id ` set issued)) m"
  shows "keeps receipts_attributed m"
  unfolding keeps_def
proof (intro allI impI)
  fix s r t
  assume "receipts_attributed s" "m s = (r, t)"
  then have o: "owned (db_issued_addresses s) (db_receivers s) (\<lambda>u a. a \<in> ia_address_id ` set (db_issued_addresses s)) t"
    using keepsD [OF assms] attributed_owned by blast
  then have "db_issued_addresses t = db_issued_addresses s" "db_receivers t = db_receivers s" by (simp_all add: owned_def)
  with o show "receipts_attributed t" by (simp add: attributed_owned)
qed

lemma upsert_receipt_after:
  assumes "upsert_receipt row merge s = (r, t)"
  shows "t = s \<or> address_exists s (rr_address_id row) \<and> t = s\<lparr>db_receipts := put_receipt row merge (db_receipts s)\<rparr>"
  using assms unfolding upsert_receipt_def by (auto split: if_splits)

lemma keeps_upsert:
  assumes "\<And>old. rr_address_id (merge old) = rr_address_id row" "\<And>old. rr_receipt_uid (merge old) = rr_receipt_uid old"
    and "rr_address_id row \<in> ia_address_id ` set issued \<Longrightarrow> Q (rr_receipt_uid row) (rr_address_id row)"
  shows "keeps (owned issued receivers Q) (upsert_receipt row merge)"
  unfolding keeps_def
proof (intro allI impI)
  fix s r t
  assume s: "owned issued receivers Q s" and run: "upsert_receipt row merge s = (r, t)"
  from upsert_receipt_after [OF run] consider "t = s"
    | "address_exists s (rr_address_id row)" "t = s\<lparr>db_receipts := put_receipt row merge (db_receipts s)\<rparr>" by blast
  then show "owned issued receivers Q t"
  proof cases
    case 2
    have row: "Q (rr_receipt_uid row) (rr_address_id row)"
      using 2(1) s assms(3) by (simp add: address_exists_def owned_def)
    have "Q (rr_receipt_uid q) (rr_address_id q)" if "q \<in> set (put_receipt row merge (db_receipts s))" for q
      using that s row assms(1,2) unfolding put_receipt_def owned_def list_all_iff
      by (auto split: if_splits elim!: in_update_where)
    then show ?thesis using s unfolding 2(2) owned_with_receipts list_all_iff by (simp add: owned_def)
  qed (simp add: s)
qed

lemma owned_update:
  assumes "\<And>r. rr_address_id (f r) = rr_address_id r" "\<And>r. rr_receipt_uid (f r) = rr_receipt_uid r"
    and "owned issued receivers Q s"
  shows "owned issued receivers Q (s\<lparr>db_receipts := update_where p f (db_receipts s)\<rparr>)"
  unfolding owned_with_receipts list_all_iff
  using assms by (auto simp: owned_def list_all_iff elim!: in_update_where)

lemma keeps_revoke: "keeps (owned issued receivers Q) (revoke_receipt now uid)"
  unfolding revoke_receipt_def by (intro keeps_writes owned_update) (simp_all add: revoke.address_upd revoke.key_upd)

lemma keeps_recompute: "keeps (owned issued receivers Q) (recompute_address_totals ids tip fin now reason since)"
  unfolding recompute_address_totals_def
proof (rule keeps_for_each)
  fix a u
  show "keeps (owned issued receivers Q) (recompute_address (finalized_cutoff_height tip fin) tip now reason since a u)"
    by (auto simp: keeps_def recompute_address_def owned_def address_exists_def split: option.splits sum.splits)
qed

lemmas keeps_receipts = keeps_intros keeps_tx keeps_for_each keeps_revoke keeps_recompute keeps_if

lemma keeps_split: "(\<And>x y. p = (x, y) \<Longrightarrow> keeps P (f x y)) \<Longrightarrow> keeps P (case p of (x, y) \<Rightarrow> f x y)"
  by (cases p) simp

lemma keeps_each: "(\<And>x acc. x \<in> set xs \<Longrightarrow> keeps P (body x acc)) \<Longrightarrow> keeps P (for_each body xs acc)"
  by (induction xs arbitrary: acc) (auto intro: keeps_intros)

lemma keeps_scanned_upsert:
  "admits issued Q receipts \<Longrightarrow> r \<in> set receipts \<Longrightarrow>
   keeps (owned issued receivers Q) (upsert_receipt (receipt_of_scan r) (merge_scanned (receipt_of_scan r)))"
  by (rule keeps_upsert) (simp_all add: admitsD)

lemma keeps_mempool_upsert:
  "admits issued Q receipts \<Longrightarrow> r \<in> set receipts \<Longrightarrow>
   keeps (owned issued receivers Q) (upsert_receipt (mempool_row r t e now) (merge_mempool (mempool_row r t e now)))"
  by (rule keeps_upsert) (simp_all add: admitsD)

lemma owned_apply: "admits issued Q receipts \<Longrightarrow>
   keeps (owned issued receivers Q) (apply_attributed_receipts receipts tip fin now)"
  unfolding apply_attributed_receipts_def observe_receipt_def Let_def
  by (intro keeps_if keeps_tx keeps_intros keeps_split keeps_each keeps_recompute) (rule keeps_scanned_upsert)

lemma owned_advance: "keeps (owned issued receivers Q) (advance_receipt_maturity tip reports fin now)"
  unfolding keeps_def
proof (intro allI impI)
  fix s r t
  assume s: "owned issued receivers Q s" and run: "advance_receipt_maturity tip reports fin now s = (r, t)"
  let ?s = "s\<lparr>db_receipts := update_where (depth_stale tip (int reports)) (refresh_depth tip (int reports)) (db_receipts s)\<rparr>"
  have s': "owned issued receivers Q ?s" by (rule owned_update [OF depth.address_upd depth.key_upd s])
  show "owned issued receivers Q t"
  proof (cases r)
    case (Inl e)
    with run have "t = s" unfolding advance_receipt_maturity_def by (simp only: in_tx_Inl)
    with s show ?thesis by simp
  next
    case (Inr x)
    have "t = s \<or> (\<exists>y ids since. recompute_address_totals ids tip fin now ''receipt_matured'' since ?s = (Inr y, t))"
      using run unfolding Inr advance_receipt_maturity_def Let_def in_tx_Inr
      by (simp only: andThen_Inr ret_iff split: if_splits) (blast | simp)+
    then show ?thesis using s keepsD [OF keeps_recompute s'] by blast
  qed
qed

lemma keeps_reconcile_scanned:
  "admits issued Q receipts \<Longrightarrow> r \<in> set receipts \<Longrightarrow>
   keeps (owned issued receivers Q) (reconcile_scanned existing r acc)"
  unfolding reconcile_scanned_def Let_def by (intro keeps_andThen keeps_scanned_upsert keeps_ret)

lemma owned_reconcile:
  assumes "admits issued Q receipts"
  shows "keeps (owned issued receivers Q) (reconcile_attributed_receipts_in_range receipts lo hi tip fin now)"
  unfolding reconcile_attributed_receipts_in_range_def revoke_unscanned_def Let_def
  by (rule keeps_tx, rule keeps_run;
      intro keeps_if keeps_intros keeps_split keeps_revoke keeps_recompute keeps_each keeps_reconcile_scanned [OF assms])
    (auto dest: btree_collect_entry)

lemma owned_above_tip: "keeps (owned issued receivers Q) (revoke_mined_receipts_above_tip tip fin now)"
  unfolding revoke_mined_receipts_above_tip_def revoke_above_def Let_def
  by (rule keeps_tx, rule keeps_run; intro keeps_receipts keeps_split)

lemma keeps_age: "keeps (owned issued receivers Q) (age_mempool_receipts reports cutoff now acc)"
  unfolding age_mempool_receipts_def Let_def keeps_def
  by (simp add: owned_update freshness.address_upd freshness.key_upd)

lemma keeps_reconcile_mempool:
  "admits issued Q receipts \<Longrightarrow> r \<in> set receipts \<Longrightarrow>
   keeps (owned issued receivers Q) (reconcile_mempool_receipt reports cutoff now existing r acc)"
  unfolding reconcile_mempool_receipt_def Let_def by (intro keeps_andThen keeps_mempool_upsert keeps_ret)

lemma owned_mempool:
  assumes "admits issued Q receipts"
  shows "keeps (owned issued receivers Q) (reconcile_mempool_snapshot ext txids receipts now tip fin reports miss)"
  unfolding reconcile_mempool_snapshot_def revoke_missing_receipt_def Let_def
  by (rule keeps_tx, rule keeps_run;
      intro keeps_if keeps_intros keeps_split keeps_revoke keeps_recompute keeps_age keeps_each keeps_reconcile_mempool [OF assms])

section \<open>Every receipt belongs to an issued address\<close>

lemma admits_issued: "admits issued (\<lambda>u a. a \<in> ia_address_id ` set issued) receipts"
  by (simp add: admits_def)

lemma attributed_apply: "keeps receipts_attributed (apply_attributed_receipts receipts tip fin now)"
  by (rule keeps_attributed, rule owned_apply, rule admits_issued)

lemma attributed_advance: "keeps receipts_attributed (advance_receipt_maturity tip reports fin now)"
  by (rule keeps_attributed, rule owned_advance)

lemma attributed_reconcile: "keeps receipts_attributed (reconcile_attributed_receipts_in_range receipts lo hi tip fin now)"
  by (rule keeps_attributed, rule owned_reconcile, rule admits_issued)

lemma attributed_above_tip: "keeps receipts_attributed (revoke_mined_receipts_above_tip tip fin now)"
  by (rule keeps_attributed, rule owned_above_tip)

lemma attributed_mempool: "keeps receipts_attributed (reconcile_mempool_snapshot ext txids receipts now tip fin reports miss)"
  by (rule keeps_attributed, rule owned_mempool, rule admits_issued)

end
