(* ===== verification/Service_System.thy ===== *)
theory Service_System
  imports Notification_Safety Receipt_Owners
begin

text \<open>
  The service as a transition system. Its tasks (HTTP handlers, chain synchronisation, webhook
  worker) share only the database and each operation on it is one transaction or one statement,
  so a run of the service is a sequence of the steps below, in any order.
\<close>

section \<open>Steps of the service\<close>

text \<open>
  The operations on the database. \<^verbatim>\<open>ensure_wallet_identity\<close> and \<^verbatim>\<open>ensure_service_metadata\<close> are
  not transactions, so each of their writes is a step of its own.
\<close>

datatype db_action =
    OpenDatabase
  | StoreIdentity wallet_identity
  | TouchIdentity string
  | StoreMetadata config
  | ApplyRequired "nat option"
  | MarkSimulated string
  | RecordSync string string int int string
  | RecordReorg int int int int string string
  | AllocateAddress "byte list option \<Rightarrow> fresh_allocation result" string
  | InsertAddress new_issued_address string
  | InsertReceivers int "new_receiver list" string
  | InsertLink string int "string option" string
  | ApplyReceipts "attributed_receipt list" int nat string
  | AdvanceMaturity int nat nat string
  | ReconcileRange "attributed_receipt list" int int int nat string
  | RevokeAboveTip int nat string
  | ReconcileMempool "string list" "attributed_receipt list" string int nat nat bool
  | QueueDirty "int list" string
  | QueueAllDirty string

text \<open>What the webhook worker records after an attempt.\<close>

datatype delivery_outcome =
    Delivered int string int string
  | RetryLater string "int option" "string option" "string option" int
  | GivenUp "int option" "string option" "string option" int

text \<open>The state: the database, and the delivery the worker has claimed and not yet recorded.\<close>

record service =
  sv_db :: app_db
  sv_held :: "int option"

datatype service_action =
    Db db_action
  | Recover string
  | Claim string
  | Finish string delivery_outcome
  | WorkerError
  | Restart

definition discard :: "'a db_op \<Rightarrow> unit db_op" where
  "discard m = andThen m (\<lambda>_. ret ())"

fun db_task :: "externals \<Rightarrow> db_action \<Rightarrow> unit db_op" where
  "db_task ext OpenDatabase = initialize_schema"
| "db_task ext (StoreIdentity i) = discard (store_first_identity i)"
| "db_task ext (TouchIdentity now) = touch_wallet_identity_validation now"
| "db_task ext (StoreMetadata cfg) = discard (store_fresh_metadata cfg)"
| "db_task ext (ApplyRequired required) = apply_required_confirmations required"
| "db_task ext (MarkSimulated now) = mark_simulated_data now"
| "db_task ext (RecordSync s reason tip scanned now) = discard (record_sync_status s reason tip scanned now)"
| "db_task ext (RecordReorg previous new_tip rewind_to touched notes now) =
     record_reorg_event previous new_tip rewind_to touched notes now"
| "db_task ext (AllocateAddress prepare now) = discard (allocate_fresh_address prepare now)"
| "db_task ext (InsertAddress n now) = discard (insert_issued_address n now)"
| "db_task ext (InsertReceivers a rs now) = insert_address_receivers a rs now"
| "db_task ext (InsertLink pid a url now) = insert_payment_link pid a url now"
| "db_task ext (ApplyReceipts rs tip fin now) = discard (apply_attributed_receipts rs tip fin now)"
| "db_task ext (AdvanceMaturity tip reports fin now) = discard (advance_receipt_maturity tip reports fin now)"
| "db_task ext (ReconcileRange rs lo hi tip fin now) =
     discard (reconcile_attributed_receipts_in_range rs lo hi tip fin now)"
| "db_task ext (RevokeAboveTip tip fin now) = discard (revoke_mined_receipts_above_tip tip fin now)"
| "db_task ext (ReconcileMempool txids rs now tip fin reports miss) =
     discard (reconcile_mempool_snapshot ext txids rs now tip fin reports miss)"
| "db_task ext (QueueDirty ids now) = discard (queue_webhook_deliveries_for_dirty_addresses ext ids now)"
| "db_task ext (QueueAllDirty now) = discard (queue_all_dirty_webhook_deliveries ext now)"

text \<open>
  What the callers guarantee: a receipt uid names one output of the chain, and an output pays
  one receiver, so a receipt never changes its address.
\<close>

fun action_ok :: "app_db \<Rightarrow> db_action \<Rightarrow> bool" where
  "action_ok db (ApplyReceipts rs _ _ _) = uids_agree rs (db_receipts db)"
| "action_ok db (ReconcileRange rs _ _ _ _ _) = uids_agree rs (db_receipts db)"
| "action_ok db (ReconcileMempool _ rs _ _ _ _ _) = uids_agree rs (db_receipts db)"
| "action_ok db _ = True"

fun record_outcome :: "externals \<Rightarrow> int \<Rightarrow> string \<Rightarrow> delivery_outcome \<Rightarrow> unit db_op" where
  "record_outcome ext i at (Delivered status body duration now) =
     record_webhook_delivery_success ext i at status body duration now"
| "record_outcome ext i at (RetryLater next_at status body err duration) =
     record_webhook_delivery_retry i at next_at status body err duration"
| "record_outcome ext i at (GivenUp status body err duration) =
     record_webhook_delivery_permanent_failure i at status body err duration"

text \<open>
  One step, \<open>None\<close> where it is not possible: the worker handles one delivery at a time, and the
  recovery of \<^verbatim>\<open>run_with_config\<close> runs before the worker is spawned. A worker iteration that stops
  with an error, and a restart of the process, lose the claim but not its mark in the database.
\<close>

fun service_step :: "externals \<Rightarrow> service_action \<Rightarrow> service \<Rightarrow> service option" where
  "service_step ext (Db act) s =
     (if action_ok (sv_db s) act then Some (s\<lparr>sv_db := snd (db_task ext act (sv_db s))\<rparr>) else None)"
| "service_step ext (Recover now) s =
     (if sv_held s = None then Some (s\<lparr>sv_db := snd (recover_interrupted_webhook_deliveries now (sv_db s))\<rparr>) else None)"
| "service_step ext (Claim now) s =
     (if sv_held s = None
      then (case claim_ready_webhook_delivery now (sv_db s) of
              (Inr (Some q), db) \<Rightarrow> Some \<lparr>sv_db = db, sv_held = Some (qd_delivery_id q)\<rparr>
            | (_, db) \<Rightarrow> Some \<lparr>sv_db = db, sv_held = None\<rparr>)
      else None)"
| "service_step ext (Finish at outcome) s =
     (case sv_held s of
        None \<Rightarrow> None
      | Some i \<Rightarrow> Some \<lparr>sv_db = snd (record_outcome ext i at outcome (sv_db s)), sv_held = None\<rparr>)"
| "service_step ext WorkerError s = Some (s\<lparr>sv_held := None\<rparr>)"
| "service_step ext Restart s = Some (s\<lparr>sv_held := None\<rparr>)"

definition initial_service :: service where
  "initial_service = \<lparr>sv_db = empty_db, sv_held = None\<rparr>"

inductive reachable :: "externals \<Rightarrow> service \<Rightarrow> bool" for ext where
  reachable_init: "reachable ext initial_service"
| reachable_step: "reachable ext s \<Longrightarrow> service_step ext act s = Some s' \<Longrightarrow> reachable ext s'"

text \<open>Running a list of actions.\<close>

fun run_service :: "externals \<Rightarrow> service_action list \<Rightarrow> service \<Rightarrow> service option" where
  "run_service ext [] s = Some s"
| "run_service ext (act # acts) s = Option.bind (service_step ext act s) (run_service ext acts)"

lemma reachable_run: "run_service ext acts s = Some s' \<Longrightarrow> reachable ext s \<Longrightarrow> reachable ext s'"
  by (induction acts arbitrary: s) (auto simp: bind_eq_Some_conv intro: reachable_step)

section \<open>The invariant\<close>

definition db_ok :: "app_db \<Rightarrow> bool" where
  "db_ok db \<longleftrightarrow> addresses_ok db \<and> ledger_ok db \<and> receipts_attributed db \<and> notify_ok db \<and> sync_log_ok db"

definition claimed :: "app_db \<Rightarrow> int \<Rightarrow> bool" where
  "claimed db i \<longleftrightarrow> list_ex (\<lambda>d. wd_delivery_id d = i \<and> wd_delivery_state d = Sending) (db_deliveries db)"

definition service_ok :: "service \<Rightarrow> bool" where
  "service_ok s \<longleftrightarrow> db_ok (sv_db s) \<and> (case sv_held s of None \<Rightarrow> True | Some i \<Rightarrow> claimed (sv_db s) i)"

text \<open>The operations of the other tasks only append deliveries, which were never attempted.\<close>

definition untried :: "delivery_row \<Rightarrow> bool" where
  "untried d \<longleftrightarrow> wd_delivery_state d = Queued \<and> wd_attempt_count d = 0"

definition deliveries_kept :: "app_db \<Rightarrow> app_db \<Rightarrow> bool" where
  "deliveries_kept db db' \<longleftrightarrow> db_attempts db' = db_attempts db
     \<and> (\<exists>new. db_deliveries db' = db_deliveries db @ new \<and> list_all untried new)"

lemma deliveries_kept_same:
  "db_deliveries db' = db_deliveries db \<Longrightarrow> db_attempts db' = db_attempts db \<Longrightarrow> deliveries_kept db db'"
  unfolding deliveries_kept_def by (intro conjI exI [of _ "[]"]) simp_all

lemma deliveries_kept_refl [simp]: "deliveries_kept db db"
  by (rule deliveries_kept_same) simp_all

lemma deliveries_kept_trans: "deliveries_kept db d1 \<Longrightarrow> deliveries_kept d1 d2 \<Longrightarrow> deliveries_kept db d2"
  unfolding deliveries_kept_def by (elim conjE exE) (simp add: list_all_append)

lemma deliveries_kept_subset: "deliveries_kept db db' \<Longrightarrow> set (db_deliveries db) \<subseteq> set (db_deliveries db')"
  by (auto simp: deliveries_kept_def)

lemma deliveries_kept_claimed: "deliveries_kept db db' \<Longrightarrow> claimed db i \<Longrightarrow> claimed db' i"
  by (auto simp: deliveries_kept_def claimed_def list_ex_iff)

lemma sync_log_same:
  "db_metadata db' = db_metadata db \<Longrightarrow> db_transitions db' = db_transitions db \<Longrightarrow> sync_log_ok db' = sync_log_ok db"
  unfolding sync_log_ok_def by (simp only:)

text \<open>An operation that writes no table of the invariant but the metadata.\<close>

definition same_tables :: "app_db \<Rightarrow> app_db \<Rightarrow> bool" where
  "same_tables db db' \<longleftrightarrow> db_issued_addresses db' = db_issued_addresses db \<and> db_payment_links db' = db_payment_links db
     \<and> db_receivers db' = db_receivers db \<and> db_totals db' = db_totals db \<and> db_receipts db' = db_receipts db
     \<and> db_deliveries db' = db_deliveries db \<and> db_attempts db' = db_attempts db"

lemma same_tables_ok:
  assumes "same_tables db db'" "db_ok db" "sync_log_ok db'"
  shows "db_ok db' \<and> deliveries_kept db db'"
proof -
  have ex: "address_exists db' = address_exists db" using assms(1) by (simp add: fun_eq_iff address_exists_def same_tables_def)
  have tot: "total_current db' = total_current db"
    using assms(1) by (simp add: fun_eq_iff total_current_def eligible_total_rows same_tables_def)
  have "addresses_ok db' = addresses_ok db" "ledger_ok db' = ledger_ok db"
    "receipts_attributed db' = receipts_attributed db" "notify_ok db' = notify_ok db"
    using assms(1) ex tot
    by (simp_all add: addresses_ok_def ledger_ok_def receipts_attributed_def notify_ok_def same_tables_def
        totals_keys_ok_def receipt_uids_ok_def totals_current_def deliveries_of_def)
  moreover have "deliveries_kept db db'" using assms(1) by (intro deliveries_kept_same) (simp_all add: same_tables_def)
  ultimately show ?thesis using assms(2,3) by (simp add: db_ok_def)
qed


text \<open>An operation on the receipts.\<close>

lemma ledger_step_tables:
  assumes "ledger_step db db'"
  shows "db_issued_addresses db' = db_issued_addresses db" "db_payment_links db' = db_payment_links db"
    "db_receivers db' = db_receivers db" "db_deliveries db' = db_deliveries db" "db_attempts db' = db_attempts db"
    "db_metadata db' = db_metadata db"
    "db_transitions db' = db_transitions db" "map at_address_id (db_totals db') = map at_address_id (db_totals db)"
proof -
  obtain x y where db': "db' = db\<lparr>db_receipts := x, db_totals := y\<rparr>" using assms unfolding ledger_step_def by blast
  then show "db_issued_addresses db' = db_issued_addresses db" "db_payment_links db' = db_payment_links db"
    "db_receivers db' = db_receivers db" "db_deliveries db' = db_deliveries db" "db_attempts db' = db_attempts db"
    "db_metadata db' = db_metadata db"
    "db_transitions db' = db_transitions db" by simp_all
  have "list_all2 row_step (db_totals db) (db_totals db')" using assms by (simp add: ledger_step_def)
  then show "map at_address_id (db_totals db') = map at_address_id (db_totals db)" by (rule row_step_keys)
qed

lemma ledger_case:
  assumes db: "db_ok db" and led: "ledger_ok db' \<and> ledger_step db db'" and att: "receipts_attributed db'"
  shows "db_ok db' \<and> deliveries_kept db db'"
proof -
  note T = ledger_step_tables [OF conjunct2 [OF led]]
  have ex: "address_exists db' = address_exists db" by (simp add: fun_eq_iff address_exists_def T)
  have "addresses_ok db'" using db by (simp add: db_ok_def addresses_ok_def T ex)
  moreover have "sync_log_ok db'" using db sync_log_same [of db' db] by (simp add: db_ok_def T)
  moreover have "notify_ok db'" using db led by (auto simp: db_ok_def intro: notify_ledger_step)
  ultimately show ?thesis using led att by (simp add: db_ok_def deliveries_kept_same T)
qed

text \<open>An operation on the webhook queue.\<close>

lemma webhook_case:
  assumes db: "db_ok db" and step: "notify_ok db' \<and> webhook_step db db'"
  shows "db_ok db'"
proof -
  obtain x y z where db': "db' = db\<lparr>db_totals := x, db_deliveries := y, db_attempts := z\<rparr>"
    using step unfolding webhook_step_def by blast
  have "sync_log_ok db'" "receipts_attributed db'"
    using db sync_log_same [of db' db] by (simp_all add: db_ok_def db' receipts_attributed_def address_exists_def)
  with db step webhook_step_keeps show ?thesis unfolding db_ok_def by blast
qed

text \<open>New rows of the address tables.\<close>

lemma receivers_case:
  assumes "db_ok db" "addresses_ok db'" "db' = db\<lparr>db_receivers := x, db_payment_links := y\<rparr>"
  shows "db_ok db' \<and> deliveries_kept db db'"
proof -
  have "sync_log_ok db'" using assms(1) sync_log_same [of db' db] by (simp add: db_ok_def assms(3))
  moreover have "total_current db' = total_current db"
    by (simp add: fun_eq_iff total_current_def eligible_total_rows assms(3))
  moreover have "deliveries_of db' = deliveries_of db" by (simp add: fun_eq_iff deliveries_of_def assms(3))
  moreover have "address_exists db' = address_exists db" by (simp add: fun_eq_iff address_exists_def assms(3))
  ultimately show ?thesis using assms(1,2)
    by (simp add: db_ok_def ledger_ok_def totals_keys_ok_def receipt_uids_ok_def totals_current_def
      receipts_attributed_def notify_ok_def deliveries_kept_same assms(3))
qed

lemma add_receivers_case:
  assumes "db_ok db" "addresses_ok (add_receivers new db)"
  shows "db_ok (add_receivers new db) \<and> deliveries_kept db (add_receivers new db)"
proof -
  have "add_receivers new db = db\<lparr>db_receivers := db_receivers db @ new, db_payment_links := db_payment_links db\<rparr>"
    by (simp add: add_receivers_def)
  then show ?thesis by (rule receivers_case [OF assms])
qed

lemma add_address_case:
  assumes db: "db_ok db" and fresh: "\<not> address_exists db i" "ia_address_id row = i"
    and addr: "addresses_ok (add_address row (clean_totals i now) db)"
  shows "db_ok (add_address row (clean_totals i now) db) \<and> deliveries_kept db (add_address row (clean_totals i now) db)"
proof -
  let ?db = "add_address row (clean_totals i now) db"
  have none: "rr_address_id r \<noteq> i" if "r \<in> set (db_receipts db)" for r
    using db fresh(1) that by (auto simp: db_ok_def receipts_attributed_def list_all_iff)
  have "counted_at i r = 0" if "r \<in> set (db_receipts db)" for r using none [OF that] by (simp add: counted_at_def)
  then have "rows_total i (db_receipts db) = 0" unfolding rows_total_def by (simp cong: map_cong)
  then have "totals_current ?db"
    using db by (simp add: db_ok_def ledger_ok_def totals_current_def total_current_def [abs_def] eligible_total_rows clean_totals_def)
  moreover have "totals_keys_ok ?db" by (rule addresses_ok_totals_keys [OF addr])
  moreover have "receipt_uids_ok ?db" using db by (simp add: db_ok_def ledger_ok_def receipt_uids_ok_def)
  moreover have "receipts_attributed ?db" using db by (auto simp: db_ok_def receipts_attributed_def list_all_iff)
  moreover have "notify_ok ?db" using db fresh by (intro notify_add_address) (auto simp: db_ok_def)
  moreover have "sync_log_ok ?db" using db sync_log_same [of ?db db] by (simp add: db_ok_def add_address_def)
  ultimately show ?thesis using addr by (simp add: db_ok_def ledger_ok_def deliveries_kept_same)
qed


section \<open>Every task keeps the invariant\<close>

lemma discard_run: "discard m s = (r, t) \<Longrightarrow> \<exists>q. m s = (q, t) \<and> (r = Inr () \<longleftrightarrow> (\<exists>x. q = Inr x))"
  unfolding discard_def by (cases "m s"; cases "fst (m s)") (auto simp: andThen_def ret_def)

lemma metadata_case:
  assumes "db_ok db" "db' = db\<lparr>db_wallet_identity := w, db_simulated_marker := k, db_reorgs := q\<rparr>"
  shows "db_ok db' \<and> deliveries_kept db db'"
proof (rule same_tables_ok [OF _ assms(1)])
  show "same_tables db db'" by (simp add: same_tables_def assms(2))
  show "sync_log_ok db'" using assms(1) sync_log_same [of db' db] by (simp add: db_ok_def assms(2))
qed

lemma store_identity_case:
  "db_ok db \<Longrightarrow> store_first_identity i db = (r, db') \<Longrightarrow> db_ok db' \<and> deliveries_kept db db'"
  by (rule metadata_case [where w = "db_wallet_identity db'" and k = "db_simulated_marker db" and q = "db_reorgs db"])
    (auto simp: store_first_identity_def insert_wallet_identity_def split: if_splits option.splits app_error.splits)

lemma store_metadata_case:
  assumes db: "db_ok db" and run: "store_fresh_metadata cfg db = (r, db')"
  shows "db_ok db' \<and> deliveries_kept db db'"
proof (cases "db_metadata db")
  case None
  then have db': "db' = db\<lparr>db_metadata := Some (service_metadata.extend (fresh_metadata cfg) (service_metadata_row.fields None))\<rparr>"
    using run by (simp add: store_fresh_metadata_def insert_service_metadata_def)
  have "sync_log_ok db'" using db None
    by (simp add: db_ok_def sync_log_ok_def db' fresh_metadata_def service_metadata.defs service_metadata_row.defs)
  then show ?thesis by (intro same_tables_ok db) (simp_all add: same_tables_def db')
next
  case (Some m)
  with run have "db' = db"
    by (auto simp: store_fresh_metadata_def insert_service_metadata_def split: if_splits app_error.splits)
  with db show ?thesis by simp
qed

lemma apply_required_case:
  assumes db: "db_ok db" and run: "apply_required_confirmations required db = (r, db')"
  shows "db_ok db' \<and> deliveries_kept db db'"
proof -
  note run' = apply_required_run [OF run]
  have same: "db_issued_addresses db' = db_issued_addresses db" "db_payment_links db' = db_payment_links db"
    "db_receivers db' = db_receivers db" "db_transitions db' = db_transitions db" "db_attempts db' = db_attempts db"
    using run by (auto simp: apply_required_confirmations_def Let_def)
  have ex: "address_exists db' = address_exists db" by (simp add: fun_eq_iff address_exists_def same)
  have "addresses_ok db'" using db only_arrays_keys [OF run'(4)] by (simp add: db_ok_def addresses_ok_def same ex)
  moreover have "ledger_ok db'" using db run by (auto simp: db_ok_def intro: apply_required_ledger)
  moreover have "receipts_attributed db'" using db by (simp add: db_ok_def receipts_attributed_def ex run')
  moreover have "notify_ok db'" using db run' by (auto simp: db_ok_def intro: notify_only_arrays)
  moreover have "sync_log_ok db' = sync_log_ok db"
    using run by (auto simp: apply_required_confirmations_def Let_def sync_log_ok_def split: option.splits)
  ultimately show ?thesis using db by (simp add: db_ok_def deliveries_kept_same run' same)
qed

lemma record_sync_case:
  assumes db: "db_ok db" and run: "record_sync_status s reason tip scanned now db = (r, db')"
  shows "db_ok db' \<and> deliveries_kept db db'"
proof (rule same_tables_ok [OF _ db])
  show "sync_log_ok db'" using db run by (auto simp: db_ok_def intro: record_sync_status_log)
  show "same_tables db db'"
  proof (cases r)
    case Inl
    with run show ?thesis by (simp add: record_sync_status_def in_tx_Inl same_tables_def)
  next
    case Inr
    with run show ?thesis
      by (auto simp: record_sync_status_def in_tx_Inr same_tables_def Let_def split: option.splits)
  qed
qed

lemma record_reorg_case:
  assumes db: "db_ok db" and run: "record_reorg_event a b c d e f db = (r, db')"
  shows "db_ok db' \<and> deliveries_kept db db'"
proof (rule metadata_case [OF db])
  show "db' = db\<lparr>db_wallet_identity := db_wallet_identity db, db_simulated_marker := db_simulated_marker db, db_reorgs := db_reorgs db'\<rparr>"
  proof (cases r)
    case Inl
    with run show ?thesis by (simp add: record_reorg_event_def in_tx_Inl)
  next
    case Inr
    with run show ?thesis by (auto simp: record_reorg_event_def in_tx_Inr split: option.splits)
  qed
qed

lemma initialize_case:
  assumes db: "db_ok db" and run: "initialize_schema db = (r, db')"
  shows "db_ok db' \<and> deliveries_kept db db'"
proof (cases r)
  case Inl
  with run db show ?thesis by (simp add: initialize_schema_def in_tx_Inl)
next
  case (Inr x)
  with run obtain u d where 1: "copy_orchard_receivers_to_ironwood db = (Inr u, d)" and 2: "bump_schema_version d = (Inr x, db')"
    by (auto simp: initialize_schema_def in_tx_Inr andThen_Inr)
  from db have "addresses_ok db" by (simp add: db_ok_def)
  from ironwood_run [OF this 1] obtain new where new: "d = add_receivers new db" "addresses_ok d" by metis
  have d: "db_ok d \<and> deliveries_kept db d" using add_receivers_case [OF db] new by simp
  have "db_ok db' \<and> deliveries_kept d db'"
  proof (rule same_tables_ok [OF _ conjunct1 [OF d]])
    show "same_tables d db'" using 2 by (auto simp: bump_schema_version_def same_tables_def)
    show "sync_log_ok db'" using 2 d
      by (auto simp: bump_schema_version_def sync_log_ok_def db_ok_def split: option.splits)
  qed
  with d show ?thesis using deliveries_kept_trans by blast
qed

lemma new_address_ok:
  "addresses_ok db \<Longrightarrow> \<not> address_exists db i \<Longrightarrow> na_unified_address n \<notin> set (map ia_unified_address (db_issued_addresses db)) \<Longrightarrow>
   addresses_ok (add_address (issued_row i now n) (clean_totals i now') db)"
  by (auto simp: addresses_ok_def address_exists_def issued_row_def clean_totals_def list_all_iff)

lemma allocate_case:
  assumes db: "db_ok db" and run: "allocate_fresh_address prepare now db = (r, db')"
  shows "db_ok db' \<and> deliveries_kept db db'"
proof (cases r)
  case Inl
  with run db show ?thesis by (simp add: allocate_fresh_address_def in_tx_Inl)
next
  case (Inr rec)
  from db have ok: "addresses_ok db" by (simp add: db_ok_def)
  from run Inr have run': "allocate_fresh_address prepare now db = (Inr rec, db')" by simp
  show ?thesis
  proof (rule allocate_run [OF ok run'])
    fix alloc i new
    let ?row = "issued_row i now (fa_issued_address alloc)"
    let ?d = "add_address ?row (clean_totals i now) db"
    assume fresh: "\<not> address_exists db i" "na_unified_address (fa_issued_address alloc) \<notin> set (map ia_unified_address (db_issued_addresses db))"
      and db': "db' = add_receivers new ?d" "addresses_ok db'"
    have i: "ia_address_id ?row = i" by (simp add: issued_row_def)
    have d: "db_ok ?d \<and> deliveries_kept db ?d"
      by (rule add_address_case [OF db fresh(1) i]) (rule new_address_ok [OF ok fresh])
    from db' have "db_ok db' \<and> deliveries_kept ?d db'" using add_receivers_case [OF conjunct1 [OF d]] by simp
    with d show ?thesis using deliveries_kept_trans by blast
  qed
qed

lemma insert_issued_case:
  assumes db: "db_ok db" and run: "insert_issued_address n now db = (r, db')"
  shows "db_ok db' \<and> deliveries_kept db db'"
proof -
  from db have ok: "addresses_ok db" by (simp add: db_ok_def)
  from insert_issued_run [OF ok run] consider "db' = db"
    | i where "\<not> address_exists db i" "db' = add_address (issued_row i now n) (clean_totals i now) db" "addresses_ok db'"
    by blast
  then show ?thesis
  proof cases
    case 1
    with db show ?thesis by simp
  next
    case (2 i)
    have "ia_address_id (issued_row i now n) = i" by (simp add: issued_row_def)
    with add_address_case [OF db 2(1)] 2(2,3) show ?thesis by blast
  qed
qed

lemma insert_receivers_case:
  assumes db: "db_ok db" and run: "insert_address_receivers a rs now db = (r, db')"
  shows "db_ok db' \<and> deliveries_kept db db'"
proof (cases r)
  case Inl
  with run db show ?thesis by (simp add: insert_address_receivers_def in_tx_Inl)
next
  case (Inr x)
  from db have ok: "addresses_ok db" by (simp add: db_ok_def)
  then have uniq: "receivers_unique (db_receivers db)" by (simp add: addresses_ok_def)
  from run Inr have "for_each insert_receiver_row (map (receiver_of a now) rs) () db = (Inr x, db')"
    by (simp add: insert_address_receivers_def in_tx_Inr)
  from insert_receivers_loop [OF this uniq] obtain new where new: "db' = add_receivers new db"
    "list_all2 numbered (map (receiver_of a now) rs) new" "receivers_unique (db_receivers db @ new)"
    "list_all (\<lambda>r. address_exists db (rv_address_id r)) (map (receiver_of a now) rs)" by blast
  have "addresses_ok (add_receivers new db)" by (rule add_receivers_ok [OF ok new(2-4)])
  with add_receivers_case [OF db] new(1) show ?thesis by simp
qed

lemma insert_link_case:
  assumes db: "db_ok db" and run: "insert_payment_link pid a url now db = (r, db')"
  shows "db_ok db' \<and> deliveries_kept db db'"
proof (cases r)
  case Inl
  with run have "db' = db" by (auto simp: insert_payment_link_def split: if_splits)
  with db show ?thesis by simp
next
  case (Inr x)
  from db have ok: "addresses_ok db" by (simp add: db_ok_def)
  from run Inr have run': "insert_payment_link pid a url now db = (Inr (), db')" by simp
  have "addresses_ok db'" by (rule payment_link_found [OF ok run'])
  moreover have "db' = db\<lparr>db_receivers := db_receivers db, db_payment_links := db_payment_links db'\<rparr>"
    using run' by (auto simp: insert_payment_link_def split: if_splits)
  ultimately show ?thesis by (rule receivers_case [OF db])
qed

text \<open>Queueing appends deliveries.\<close>

lemma insert_delivery_claims: "deliveries_kept s (insert_delivery a e z ob body c s)"
  by (cases "e \<in> set (map wd_event_id (db_deliveries s))")
    (auto simp: deliveries_kept_def insert_delivery_def new_delivery_def untried_def)

lemma update_totals_claims: "deliveries_kept s (update_totals a h s)"
  by (rule deliveries_kept_same) (simp_all add: update_totals_def)

text \<open>Queueing writes only totals rows and deliveries, so it keeps what these writes keep.\<close>

lemma queue_keeps:
  assumes totals: "\<And>s a h. P s \<Longrightarrow> P (update_totals a h s)"
    and deliveries: "\<And>s a e z ob body c. P s \<Longrightarrow> P (insert_delivery a e z ob body c s)"
  shows "keeps P (queue_webhook_deliveries_in_tx ext ids now)"
  unfolding queue_webhook_deliveries_in_tx_def
proof (rule keeps_for_each)
  fix a queued
  have event: "keeps P (queue_event ext now i u)" for i u
    unfolding queue_event_def Let_def by (intro keeps_intros keeps_writes totals deliveries)
  show "keeps P (queue_address ext now a queued)"
    unfolding keeps_def
  proof (intro allI impI)
    fix s r t
    assume s: "P s" and run: "queue_address ext now a queued s = (r, t)"
    from run consider "t = s" | h where "t = update_totals a h s"
      | i u where "andThen (queue_event ext now i u) (\<lambda>_. ret (bset_insert a queued)) s = (r, t)"
      by (auto simp: queue_address_def split: option.splits if_splits)
    then show "P t"
    proof cases
      case 1
      with s show ?thesis by simp
    next
      case 2
      with totals [OF s] show ?thesis by simp
    next
      case (3 i u)
      have "keeps P (andThen (queue_event ext now i u) (\<lambda>_. ret (bset_insert a queued)))"
        by (intro keeps_intros event)
      from keepsD [OF this s 3] show ?thesis .
    qed
  qed
qed

lemma queue_in_tx_claims: "keeps (deliveries_kept db) (queue_webhook_deliveries_in_tx ext ids now)"
  by (rule queue_keeps) (blast intro: deliveries_kept_trans insert_delivery_claims update_totals_claims)+

lemma owned_queue: "keeps (owned issued receivers Q) (queue_webhook_deliveries_in_tx ext ids now)"
  by (rule queue_keeps) (simp_all add: owned_def update_totals_def insert_delivery_def)

lemma queue_dirty_run:
  assumes "queue_webhook_deliveries_for_dirty_addresses ext ids now db = (r, db')"
  shows "db' = db \<or> (\<exists>q. r = Inr q \<and> queue_webhook_deliveries_in_tx ext ids now db = (Inr q, db'))"
  using assms by (cases r) (auto simp: queue_webhook_deliveries_for_dirty_addresses_def in_tx_Inl in_tx_Inr split: if_splits)

lemma queue_dirty_case:
  assumes db: "db_ok db" and run: "queue_webhook_deliveries_for_dirty_addresses ext ids now db = (r, db')"
  shows "db_ok db' \<and> deliveries_kept db db'"
  using queue_dirty_run [OF run]
proof
  assume "db' = db"
  with db show ?thesis by simp
next
  assume "\<exists>q. r = Inr q \<and> queue_webhook_deliveries_in_tx ext ids now db = (Inr q, db')"
  then obtain q where run': "queue_webhook_deliveries_in_tx ext ids now db = (Inr q, db')" by blast
  have "notify_ok db' \<and> webhook_step db db'" using queue_in_tx_ok [OF run'] db by (auto simp: db_ok_def)
  with webhook_case [OF db] keepsD [OF queue_in_tx_claims deliveries_kept_refl run'] show ?thesis by blast
qed

lemma queue_all_case:
  "db_ok db \<Longrightarrow> queue_all_dirty_webhook_deliveries ext now db = (r, db') \<Longrightarrow> db_ok db' \<and> deliveries_kept db db'"
  by (rule queue_dirty_case [where ids = "dirty_addresses db"])
    (auto simp: queue_all_dirty_webhook_deliveries_def andThen_def reads_def)


text \<open>The operations on the receipts.\<close>

lemma receipts_case:
  assumes db: "db_ok db" and led: "ledger_ok db \<Longrightarrow> ledger_ok db' \<and> ledger_step db db'"
    and att: "keeps receipts_attributed m" "m db = (r, db')"
  shows "db_ok db' \<and> deliveries_kept db db'"
proof (rule ledger_case [OF db])
  show "ledger_ok db' \<and> ledger_step db db'" using db led by (simp add: db_ok_def)
  show "receipts_attributed db'" using keepsD [OF att(1) _ att(2)] db by (simp add: db_ok_def)
qed

lemma db_task_ok:
  assumes db: "db_ok db" and ok: "action_ok db act" and run: "db_task ext act db = (r, db')"
  shows "db_ok db' \<and> deliveries_kept db db'"
proof (cases act)
  case OpenDatabase
  with run show ?thesis using initialize_case [OF db] by simp
next
  case (StoreIdentity i)
  with run obtain q where "store_first_identity i db = (q, db')" by (auto dest: discard_run)
  with db show ?thesis by (rule store_identity_case)
next
  case (TouchIdentity now)
  with run have "db' = db\<lparr>db_wallet_identity := db_wallet_identity db', db_simulated_marker := db_simulated_marker db, db_reorgs := db_reorgs db\<rparr>"
    by (auto simp: touch_wallet_identity_validation_def)
  with db show ?thesis by (rule metadata_case)
next
  case (StoreMetadata cfg)
  with run obtain q where "store_fresh_metadata cfg db = (q, db')" by (auto dest: discard_run)
  with db show ?thesis by (rule store_metadata_case)
next
  case (ApplyRequired required)
  with run show ?thesis using apply_required_case [OF db] by simp
next
  case (MarkSimulated now)
  with run have "db' = db\<lparr>db_wallet_identity := db_wallet_identity db, db_simulated_marker := db_simulated_marker db', db_reorgs := db_reorgs db\<rparr>"
    by (auto simp: mark_simulated_data_def)
  with db show ?thesis by (rule metadata_case)
next
  case (RecordSync s reason tip scanned now)
  with run obtain q where "record_sync_status s reason tip scanned now db = (q, db')" by (auto dest: discard_run)
  with db show ?thesis by (rule record_sync_case)
next
  case (RecordReorg a b c d e f)
  with run show ?thesis using record_reorg_case [OF db] by simp
next
  case (AllocateAddress prepare now)
  with run obtain q where "allocate_fresh_address prepare now db = (q, db')" by (auto dest: discard_run)
  with db show ?thesis by (rule allocate_case)
next
  case (InsertAddress n now)
  with run obtain q where "insert_issued_address n now db = (q, db')" by (auto dest: discard_run)
  with db show ?thesis by (rule insert_issued_case)
next
  case (InsertReceivers a rs now)
  with run show ?thesis using insert_receivers_case [OF db] by simp
next
  case (InsertLink pid a url now)
  with run show ?thesis using insert_link_case [OF db] by simp
next
  case (ApplyReceipts rs tip fin now)
  with run obtain q where q: "apply_attributed_receipts rs tip fin now db = (q, db')" by (auto dest: discard_run)
  show ?thesis by (rule receipts_case [OF db _ attributed_apply q])
    (rule apply_ledger [OF _ _ q], use ok ApplyReceipts in simp_all)
next
  case (AdvanceMaturity tip reports fin now)
  with run obtain q where q: "advance_receipt_maturity tip reports fin now db = (q, db')" by (auto dest: discard_run)
  show ?thesis by (rule receipts_case [OF db _ attributed_advance q]) (rule advance_ledger [OF _ q])
next
  case (ReconcileRange rs lo hi tip fin now)
  with run obtain q where q: "reconcile_attributed_receipts_in_range rs lo hi tip fin now db = (q, db')" by (auto dest: discard_run)
  show ?thesis by (rule receipts_case [OF db _ attributed_reconcile q])
    (rule reconcile_ledger [OF _ _ q], use ok ReconcileRange in simp_all)
next
  case (RevokeAboveTip tip fin now)
  with run obtain q where q: "revoke_mined_receipts_above_tip tip fin now db = (q, db')" by (auto dest: discard_run)
  show ?thesis by (rule receipts_case [OF db _ attributed_above_tip q]) (rule above_tip_ledger [OF _ q])
next
  case (ReconcileMempool txids rs now tip fin reports miss)
  with run obtain q where q: "reconcile_mempool_snapshot ext txids rs now tip fin reports miss db = (q, db')" by (auto dest: discard_run)
  show ?thesis by (rule receipts_case [OF db _ attributed_mempool q])
    (rule mempool_ledger [OF _ _ q], use ok ReconcileMempool in simp_all)
next
  case (QueueDirty ids now)
  with run obtain q where "queue_webhook_deliveries_for_dirty_addresses ext ids now db = (q, db')" by (auto dest: discard_run)
  with db show ?thesis by (rule queue_dirty_case)
next
  case (QueueAllDirty now)
  with run obtain q where "queue_all_dirty_webhook_deliveries ext now db = (q, db')" by (auto dest: discard_run)
  with db show ?thesis by (rule queue_all_case)
qed

section \<open>The worker's steps\<close>

lemma find_delivery:
  "notify_ok db \<Longrightarrow> d \<in> set (db_deliveries db) \<Longrightarrow> find_key wd_delivery_id (wd_delivery_id d) (db_deliveries db) = Some d"
  by (rule find_key_unique) (simp_all add: notify_ok_def)

lemma find_updated:
  assumes "\<And>d. wd_delivery_id (f d) = wd_delivery_id d"
  shows "find_key wd_delivery_id j (db_deliveries (update_delivery i f db)) = map_option (at_id i f) (find_key wd_delivery_id j (db_deliveries db))"
proof -
  have "find (\<lambda>d. wd_delivery_id d = j) (map (at_id i f) ds) = map_option (at_id i f) (find (\<lambda>d. wd_delivery_id d = j) ds)" for ds
    by (induction ds) (auto simp: at_id_def assms)
  then show ?thesis by (simp add: find_key_def update_delivery_map)
qed

lemma interrupted_facts:
  "same_report d (interrupted now d)" "is_outstanding (interrupted now d)"
  by (simp_all add: same_report_def interrupted_def is_outstanding_def)

lemma recover_loop:
  assumes "notify_ok db" "\<And>i. i \<in> set ids \<Longrightarrow> \<exists>d. find_key wd_delivery_id i (db_deliveries db) = Some d \<and> is_outstanding d"
  shows "notify_ok (fold (\<lambda>i. update_delivery i (interrupted now)) ids db)
    \<and> webhook_step db (fold (\<lambda>i. update_delivery i (interrupted now)) ids db)"
  using assms
proof (induction ids arbitrary: db)
  case Nil
  then show ?case by simp
next
  case (Cons i ids)
  let ?f = "interrupted now"
  let ?d = "update_delivery i ?f db"
  from Cons.prems(2) [of i] obtain d0 where d0: "find_key wd_delivery_id i (db_deliveries db) = Some d0" "is_outstanding d0" by auto
  have ok: "notify_ok ?d"
    by (rule notify_same_stage [OF Cons.prems(1) d0(1) interrupted_facts(1) d0(2) interrupted_facts(2)])
  have id: "wd_delivery_id (?f d) = wd_delivery_id d" for d using interrupted_facts(1) [of d] by (simp add: same_report_def)
  have "\<exists>d. find_key wd_delivery_id j (db_deliveries ?d) = Some d \<and> is_outstanding d" if "j \<in> set ids" for j
  proof -
    from Cons.prems(2) [of j] that obtain d where "find_key wd_delivery_id j (db_deliveries db) = Some d" "is_outstanding d" by auto
    then show ?thesis using interrupted_facts(2) [of now d] by (simp add: find_updated [OF id] at_id_def)
  qed
  from Cons.IH [OF ok this] have "notify_ok (fold (\<lambda>i. update_delivery i ?f) ids ?d) \<and> webhook_step ?d (fold (\<lambda>i. update_delivery i ?f) ids ?d)" .
  then show ?case using webhook_step_trans [OF webhook_step_deliveries(1)] by auto
qed

lemma recover_case:
  assumes "db_ok db" "recover_interrupted_webhook_deliveries now db = (r, db')"
  shows "db_ok db'"
proof (rule webhook_case [OF assms(1)])
  from assms(1) have n: "notify_ok db" by (simp add: db_ok_def)
  let ?ids = "sort (map wd_delivery_id (filter (\<lambda>d. wd_delivery_state d = Sending) (db_deliveries db)))"
  have "\<exists>d. find_key wd_delivery_id i (db_deliveries db) = Some d \<and> is_outstanding d" if "i \<in> set ?ids" for i
    using that find_delivery [OF n] by (auto simp: is_outstanding_def)
  then have "notify_ok (fold (\<lambda>i. update_delivery i (interrupted now)) ?ids db)
    \<and> webhook_step db (fold (\<lambda>i. update_delivery i (interrupted now)) ?ids db)" by (rule recover_loop [OF n])
  with assms(2) show "notify_ok db' \<and> webhook_step db db'"
    by (simp add: recover_interrupted_webhook_deliveries_def Let_def)
qed

lemma claim_case:
  assumes db: "db_ok db" and run: "claim_ready_webhook_delivery now db = (r, db')"
  shows "db_ok db' \<and> (case r of Inr (Some q) \<Rightarrow> claimed db' (qd_delivery_id q) | _ \<Rightarrow> True)"
proof (cases "first_by (\<lambda>d. (wd_observed_at d, wd_delivery_id d)) (filter (is_ready now) (db_deliveries db))")
  case None
  with run db show ?thesis by (auto simp: claim_ready_webhook_delivery_def)
next
  case (Some d)
  then have d: "d \<in> set (db_deliveries db)" "is_ready now d" using first_by_Some [OF Some] by auto
  from db have n: "notify_ok db" by (simp add: db_ok_def)
  have found: "find_key wd_delivery_id (wd_delivery_id d) (db_deliveries db) = Some d" by (rule find_delivery [OF n d(1)])
  have r: "r = Inr (Some (queued_of d))" "db' = update_delivery (wd_delivery_id d) claim_row db"
    using run Some by (auto simp: claim_ready_webhook_delivery_def)
  have "notify_ok db'" unfolding r(2)
    by (rule notify_same_stage [OF n found]) (use d(2) in \<open>auto simp: same_report_def claim_row_def is_outstanding_def is_ready_def\<close>)
  moreover have "webhook_step db db'" unfolding r(2) by (rule webhook_step_deliveries)
  moreover have "claimed db' (wd_delivery_id d)"
    unfolding claimed_def list_ex_iff r(2) update_delivery_map
    by (rule bexI [of _ "at_id (wd_delivery_id d) claim_row d"]) (use d(1) in \<open>simp_all add: at_id_def claim_row_def\<close>)
  ultimately show ?thesis using webhook_case [OF db] by (simp add: r(1) queued_of_def)
qed

lemma record_attempt_case:
  assumes db: "db_ok db" and keep: "notify_ok (update_delivery i (finish_row st nx h b at) db)"
    and run: "record_attempt st i at nx h b err dur db = (r, db')"
  shows "db_ok db'"
proof (cases r)
  case Inl
  with run db show ?thesis by (simp add: record_attempt_def in_tx_Inl)
next
  case (Inr x)
  let ?d = "update_delivery i (finish_row st nx h b at) db"
  from run Inr obtain z where db': "db' = ?d\<lparr>db_attempts := z\<rparr>"
    by (auto simp: record_attempt_def in_tx_Inr andThen_Inr insert_attempt_def split: if_splits)
  have "webhook_step db db'" unfolding db' by (rule webhook_step_trans [OF webhook_step_deliveries(1,3)])
  moreover have "notify_ok db'" using keep by (simp add: db' notify_ok_def deliveries_of_def)
  ultimately show ?thesis using webhook_case [OF db] by blast
qed

lemma outcome_case:
  assumes db: "db_ok db" and held: "claimed db i" and run: "record_outcome ext i at outcome db = (r, db')"
  shows "db_ok db'"
proof -
  from db have n: "notify_ok db" "addresses_ok db" by (simp_all add: db_ok_def)
  from held obtain d where d: "d \<in> set (db_deliveries db)" "wd_delivery_id d = i" "wd_delivery_state d = Sending"
    by (auto simp: claimed_def list_ex_iff)
  have found: "find_key wd_delivery_id i (db_deliveries db) = Some d" using find_delivery [OF n(1) d(1)] d(2) by simp
  have out: "is_outstanding d" using d(3) by (simp add: is_outstanding_def)
  show ?thesis
  proof (cases outcome)
    case (Delivered status body dur now)
    with run have "record_webhook_delivery_success ext i at status body dur now db = (r, db')" by simp
    from success_ok [OF n found out this] show ?thesis by (rule webhook_case [OF db])
  next
    case (RetryLater nx status body err dur)
    with run have att: "record_attempt RetryWait i at (Some nx) status body err dur db = (r, db')"
      by (simp add: record_webhook_delivery_retry_def)
    have "notify_ok (update_delivery i (finish_row RetryWait (Some nx) status body at) db)"
      by (rule notify_same_stage [OF n(1) found _ out]) (simp_all add: same_report_def finish_row_def is_outstanding_def)
    then show ?thesis by (rule record_attempt_case [OF db _ att])
  next
    case (GivenUp status body err dur)
    with run have att: "record_attempt PermanentFailure i at None status body err dur db = (r, db')"
      by (simp add: record_webhook_delivery_permanent_failure_def)
    show ?thesis by (rule record_attempt_case [OF db notify_permanent_failure [OF n(1) found out] att])
  qed
qed


section \<open>Every reachable database\<close>

lemma empty_db_ok: "db_ok empty_db"
  by (simp add: db_ok_def empty_db_def addresses_ok_def receivers_unique_def ledger_ok_def totals_keys_ok_def
      receipt_uids_ok_def totals_current_def receipts_attributed_def notify_ok_def sync_log_ok_def)

lemma service_step_ok:
  assumes ok: "service_ok s" and step: "service_step ext act s = Some s'"
  shows "service_ok s'"
proof -
  from ok have db: "db_ok (sv_db s)" by (simp add: service_ok_def)
  show ?thesis
  proof (cases act)
    case (Db a)
    with step have a: "action_ok (sv_db s) a" "s' = s\<lparr>sv_db := snd (db_task ext a (sv_db s))\<rparr>" by (auto split: if_splits)
    have "db_ok (sv_db s') \<and> deliveries_kept (sv_db s) (sv_db s')"
      by (rule db_task_ok [OF db a(1), of ext "fst (db_task ext a (sv_db s))"]) (simp add: a(2))
    with ok a(2) show ?thesis by (auto simp: service_ok_def intro: deliveries_kept_claimed split: option.splits)
  next
    case (Recover now)
    with step have s': "sv_held s = None" "s' = s\<lparr>sv_db := snd (recover_interrupted_webhook_deliveries now (sv_db s))\<rparr>"
      by (auto split: if_splits)
    have "db_ok (sv_db s')"
      by (rule recover_case [OF db, of now "fst (recover_interrupted_webhook_deliveries now (sv_db s))"]) (simp add: s'(2))
    with s' show ?thesis by (simp add: service_ok_def)
  next
    case (Claim now)
    obtain r d where run: "claim_ready_webhook_delivery now (sv_db s) = (r, d)" by fastforce
    from claim_case [OF db run] Claim step run show ?thesis
      by (auto simp: service_ok_def split: if_splits sum.splits option.splits)
  next
    case (Finish at outcome)
    with step obtain i where i: "sv_held s = Some i"
      "s' = \<lparr>sv_db = snd (record_outcome ext i at outcome (sv_db s)), sv_held = None\<rparr>" by (auto split: option.splits)
    with ok have "claimed (sv_db s) i" by (simp add: service_ok_def)
    then have "db_ok (sv_db s')"
      by (rule outcome_case [OF db, of _ ext at outcome "fst (record_outcome ext i at outcome (sv_db s))"]) (simp add: i(2))
    with i(2) show ?thesis by (simp add: service_ok_def)
  qed (use step db in \<open>auto simp: service_ok_def\<close>)
qed

lemma reachable_ok: "reachable ext s \<Longrightarrow> service_ok s"
proof (induction rule: reachable.induct)
  case reachable_init
  show ?case using empty_db_ok by (simp add: service_ok_def initial_service_def)
next
  case (reachable_step s act s')
  show ?case by (rule service_step_ok [OF reachable_step(3,2)])
qed

end
