(* ===== verification/Service_Guarantees.thy ===== *)
theory Service_Guarantees
  imports Service_System
begin

text \<open>
  What the invariant of the reachable states means to a receiver of webhooks: the totals are
  exact, no notification is lost, acknowledgements never go back and events are ordered.
\<close>

section \<open>What the invariant gives\<close>

lemma reachable_row:
  assumes "reachable ext s" "t \<in> set (db_totals (sv_db s))"
  shows "row_ok t (deliveries_of (sv_db s) (at_address_id t))"
    and "at_current_total_zat t = eligible_total (sv_db s) (at_address_id t)"
    and "find_key at_address_id (at_address_id t) (db_totals (sv_db s)) = Some t"
proof -
  from reachable_ok [OF assms(1)] have ok: "notify_ok (sv_db s)" "ledger_ok (sv_db s)"
    by (simp_all add: service_ok_def db_ok_def)
  from ok(1) assms(2) show "row_ok t (deliveries_of (sv_db s) (at_address_id t))" by (simp add: notify_ok_def)
  from ok(2) assms(2) show "at_current_total_zat t = eligible_total (sv_db s) (at_address_id t)"
    by (simp add: ledger_ok_def totals_current_def list_all_iff total_current_def)
  from ok(2) have "totals_keys_ok (sv_db s)" by (simp add: ledger_ok_def)
  then show "find_key at_address_id (at_address_id t) (db_totals (sv_db s)) = Some t"
    unfolding totals_keys_ok_def by (rule find_key_unique [OF _ assms(2)])
qed

text \<open>Nothing is left to do for the notifications of an address, and none was given up.\<close>

definition at_rest :: "app_db \<Rightarrow> totals_row \<Rightarrow> bool" where
  "at_rest db t \<longleftrightarrow> at_dirty_state t \<noteq> Dirty
     \<and> list_all (\<lambda>d. wd_address_id d = at_address_id t \<longrightarrow> wd_delivery_state d = Succeeded) (db_deliveries db)"

lemma at_rest_told:
  assumes "row_ok t (deliveries_of db (at_address_id t))" "at_rest db t"
  shows "at_last_notified_total_zat t = at_current_total_zat t"
proof -
  have over: "wd_delivery_state d = Succeeded" if "d \<in> set (deliveries_of db (at_address_id t))" for d
    using that assms(2) by (auto simp: at_rest_def deliveries_of_def list_all_iff)
  then have "pending_in t (deliveries_of db (at_address_id t)) = []"
    by (auto simp: pending_in_def filter_empty_conv is_outstanding_def)
  moreover have "\<not> gave_up t (deliveries_of db (at_address_id t))" using over by (auto simp: gave_up_def)
  ultimately show ?thesis using assms by (auto simp: row_ok_def at_rest_def told_def)
qed

text \<open>The newest delivery that succeeded is the acknowledged one.\<close>

lemma acked_newest:
  assumes row: "row_ok t (deliveries_of db (at_address_id t))" and t: "find_key at_address_id (at_address_id t) (db_totals db) = Some t"
    and d: "d \<in> set (db_deliveries db)" "wd_address_id d = at_address_id t" "wd_delivery_state d = Succeeded"
  shows "\<exists>x. acked_delivery db (at_address_id t) = Some x \<and> wd_delivery_id d \<le> wd_delivery_id x
    \<and> wd_delivery_state x = Succeeded \<and> wd_total_received_zat x = at_last_notified_total_zat t"
proof -
  let ?ds = "deliveries_of db (at_address_id t)"
  have din: "d \<in> set ?ds" using d by (simp add: deliveries_of_def)
  with row d(3) obtain e x where e: "at_last_notified_event_id t = Some e" "x \<in> set ?ds" "wd_event_id x = e"
    "wd_delivery_state x = Succeeded" "wd_total_received_zat x = at_last_notified_total_zat t"
    "wd_delivery_id d \<le> wd_delivery_id x" by (fastforce simp: row_ok_def ack_ok_def split: option.splits)
  have "find (\<lambda>d. wd_event_id d = e) ?ds \<noteq> None" using e by (auto simp: find_None_iff)
  then obtain y where y: "find (\<lambda>d. wd_event_id d = e) ?ds = Some y" by auto
  then have "y \<in> set ?ds" "wd_event_id y = e" by (auto dest: find_SomeD)
  with row e have "y = x" using same_event [of t ?ds y x] by (simp add: row_ok_def)
  with y e have "acked_in t ?ds = Some x" by (simp add: acked_in_def)
  with e acked_delivery_local [OF t] show ?thesis by auto
qed

lemma acked_succeeded:
  assumes row: "row_ok t (deliveries_of db (at_address_id t))" and t: "find_key at_address_id (at_address_id t) (db_totals db) = Some t"
    and x: "acked_delivery db (at_address_id t) = Some x"
  shows "x \<in> set (db_deliveries db)" "wd_address_id x = at_address_id t" "wd_delivery_state x = Succeeded" "0 < wd_delivery_id x"
proof -
  let ?ds = "deliveries_of db (at_address_id t)"
  from x t obtain e where e: "at_last_notified_event_id t = Some e" "find (\<lambda>d. wd_event_id d = e) ?ds = Some x"
    by (auto simp: acked_delivery_local [OF t] acked_in_def bind_eq_Some_conv)
  then have x': "x \<in> set ?ds" "wd_event_id x = e" by (auto dest: find_SomeD)
  then show "x \<in> set (db_deliveries db)" "wd_address_id x = at_address_id t" by (simp_all add: deliveries_of_def)
  from row e(1) obtain y where "y \<in> set ?ds" "wd_event_id y = e" "wd_delivery_state y = Succeeded"
    by (auto simp: row_ok_def ack_ok_def)
  with row x' show "wd_delivery_state x = Succeeded" using same_event [of t ?ds x y] by (simp add: row_ok_def)
  from row x'(1) show "0 < wd_delivery_id x" by (auto simp: row_ok_def versions_ok_def event_ok_def)
qed

text \<open>After queueing every dirty address none is left dirty.\<close>

lemma queue_all_clean:
  assumes db: "db_ok db" and run: "queue_all_dirty_webhook_deliveries ext now db = (Inr q, db')" and t: "t \<in> set (db_totals db')"
  shows "at_dirty_state t \<noteq> Dirty"
proof -
  let ?ids = "dirty_addresses db"
  from run have run': "queue_webhook_deliveries_for_dirty_addresses ext ?ids now db = (Inr q, db')"
    by (simp add: queue_all_dirty_webhook_deliveries_def andThen_Inr)
  have dirty: "at_address_id u \<in> set ?ids" if "u \<in> set (db_totals db)" "at_dirty_state u = Dirty" for u
    using that by (auto simp: dirty_addresses_def)
  show ?thesis
  proof (cases "?ids = []")
    case True
    with run' have "db' = db" by (simp add: queue_webhook_deliveries_for_dirty_addresses_def)
    with t dirty True show ?thesis by auto
  next
    case False
    with run' have "queue_webhook_deliveries_in_tx ext ?ids now db = (Inr q, db')"
      by (simp add: queue_webhook_deliveries_for_dirty_addresses_def in_tx_Inr)
    from queue_in_tx_ok [OF this] db t
    have "(at_address_id t \<in> set ?ids \<longrightarrow> at_dirty_state t \<noteq> Dirty) \<and> (at_address_id t \<notin> set ?ids \<longrightarrow> t \<in> set (db_totals db))"
      by (auto simp: db_ok_def)
    with dirty show ?thesis by blast
  qed
qed


section \<open>Acknowledgements never go back\<close>

text \<open>A delivery that succeeded is never touched again.\<close>

definition succeeded_kept :: "app_db \<Rightarrow> app_db \<Rightarrow> bool" where
  "succeeded_kept db db' \<longleftrightarrow>
     (\<forall>d \<in> set (db_deliveries db). wd_delivery_state d = Succeeded \<longrightarrow> d \<in> set (db_deliveries db'))"

lemma update_other_delivery:
  "d \<in> set (db_deliveries db) \<Longrightarrow> wd_delivery_id d \<noteq> i \<Longrightarrow> d \<in> set (db_deliveries (update_delivery i f db))"
  unfolding update_delivery_map set_map by (rule image_eqI [of _ _ d]) (simp_all add: at_id_def)

lemma delivery_unique:
  "notify_ok db \<Longrightarrow> d \<in> set (db_deliveries db) \<Longrightarrow> e \<in> set (db_deliveries db) \<Longrightarrow> wd_delivery_id d = wd_delivery_id e \<Longrightarrow> d = e"
  using key_unique [of wd_delivery_id "db_deliveries db" d e] by (simp add: notify_ok_def)

lemma succeeded_kept_update:
  assumes "notify_ok db" "e \<in> set (db_deliveries db)" "wd_delivery_id e = i" "wd_delivery_state e \<noteq> Succeeded"
  shows "succeeded_kept db (update_delivery i f db)"
  unfolding succeeded_kept_def
proof (intro ballI impI)
  fix d assume "d \<in> set (db_deliveries db)" "wd_delivery_state d = Succeeded"
  with assms delivery_unique [OF assms(1), of d e] show "d \<in> set (db_deliveries (update_delivery i f db))"
    by (intro update_other_delivery) auto
qed

lemma succeeded_kept_recover:
  "d \<in> set (db_deliveries db) \<Longrightarrow> wd_delivery_id d \<notin> set ids \<Longrightarrow>
   d \<in> set (db_deliveries (fold (\<lambda>i. update_delivery i (f i)) ids db))"
  by (induction ids arbitrary: db) (auto intro: update_other_delivery)

lemma succeeded_kept_trans_set:
  "succeeded_kept db d1 \<Longrightarrow> set (db_deliveries d1) \<subseteq> set (db_deliveries d2) \<Longrightarrow> succeeded_kept db d2"
  by (auto simp: succeeded_kept_def)

lemma success_deliveries:
  assumes "record_webhook_delivery_success ext i at st body dur now db = (r, db')"
  shows "db' = db \<or> set (db_deliveries (update_delivery i (finish_row Succeeded None (Some st) (Some body) at) db)) \<subseteq> set (db_deliveries db')"
proof (cases r)
  case (Inl e)
  with assms show ?thesis by (auto simp: record_webhook_delivery_success_def in_tx_Inl)
next
  case (Inr u)
  let ?d = "update_delivery i (finish_row Succeeded None (Some st) (Some body) at) db"
  from assms Inr obtain d0 x d2 where d0: "find_key wd_delivery_id i (db_deliveries db) = Some d0"
    and att: "insert_attempt i at (Some st) (Some body) None dur ?d = (Inr x, d2)"
    and rest: "db' = d2 \<or> (\<exists>a h q. queue_webhook_deliveries_in_tx ext [a] now (update_totals a h d2) = (Inr q, db'))"
    by (auto simp: record_webhook_delivery_success_def in_tx_Inr andThen_Inr split: option.splits if_splits) blast+
  from att have d2: "db_deliveries d2 = db_deliveries ?d" by (auto simp: insert_attempt_def split: if_splits)
  from rest show ?thesis
  proof
    assume "\<exists>a h q. queue_webhook_deliveries_in_tx ext [a] now (update_totals a h d2) = (Inr q, db')"
    then obtain a h q where "queue_webhook_deliveries_in_tx ext [a] now (update_totals a h d2) = (Inr q, db')" by blast
    from deliveries_kept_subset [OF keepsD [OF queue_in_tx_claims deliveries_kept_refl this]] d2 show ?thesis by simp
  qed (simp add: d2)
qed

lemma record_attempt_deliveries:
  assumes "record_attempt st i at nx h b err dur db = (r, db')"
  shows "db' = db \<or> db_deliveries db' = db_deliveries (update_delivery i (finish_row st nx h b at) db)"
  using assms by (cases r) (auto simp: record_attempt_def in_tx_Inl in_tx_Inr andThen_Inr insert_attempt_def split: if_splits)

lemma outcome_succeeded:
  assumes n: "notify_ok db" and held: "claimed db i" and run: "record_outcome ext i at outcome db = (r, db')"
  shows "succeeded_kept db db'"
proof -
  from held obtain e where e: "e \<in> set (db_deliveries db)" "wd_delivery_id e = i" "wd_delivery_state e \<noteq> Succeeded"
    by (auto simp: claimed_def list_ex_iff)
  note upd = succeeded_kept_update [OF n e]
  have same: "succeeded_kept db db" by (simp add: succeeded_kept_def)
  have eq: "succeeded_kept db db'" if "db_deliveries db' = db_deliveries (update_delivery i f db)" for f
    using succeeded_kept_trans_set [OF upd [of f]] that by simp
  show ?thesis
  proof (cases outcome)
    case (Delivered status body dur now)
    with run have "record_webhook_delivery_success ext i at status body dur now db = (r, db')" by simp
    from success_deliveries [OF this] same succeeded_kept_trans_set [OF upd] show ?thesis by blast
  next
    case (RetryLater nx status body err dur)
    with run have "record_attempt RetryWait i at (Some nx) status body err dur db = (r, db')" by (simp add: record_webhook_delivery_retry_def)
    from record_attempt_deliveries [OF this] same eq show ?thesis by blast
  next
    case (GivenUp status body err dur)
    with run have "record_attempt PermanentFailure i at None status body err dur db = (r, db')"
      by (simp add: record_webhook_delivery_permanent_failure_def)
    from record_attempt_deliveries [OF this] same eq show ?thesis by blast
  qed
qed

lemma step_succeeded:
  assumes ok: "service_ok s" and step: "service_step ext act s = Some s'"
  shows "succeeded_kept (sv_db s) (sv_db s')"
proof -
  from ok have db: "db_ok (sv_db s)" "notify_ok (sv_db s)" by (simp_all add: service_ok_def db_ok_def)
  show ?thesis
  proof (cases act)
    case (Db a)
    with step have a: "action_ok (sv_db s) a" "s' = s\<lparr>sv_db := snd (db_task ext a (sv_db s))\<rparr>" by (auto split: if_splits)
    have "deliveries_kept (sv_db s) (sv_db s')"
      by (rule conjunct2 [OF db_task_ok [OF db(1) a(1), of ext "fst (db_task ext a (sv_db s))"]]) (simp add: a(2))
    from deliveries_kept_subset [OF this] show ?thesis by (auto simp: succeeded_kept_def)
  next
    case (Recover now)
    let ?ids = "sort (map wd_delivery_id (filter (\<lambda>d. wd_delivery_state d = Sending) (db_deliveries (sv_db s))))"
    have ids: "wd_delivery_id d \<notin> set ?ids" if d: "d \<in> set (db_deliveries (sv_db s))" "wd_delivery_state d = Succeeded" for d
    proof
      assume "wd_delivery_id d \<in> set ?ids"
      then obtain x where "x \<in> set (db_deliveries (sv_db s))" "wd_delivery_state x = Sending" "wd_delivery_id d = wd_delivery_id x" by auto
      with d delivery_unique [OF db(2), of d x] show False by simp
    qed
    from Recover step have s': "sv_db s' = fold (\<lambda>i. update_delivery i (interrupted now)) ?ids (sv_db s)"
      by (auto simp: recover_interrupted_webhook_deliveries_def Let_def split: if_splits)
    show ?thesis unfolding succeeded_kept_def s'
    proof (intro ballI impI)
      fix d assume d: "d \<in> set (db_deliveries (sv_db s))" "wd_delivery_state d = Succeeded"
      show "d \<in> set (db_deliveries (fold (\<lambda>i. update_delivery i (interrupted now)) ?ids (sv_db s)))"
        by (rule succeeded_kept_recover [OF d(1) ids [OF d]])
    qed
  next
    case (Claim now)
    obtain r d where run: "claim_ready_webhook_delivery now (sv_db s) = (r, d)" by fastforce
    have "succeeded_kept (sv_db s) d"
    proof (cases "first_by (\<lambda>d. (wd_observed_at d, wd_delivery_id d)) (filter (is_ready now) (db_deliveries (sv_db s)))")
      case None
      with run show ?thesis by (auto simp: claim_ready_webhook_delivery_def succeeded_kept_def)
    next
      case (Some e)
      then have "e \<in> set (db_deliveries (sv_db s))" "wd_delivery_state e \<noteq> Succeeded"
        using first_by_Some(1) [OF Some] by (auto simp: is_ready_def)
      with Some run succeeded_kept_update [OF db(2)] show ?thesis by (auto simp: claim_ready_webhook_delivery_def)
    qed
    with Claim step run show ?thesis by (auto split: if_splits sum.splits option.splits)
  next
    case (Finish at outcome)
    with step obtain i where i: "sv_held s = Some i"
      "s' = \<lparr>sv_db = snd (record_outcome ext i at outcome (sv_db s)), sv_held = None\<rparr>" by (auto split: option.splits)
    with ok have "claimed (sv_db s) i" by (simp add: service_ok_def)
    then show ?thesis
      by (rule outcome_succeeded [OF db(2), of _ ext at outcome "fst (record_outcome ext i at outcome (sv_db s))"]) (simp add: i(2))
  qed (use step in \<open>auto simp: succeeded_kept_def\<close>)
qed

lemma acked_id_zero: "notify_ok db \<Longrightarrow> find_key at_address_id a (db_totals db) = None \<Longrightarrow> acked_id db a = 0"
  by (simp add: acked_id_def acked_delivery_def)

lemma acked_id_step:
  assumes reach: "reachable ext s" and step: "service_step ext act s = Some s'"
  shows "acked_id (sv_db s) a \<le> acked_id (sv_db s') a"
proof (cases "acked_delivery (sv_db s) a")
  case None
  have "0 \<le> acked_id (sv_db s') a"
  proof (cases "acked_delivery (sv_db s') a")
    case (Some y)
    then obtain t where "find_key at_address_id a (db_totals (sv_db s')) = Some t"
      by (auto simp: acked_delivery_def bind_eq_Some_conv)
    then have t: "t \<in> set (db_totals (sv_db s'))" "at_address_id t = a" by (auto dest: find_key_Some)
    note R = reachable_row [OF reachable_step [OF reach step] t(1)]
    show ?thesis using acked_succeeded(4) [OF R(1,3)] Some t(2) by (simp add: acked_id_def)
  qed (simp add: acked_id_def)
  with None show ?thesis by (simp add: acked_id_def)
next
  case (Some x)
  then obtain t where "find_key at_address_id a (db_totals (sv_db s)) = Some t" by (auto simp: acked_delivery_def bind_eq_Some_conv)
  then have t: "t \<in> set (db_totals (sv_db s))" "at_address_id t = a" by (auto dest: find_key_Some)
  note R = reachable_row [OF reach t(1)]
  from acked_succeeded [OF R(1,3)] Some t(2) have x: "x \<in> set (db_deliveries (sv_db s))" "wd_address_id x = a" "wd_delivery_state x = Succeeded" by auto
  from x step_succeeded [OF reachable_ok [OF reach] step] have x': "x \<in> set (db_deliveries (sv_db s'))" by (auto simp: succeeded_kept_def)
  have reach': "reachable ext s'" by (rule reachable_step [OF reach step])
  then have "notify_ok (sv_db s')" using reachable_ok by (simp add: service_ok_def db_ok_def)
  with x' x(2) obtain t' where t': "t' \<in> set (db_totals (sv_db s'))" "at_address_id t' = a" by (fastforce simp: notify_ok_def)
  note R' = reachable_row [OF reach' t'(1)]
  from acked_newest [OF R'(1,3) x'] x t'(2) obtain y where "acked_delivery (sv_db s') a = Some y" "wd_delivery_id x \<le> wd_delivery_id y" by auto
  with Some show ?thesis by (simp add: acked_id_def)
qed

section \<open>Order of the events\<close>

lemma event_versions:
  assumes "notify_ok db" "d \<in> set (db_deliveries db)" "e \<in> set (db_deliveries db)"
    "wd_address_id d = a" "wd_address_id e = a" "wd_delivery_id d < wd_delivery_id e"
  shows "\<exists>v w. wd_event_id d = event_text a v \<and> wd_event_id e = event_text a w \<and> v < w"
proof -
  from assms obtain t where t: "t \<in> set (db_totals db)" "at_address_id t = a" by (auto simp: notify_ok_def)
  with assms have row: "row_ok t (deliveries_of db a)" by (auto simp: notify_ok_def)
  have in_ds: "d \<in> set (deliveries_of db a)" "e \<in> set (deliveries_of db a)" using assms by (simp_all add: deliveries_of_def)
  have ev: "\<exists>v. wd_event_id x = event_text a v" if x: "x \<in> set (deliveries_of db a)" for x
  proof -
    from row x have "event_ok t x" by (simp add: row_ok_def versions_ok_def)
    with t(2) show ?thesis by (auto simp: event_ok_def)
  qed
  from ev [OF in_ds(1)] ev [OF in_ds(2)] obtain v w where v: "wd_event_id d = event_text a v" "wd_event_id e = event_text a w"
    by blast
  from row in_ds t(2) have "newer_later a d e" by (simp add: row_ok_def versions_ok_def)
  with v assms(6) have "v < w" by (simp add: newer_later_def)
  with v show ?thesis by blast
qed

lemma newest_word:
  assumes row: "row_ok t (deliveries_of db (at_address_id t))"
    and t: "find_key at_address_id (at_address_id t) (db_totals db) = Some t" "at_dirty_state t \<noteq> Dirty"
    and out: "outstanding db (at_address_id t) = Some d"
  shows "wd_total_received_zat d = at_current_total_zat t
    \<or> (\<exists>x \<in> set (db_deliveries db). wd_address_id x = at_address_id t \<and> wd_delivery_state x = PermanentFailure
         \<and> acked_id db (at_address_id t) < wd_delivery_id x \<and> wd_total_received_zat x = at_current_total_zat t)"
proof -
  let ?ds = "deliveries_of db (at_address_id t)"
  have acked: "acked_id_in t ?ds = acked_id db (at_address_id t)"
    by (simp add: acked_id_def acked_id_in_def acked_delivery_local [OF t(1)])
  from out have last: "last_by wd_delivery_id (pending_in t ?ds) = Some d" by (simp add: outstanding_local [OF t(1)])
  from last_by_Some [OF last] have d: "d \<in> set (pending_in t ?ds)" "\<forall>e \<in> set (pending_in t ?ds). wd_delivery_id e \<le> wd_delivery_id d"
    by auto
  then have "told t ?ds \<Longrightarrow> wd_total_received_zat d = at_current_total_zat t" by (auto simp: told_def split: if_splits)
  moreover from row t(2) have "told t ?ds \<or> gave_up t ?ds" by (simp add: row_ok_def)
  moreover have "x \<in> set (db_deliveries db) \<and> wd_address_id x = at_address_id t" if "x \<in> set ?ds" for x
    using that by (simp add: deliveries_of_def)
  ultimately show ?thesis unfolding gave_up_def acked by blast
qed

section \<open>A sample run\<close>

text \<open>
  One payment from allocation to acknowledgement, then a rescan that moves it to a later block.
  The JSON printer of the sample keeps the event id only.
\<close>

definition sample_ext :: externals where
  "sample_ext = \<lparr>ext_parse_int_array = (\<lambda>s. if s = ''[500,500]'' then Some [500, 500] else None),
     ext_print_json = (\<lambda>j. case j of JObject ((k, JString e) # _) \<Rightarrow> Inr e | _ \<Rightarrow> Inl (Json ''unexpected value'')),
     ext_day_before = (\<lambda>now. Inr ''2025-01-01'')\<rparr>"

definition sample_allocation :: fresh_allocation where
  "sample_allocation = \<lparr>fa_issued_address = \<lparr>na_unified_address = ''u1first'', na_address_source = ''fresh'',
       na_diversifier_index_be = Some [0], na_diversifier_bytes = Some [0], na_request_label = None,
       na_request_memo = None, na_request_message = None, na_requested_amount = Some ''0.5''\<rparr>,
     fa_receivers = [\<lparr>nr_pool = ''orchard'', nr_receiver_encoding = ''u1abc'', nr_receiver_fingerprint = [1, 2, 3]\<rparr>]\<rparr>"

definition sample_receipt :: "string \<Rightarrow> int \<Rightarrow> int \<Rightarrow> attributed_receipt" where
  "sample_receipt uid amount height = \<lparr>sr_address_id = 1, sr_txid_hex = ''ab'', sr_pool = ''orchard'', sr_receipt_uid = uid,
     sr_value_zat = amount, sr_mined_height = height, sr_confirmation_depth = 1, sr_eligible_for_webhook = True,
     sr_receipt_kind = Mined, sr_first_observed_at = ''2025-01-02'', sr_last_observed_at = ''2025-01-02''\<rparr>"

definition sample_queued :: service where
  "sample_queued = the (run_service sample_ext
     [Db (AllocateAddress (\<lambda>_. Inr sample_allocation) ''2025-01-01''),
      Db (ApplyReceipts [sample_receipt ''ab:orchard:0'' 500 100] 100 10 ''2025-01-02''),
      Db (QueueAllDirty ''2025-01-02''), Claim ''2025-01-02''] initial_service)"

definition sample_acked :: service where
  "sample_acked = the (run_service sample_ext [Finish ''2025-01-02'' (Delivered 200 ''ok'' 5 ''2025-01-02'')] sample_queued)"

definition sample_paid_again :: service where
  "sample_paid_again = the (run_service sample_ext
     [Db (ReconcileRange [sample_receipt ''ab:orchard:0'' 500 101, sample_receipt ''cd:orchard:0'' 70 101] 100 101 101 10 ''2025-01-03''),
      Db (QueueAllDirty ''2025-01-03'')] sample_acked)"

lemma run_reachable:
  assumes "reachable ext s" "run_service ext acts s \<noteq> None"
  shows "reachable ext (the (run_service ext acts s))"
  using assms reachable_run by fastforce

lemma sample_reachable:
  "reachable sample_ext sample_queued" "reachable sample_ext sample_acked" "reachable sample_ext sample_paid_again"
proof -
  show 1: "reachable sample_ext sample_queued" unfolding sample_queued_def
    by (rule run_reachable [OF reachable_init]) code_simp
  show 2: "reachable sample_ext sample_acked" unfolding sample_acked_def by (rule run_reachable [OF 1]) code_simp
  show "reachable sample_ext sample_paid_again" unfolding sample_paid_again_def by (rule run_reachable [OF 2]) code_simp
qed

abbreviation first_row :: "service \<Rightarrow> totals_row" where
  "first_row s \<equiv> hd (db_totals (sv_db s))"

section \<open>Properties\<close>

text \<open>C4: In every reachable state of the service, whatever order its tasks ran in and whatever failed,
  the current total stored for an address is the sum of its active receipts that count.\<close>
theorem stored_totals_are_exact:
  assumes "reachable ext s" "t \<in> set (db_totals (sv_db s))"
  shows "at_current_total_zat t = eligible_total (sv_db s) (at_address_id t)"
  using reachable_row [OF assms] by simp

theorem stored_totals_are_exact_witness:
  "at_current_total_zat (first_row sample_paid_again) = eligible_total (sv_db sample_paid_again) 1
   \<and> eligible_total (sv_db sample_paid_again) 1 = 570"
proof -
  have "first_row sample_paid_again \<in> set (db_totals (sv_db sample_paid_again))" by code_simp
  from stored_totals_are_exact [OF sample_reachable(3) this]
  have "at_current_total_zat (first_row sample_paid_again)
    = eligible_total (sv_db sample_paid_again) (at_address_id (first_row sample_paid_again))" .
  moreover have "at_address_id (first_row sample_paid_again) = 1" by code_simp
  moreover have "eligible_total (sv_db sample_paid_again) 1 = 570" by code_simp
  ultimately show ?thesis by simp
qed

text \<open>C3: No payment notification is lost. In every reachable state, once an address is not dirty and
  each of its deliveries has succeeded, the total the receiver acknowledged last is the sum of the
  receipts of the address; this holds across crashes, retries, late acknowledgements and reorgs.\<close>
theorem no_payment_notification_is_lost:
  assumes "reachable ext s" "t \<in> set (db_totals (sv_db s))" "at_rest (sv_db s) t"
  shows "at_last_notified_total_zat t = eligible_total (sv_db s) (at_address_id t)"
  using at_rest_told [OF reachable_row(1) [OF assms(1,2)] assms(3)] reachable_row(2) [OF assms(1,2)] by simp

theorem no_payment_notification_is_lost_witness:
  "at_last_notified_total_zat (first_row sample_acked) = eligible_total (sv_db sample_acked) 1
   \<and> at_last_notified_total_zat (first_row sample_acked) = 500"
proof -
  have "first_row sample_acked \<in> set (db_totals (sv_db sample_acked))" "at_rest (sv_db sample_acked) (first_row sample_acked)" by code_simp+
  from no_payment_notification_is_lost [OF sample_reachable(2) this]
  have "at_last_notified_total_zat (first_row sample_acked)
    = eligible_total (sv_db sample_acked) (at_address_id (first_row sample_acked))" .
  moreover have "at_address_id (first_row sample_acked) = 1" "at_last_notified_total_zat (first_row sample_acked) = 500" by code_simp+
  ultimately show ?thesis by simp
qed

text \<open>C5: The acknowledged event of an address never moves back: no step of any task replaces it by an
  older one, so a success that arrives late for a superseded event cannot undo a newer one.\<close>
theorem acknowledgement_never_goes_back:
  assumes "reachable ext s" "service_step ext act s = Some s'"
  shows "acked_id (sv_db s) a \<le> acked_id (sv_db s') a"
  using assms by (rule acked_id_step)

theorem acknowledgement_never_goes_back_witness:
  "acked_id (sv_db sample_queued) 1 \<le> acked_id (sv_db sample_acked) 1
   \<and> acked_id (sv_db sample_queued) 1 = 0 \<and> acked_id (sv_db sample_acked) 1 = 1"
proof -
  have "service_step sample_ext (Finish ''2025-01-02'' (Delivered 200 ''ok'' 5 ''2025-01-02'')) sample_queued = Some sample_acked"
    by code_simp
  from acknowledgement_never_goes_back [OF sample_reachable(1) this]
  have "acked_id (sv_db sample_queued) 1 \<le> acked_id (sv_db sample_acked) 1" .
  moreover have "acked_id (sv_db sample_queued) 1 = 0" "acked_id (sv_db sample_acked) 1 = 1" by code_simp+
  ultimately show ?thesis by simp
qed

text \<open>C6: The last word on the wire is right: when an address is not dirty, the newest outstanding
  delivery reports its current total, unless an event with exactly that total was given up.\<close>
theorem newest_outstanding_event_is_current:
  assumes "reachable ext s" "t \<in> set (db_totals (sv_db s))" "at_dirty_state t \<noteq> Dirty"
    and "outstanding (sv_db s) (at_address_id t) = Some d"
  shows "wd_total_received_zat d = eligible_total (sv_db s) (at_address_id t)
    \<or> (\<exists>x \<in> set (db_deliveries (sv_db s)). wd_address_id x = at_address_id t \<and> wd_delivery_state x = PermanentFailure
         \<and> acked_id (sv_db s) (at_address_id t) < wd_delivery_id x
         \<and> wd_total_received_zat x = eligible_total (sv_db s) (at_address_id t))"
  using newest_word [OF reachable_row(1,3) [OF assms(1,2)] assms(3,4)] reachable_row(2) [OF assms(1,2)] by simp

theorem newest_outstanding_event_is_current_witness:
  "case outstanding (sv_db sample_paid_again) 1 of None \<Rightarrow> False | Some d \<Rightarrow>
     wd_total_received_zat d = eligible_total (sv_db sample_paid_again) 1"
proof -
  let ?s = sample_paid_again
  have "first_row ?s \<in> set (db_totals (sv_db ?s))" "at_dirty_state (first_row ?s) \<noteq> Dirty" by code_simp+
  note C = newest_outstanding_event_is_current [OF sample_reachable(3) this]
  have "outstanding (sv_db ?s) (at_address_id (first_row ?s)) = Some (the (outstanding (sv_db ?s) 1))"
    "at_address_id (first_row ?s) = 1" "list_all (\<lambda>x. wd_delivery_state x \<noteq> PermanentFailure) (db_deliveries (sv_db ?s))"
    by code_simp+
  with C [of "the (outstanding (sv_db ?s) 1)"] show ?thesis by (auto simp: list_all_iff split: option.splits)
qed

text \<open>Events of an address are numbered in the order they were queued: of two deliveries the later
  one carries the higher version, so a receiver can order them by the event id alone.\<close>
theorem event_ids_follow_the_queue:
  assumes "reachable ext s" "d \<in> set (db_deliveries (sv_db s))" "e \<in> set (db_deliveries (sv_db s))"
    and "wd_address_id d = a" "wd_address_id e = a" "wd_delivery_id d < wd_delivery_id e"
  shows "\<exists>v w. wd_event_id d = event_text a v \<and> wd_event_id e = event_text a w \<and> v < w"
  using reachable_ok [OF assms(1)] assms(2-) by (intro event_versions) (auto simp: service_ok_def db_ok_def)

theorem event_ids_follow_the_queue_witness:
  "\<exists>v w. wd_event_id (db_deliveries (sv_db sample_paid_again) ! 0) = event_text 1 v
     \<and> wd_event_id (db_deliveries (sv_db sample_paid_again) ! 1) = event_text 1 w \<and> v < w"
  by (rule event_ids_follow_the_queue [OF sample_reachable(3)]) code_simp+

text \<open>Queueing all dirty addresses, as startup and every catch-up batch do, leaves no address dirty.\<close>
theorem queueing_leaves_nothing_dirty:
  assumes "reachable ext s" "queue_all_dirty_webhook_deliveries ext now (sv_db s) = (Inr q, db')" "t \<in> set (db_totals db')"
  shows "at_dirty_state t \<noteq> Dirty"
  by (rule queue_all_clean [OF _ assms(2,3)]) (use reachable_ok [OF assms(1)] in \<open>simp add: service_ok_def\<close>)

theorem queueing_leaves_nothing_dirty_witness:
  "at_dirty_state (hd (db_totals (snd (queue_all_dirty_webhook_deliveries sample_ext ''x'' (sv_db sample_acked))))) \<noteq> Dirty"
proof (rule queueing_leaves_nothing_dirty [OF sample_reachable(2)])
  let ?r = "queue_all_dirty_webhook_deliveries sample_ext ''x'' (sv_db sample_acked)"
  show "?r = (Inr [], snd ?r)" by code_simp
  show "hd (db_totals (snd ?r)) \<in> set (db_totals (snd ?r))" by code_simp
qed

text \<open>C7: The address tables are well formed in every reachable state: ids and unified addresses are
  unique, every address has its one row of totals, receivers are unique within their pool, payment
  links point to issued addresses, and every receipt belongs to one.\<close>
theorem address_tables_are_well_formed:
  assumes "reachable ext s"
  shows "addresses_ok (sv_db s) \<and> receipts_attributed (sv_db s)"
  using reachable_ok [OF assms] by (simp add: service_ok_def db_ok_def)

theorem address_tables_are_well_formed_witness:
  "addresses_ok (sv_db sample_paid_again) \<and> receipts_attributed (sv_db sample_paid_again)"
  by (rule address_tables_are_well_formed [OF sample_reachable(3)])

end
