(* ===== verification/Webhook_Worker.thy ===== *)
theory Webhook_Worker
  imports Service_Guarantees Env_Config
begin

text \<open>
  \<^verbatim>\<open>src/webhook_delivery.rs\<close>: one iteration of the delivery worker, its retry schedule, and the
  retried opening of the database. HTTP, HMAC-SHA256 and the clock are parameters.
\<close>

section \<open>The retry schedule\<close>

definition attempt_index :: "int \<Rightarrow> nat" where
  "attempt_index current_attempt_count =
     (case u32_try_from (max current_attempt_count 0) of Some n \<Rightarrow> n | None \<Rightarrow> u32_max)"

definition next_retry_delay_seconds :: "config \<Rightarrow> int \<Rightarrow> nat" where
  "next_retry_delay_seconds cfg current_attempt_count =
     (let i = attempt_index current_attempt_count;
          multiplier = (if 63 \<le> i then u64_max else 2 ^ i)
      in min (sat_mul_u64 (webhook_retry_delay_seconds cfg) multiplier) (webhook_retry_max_delay_seconds cfg))"

definition should_permanently_fail :: "config \<Rightarrow> int \<Rightarrow> bool" where
  "should_permanently_fail cfg current_attempt_count \<longleftrightarrow>
     webhook_max_attempts cfg \<le> sat_add_u32 (attempt_index current_attempt_count) 1"

section \<open>One delivery\<close>

record http_request =
  rq_url :: string
  rq_content_type :: string
  rq_signature :: string
  rq_body :: string

text \<open>What \<^verbatim>\<open>send\<close> gives: a status and the body text (or the text of the error reading it), or no response.\<close>

datatype http_reply = Response nat string | TransportError string

text \<open>
  The world of one iteration: the clock at its readings, the far end, the duration of the
  exchange in milliseconds, HMAC-SHA256, and the time a number of seconds from now
  (\<^verbatim>\<open>checked_add\<close> and formatting).
\<close>

record worker_world =
  ww_now :: string
  ww_attempted_at :: string
  ww_recorded_at :: string
  ww_post :: "http_request \<Rightarrow> http_reply"
  ww_elapsed_ms :: nat
  ww_hmac :: "byte list \<Rightarrow> byte list \<Rightarrow> string + byte list"
  ww_after_seconds :: "int \<Rightarrow> string result option"

definition sign_body :: "worker_world \<Rightarrow> string \<Rightarrow> string \<Rightarrow> string result" where
  "sign_body w secret body =
     (case ww_hmac w (as_bytes secret) (as_bytes body) of
        Inl e \<Rightarrow> Inl (Wallet (''failed to construct webhook HMAC: '' @ e))
      | Inr mac \<Rightarrow> Inr (hex_string mac))"

definition retry_at :: "worker_world \<Rightarrow> nat \<Rightarrow> string result" where
  "retry_at w delay_seconds =
     (case ww_after_seconds w (case i64_try_from delay_seconds of Some s \<Rightarrow> s | None \<Rightarrow> i64_max) of
        None \<Rightarrow> Inl (Wallet ''webhook retry delay overflowed timestamp'')
      | Some r \<Rightarrow> r)"

definition is_success :: "nat \<Rightarrow> bool" where
  "is_success status \<longleftrightarrow> 200 \<le> status \<and> status < 300"

definition is_retryable :: "nat \<Rightarrow> bool" where
  "is_retryable status \<longleftrightarrow> (500 \<le> status \<and> status < 600) \<or> status = 429"

text \<open>The request for a claimed delivery; the configuration is read after the claim.\<close>

definition delivery_request :: "worker_world \<Rightarrow> config \<Rightarrow> queued_delivery \<Rightarrow> http_request result" where
  "delivery_request w cfg q =
     (case webhook_url cfg of
        None \<Rightarrow> Inl (InvalidConfig ''ZCASH_WEBHOOK_URL is not configured'')
      | Some url \<Rightarrow>
          (case webhook_secret cfg of
             None \<Rightarrow> Inl (InvalidConfig ''ZCASH_WEBHOOK_SECRET is not configured'')
           | Some secret \<Rightarrow>
               bind_result (sign_body w secret (qd_request_body_json q)) (\<lambda>signature.
               Inr \<lparr>rq_url = url, rq_content_type = ''application/json'', rq_signature = signature,
                    rq_body = qd_request_body_json q\<rparr>)))"

definition retry_or_give_up ::
  "worker_world \<Rightarrow> config \<Rightarrow> queued_delivery \<Rightarrow> int option \<Rightarrow> string option \<Rightarrow> string option \<Rightarrow> int \<Rightarrow> delivery_outcome result" where
  "retry_or_give_up w cfg q status body err duration =
     (if should_permanently_fail cfg (qd_attempt_count q) then Inr (GivenUp status body err duration)
      else bind_result (retry_at w (next_retry_delay_seconds cfg (qd_attempt_count q))) (\<lambda>next_attempt_at.
           Inr (RetryLater next_attempt_at status body err duration)))"

definition reply_outcome :: "worker_world \<Rightarrow> config \<Rightarrow> queued_delivery \<Rightarrow> http_reply \<Rightarrow> delivery_outcome result" where
  "reply_outcome w cfg q reply =
     (let duration = (case i64_try_from (ww_elapsed_ms w) of Some d \<Rightarrow> d | None \<Rightarrow> i64_max) in
      case reply of
        Response status body \<Rightarrow>
          if is_success status then Inr (Delivered (int status) body duration (ww_recorded_at w))
          else if is_retryable status then retry_or_give_up w cfg q (Some (int status)) (Some body) None duration
          else Inr (GivenUp (Some (int status)) (Some body) None duration)
      | TransportError e \<Rightarrow> retry_or_give_up w cfg q None None (Some e) duration)"

text \<open>The state of the worker's programs: the database, and the requests sent so far.\<close>

record worker_state =
  wk_db :: app_db
  wk_sent :: "http_request list"

definition on_db :: "'a db_op \<Rightarrow> (worker_state, app_error, 'a) prog" where
  "on_db m s = (case m (wk_db s) of (r, db) \<Rightarrow> (r, s\<lparr>wk_db := db\<rparr>))"

definition post_request :: "worker_world \<Rightarrow> http_request \<Rightarrow> (worker_state, app_error, http_reply) prog" where
  "post_request w rq s = (Inr (ww_post w rq), s\<lparr>wk_sent := wk_sent s @ [rq]\<rparr>)"

definition deliver_ready_once :: "externals \<Rightarrow> worker_world \<Rightarrow> config \<Rightarrow> (worker_state, app_error, bool) prog" where
  "deliver_ready_once ext w cfg =
     andThen (on_db (claim_ready_webhook_delivery (ww_now w))) (\<lambda>claim. case claim of
       None \<Rightarrow> ret False
     | Some q \<Rightarrow>
         andThen (lift_result (delivery_request w cfg q)) (\<lambda>rq.
         andThen (post_request w rq) (\<lambda>reply.
         andThen (lift_result (reply_outcome w cfg q reply)) (\<lambda>outcome.
         andThen (on_db (record_outcome ext (qd_delivery_id q) (ww_attempted_at w) outcome)) (\<lambda>_.
         ret True)))))"

text \<open>\<^verbatim>\<open>spawn_webhook_delivery_worker\<close> starts a worker only when it could deliver.\<close>

definition worker_enabled :: "config \<Rightarrow> bool" where
  "worker_enabled cfg \<longleftrightarrow> \<not> (webhook_url cfg = None \<or> webhook_secret cfg = None)"

text \<open>
  \<^verbatim>\<open>delivery_loop\<close> for a number of iterations, each in its own world: after a delivery it goes on
  at once, otherwise it sleeps. The value lists the seconds slept.
\<close>

fun delivery_loop :: "externals \<Rightarrow> config \<Rightarrow> worker_world list \<Rightarrow> worker_state \<Rightarrow> nat list \<times> worker_state" where
  "delivery_loop ext cfg [] s = ([], s)"
| "delivery_loop ext cfg (w # ws) s =
     (case deliver_ready_once ext w cfg s of
        (Inr True, s') \<Rightarrow> delivery_loop ext cfg ws s'
      | (_, s') \<Rightarrow> (case delivery_loop ext cfg ws s' of
                    (slept, t) \<Rightarrow> (webhook_poll_interval_seconds cfg # slept, t)))"

section \<open>Opening the database\<close>

definition OPEN_RETRY_INITIAL_DELAY :: nat where "OPEN_RETRY_INITIAL_DELAY = 250"

definition OPEN_RETRY_MAX_DELAY :: nat where "OPEN_RETRY_MAX_DELAY = 30 * 1000"

text \<open>
  \<^verbatim>\<open>retry_open\<close>: attempt \<open>n\<close> gives \<open>opens n\<close>; the result is the value with the delays slept, in
  milliseconds, and \<open>None\<close> when no attempt ever succeeds.
\<close>

partial_function (option) retry_from :: "(nat \<Rightarrow> 'a result) \<Rightarrow> nat \<Rightarrow> nat \<Rightarrow> nat list \<Rightarrow> ('a \<times> nat list) option" where
  "retry_from opens n delay slept =
     (case opens n of
        Inr v \<Rightarrow> Some (v, slept)
      | Inl e \<Rightarrow> retry_from opens (Suc n) (min (delay * 2) OPEN_RETRY_MAX_DELAY) (slept @ [delay]))"

definition retry_open :: "(nat \<Rightarrow> 'a result) \<Rightarrow> ('a \<times> nat list) option" where
  "retry_open opens = retry_from opens 0 OPEN_RETRY_INITIAL_DELAY []"

section \<open>The schedule\<close>

lemma attempt_index_exact: "0 \<le> n \<Longrightarrow> n \<le> int u32_max \<Longrightarrow> attempt_index n = nat n"
  by (auto simp: attempt_index_def u32_try_from_def max_def split: option.splits)

lemma attempt_index_bound: "attempt_index n \<le> u32_max"
  by (auto simp: attempt_index_def u32_try_from_def split: option.splits if_splits)

text \<open>The delay is the doubled base, capped; the cap makes the saturation invisible.\<close>

lemma delay_exact:
  assumes "0 < webhook_retry_delay_seconds cfg" "webhook_retry_max_delay_seconds cfg \<le> 2 ^ 63"
  shows "next_retry_delay_seconds cfg n =
    min (webhook_retry_delay_seconds cfg * 2 ^ attempt_index n) (webhook_retry_max_delay_seconds cfg)"
proof (cases "63 \<le> attempt_index n")
  case True
  let ?b = "webhook_retry_delay_seconds cfg" let ?m = "webhook_retry_max_delay_seconds cfg"
  have "(2::nat) ^ 63 \<le> 2 ^ attempt_index n" using True by (intro power_increasing) simp_all
  also have "\<dots> \<le> ?b * 2 ^ attempt_index n" using assms(1) by simp
  finally have "?m \<le> ?b * 2 ^ attempt_index n" using assms(2) by linarith
  moreover have "?m \<le> sat_mul_u64 ?b u64_max"
  proof -
    have "u64_max \<le> ?b * u64_max" using assms(1) by simp
    then show ?thesis using assms(2) by (simp add: sat_mul_u64_def min_def)
  qed
  ultimately show ?thesis using True by (simp add: next_retry_delay_seconds_def Let_def)
next
  case False
  have "?thesis \<longleftrightarrow> min (sat_mul_u64 b m) c = min (b * m) c"
    if "b = webhook_retry_delay_seconds cfg" "m = 2 ^ attempt_index n" "c = webhook_retry_max_delay_seconds cfg" for b m c
    using that False by (simp add: next_retry_delay_seconds_def Let_def)
  moreover have "min (sat_mul_u64 b m) c = min (b * m) c" if "c \<le> 2 ^ 63" for b m c :: nat
    using that by (auto simp: sat_mul_u64_def min_def)
  ultimately show ?thesis using assms(2) by simp
qed

lemma delay_bounds:
  "next_retry_delay_seconds cfg n \<le> webhook_retry_max_delay_seconds cfg"
  "0 < webhook_retry_delay_seconds cfg \<Longrightarrow> 0 < webhook_retry_max_delay_seconds cfg \<Longrightarrow> 0 < next_retry_delay_seconds cfg n"
  by (auto simp: next_retry_delay_seconds_def Let_def sat_mul_u64_def)


lemma permanent_failure_iff:
  "0 \<le> n \<Longrightarrow> webhook_max_attempts cfg \<le> u32_max \<Longrightarrow>
   should_permanently_fail cfg n \<longleftrightarrow> int (webhook_max_attempts cfg) \<le> n + 1"
  by (auto simp: should_permanently_fail_def sat_add_u32_def attempt_index_def u32_try_from_def max_def split: option.splits)

section \<open>Opening retries until it succeeds\<close>

definition open_delay :: "nat \<Rightarrow> nat" where
  "open_delay i = min (OPEN_RETRY_INITIAL_DELAY * 2 ^ i) OPEN_RETRY_MAX_DELAY"

lemma open_delay_step: "min (open_delay i * 2) OPEN_RETRY_MAX_DELAY = open_delay (Suc i)"
  by (simp add: open_delay_def min_def OPEN_RETRY_MAX_DELAY_def)

lemma retry_from_first:
  assumes "opens (n + k) = Inr v" "\<And>i. i < k \<Longrightarrow> \<exists>e. opens (n + i) = Inl e"
  shows "retry_from opens n (open_delay n) slept = Some (v, slept @ map open_delay [n..<n + k])"
  using assms
proof (induction k arbitrary: n slept)
  case 0
  then show ?case by (simp add: retry_from.simps)
next
  case (Suc k)
  from Suc.prems(2) [of 0] obtain e where e: "opens n = Inl e" by auto
  have "retry_from opens (Suc n) (open_delay (Suc n)) (slept @ [open_delay n])
    = Some (v, (slept @ [open_delay n]) @ map open_delay [Suc n..<Suc n + k])"
  proof (rule Suc.IH)
    show "opens (Suc n + k) = Inr v" using Suc.prems(1) by simp
    show "\<exists>e. opens (Suc n + i) = Inl e" if "i < k" for i using Suc.prems(2) [of "Suc i"] that by simp
  qed
  moreover have "map open_delay [n..<n + Suc k] = open_delay n # map open_delay [Suc n..<Suc n + k]"
    by (simp add: upt_conv_Cons del: upt_Suc)
  ultimately show ?case using e by (subst retry_from.simps) (simp add: open_delay_step del: upt_Suc)
qed

lemma open_delay_0: "open_delay 0 = OPEN_RETRY_INITIAL_DELAY"
  by (simp add: open_delay_def OPEN_RETRY_INITIAL_DELAY_def OPEN_RETRY_MAX_DELAY_def)

lemma retry_open_first:
  assumes "opens k = Inr v" "\<And>i. i < k \<Longrightarrow> \<exists>e. opens i = Inl e"
  shows "retry_open opens = Some (v, map open_delay [0..<k])"
  using retry_from_first [of opens 0 k v "[]"] assms by (simp add: retry_open_def open_delay_0)

section \<open>One iteration is a run of the service\<close>

lemma on_db_run: "on_db m s = (r, s') \<longleftrightarrow> (\<exists>db. m (wk_db s) = (r, db) \<and> s' = s\<lparr>wk_db := db\<rparr>)"
  by (auto simp: on_db_def split: prod.splits)

lemma claim_total: "\<exists>c db. claim_ready_webhook_delivery now d = (Inr c, db)"
  by (auto simp: claim_ready_webhook_delivery_def split: option.splits)

text \<open>The branches of an iteration.\<close>

lemma deliver_cases [consumes 1, case_names idle refused no_outcome recorded]:
  assumes "deliver_ready_once ext w cfg s = (r, s')"
  obtains db where "claim_ready_webhook_delivery (ww_now w) (wk_db s) = (Inr None, db)" "r = Inr False" "s' = s\<lparr>wk_db := db\<rparr>"
  | q db e where "claim_ready_webhook_delivery (ww_now w) (wk_db s) = (Inr (Some q), db)"
      "delivery_request w cfg q = Inl e" "r = Inl e" "s' = s\<lparr>wk_db := db\<rparr>"
  | q db rq e where "claim_ready_webhook_delivery (ww_now w) (wk_db s) = (Inr (Some q), db)"
      "delivery_request w cfg q = Inr rq" "reply_outcome w cfg q (ww_post w rq) = Inl e" "r = Inl e"
      "s' = s\<lparr>wk_db := db, wk_sent := wk_sent s @ [rq]\<rparr>"
  | q db rq outcome q' db' where "claim_ready_webhook_delivery (ww_now w) (wk_db s) = (Inr (Some q), db)"
      "delivery_request w cfg q = Inr rq" "reply_outcome w cfg q (ww_post w rq) = Inr outcome"
      "record_outcome ext (qd_delivery_id q) (ww_attempted_at w) outcome db = (q', db')"
      "r = (case q' of Inl e \<Rightarrow> Inl e | Inr _ \<Rightarrow> Inr True)" "s' = s\<lparr>wk_db := db', wk_sent := wk_sent s @ [rq]\<rparr>"
proof -
  obtain c db where c: "claim_ready_webhook_delivery (ww_now w) (wk_db s) = (Inr c, db)" using claim_total by blast
  show thesis
  proof (cases c)
    case None
    with assms c have "r = Inr False" "s' = s\<lparr>wk_db := db\<rparr>"
      by (simp_all add: deliver_ready_once_def andThen_def on_db_def ret_def)
    with c None that(1) show thesis by simp
  next
    case (Some q)
    note claim = c [unfolded Some]
    show thesis
    proof (cases "delivery_request w cfg q")
      case (Inl e)
      with assms claim have "r = Inl e" "s' = s\<lparr>wk_db := db\<rparr>"
        by (simp_all add: deliver_ready_once_def andThen_def on_db_def lift_result_def)
      with claim Inl that(2) show thesis by simp
    next
      case (Inr rq)
      note rq = Inr
      show thesis
      proof (cases "reply_outcome w cfg q (ww_post w rq)")
        case (Inl e)
        with assms claim rq have "r = Inl e" "s' = s\<lparr>wk_db := db, wk_sent := wk_sent s @ [rq]\<rparr>"
          by (simp_all add: deliver_ready_once_def andThen_def on_db_def lift_result_def post_request_def)
        with claim rq Inl that(3) show thesis by simp
      next
        case (Inr outcome)
        obtain q' db' where rec: "record_outcome ext (qd_delivery_id q) (ww_attempted_at w) outcome db = (q', db')" by fastforce
        with assms claim rq Inr have "r = (case q' of Inl e \<Rightarrow> Inl e | Inr _ \<Rightarrow> Inr True)"
          "s' = s\<lparr>wk_db := db', wk_sent := wk_sent s @ [rq]\<rparr>"
          by (auto simp: deliver_ready_once_def andThen_def on_db_def lift_result_def post_request_def ret_def split: sum.splits)
        with claim rq Inr rec that(4) show thesis by simp
      qed
    qed
  qed
qed

lemma iteration_steps:
  assumes "deliver_ready_once ext w cfg s = (r, s')"
  shows "\<exists>acts. run_service ext acts \<lparr>sv_db = wk_db s, sv_held = None\<rparr> = Some \<lparr>sv_db = wk_db s', sv_held = None\<rparr>
    \<and> (acts = [Claim (ww_now w)] \<or> acts = [Claim (ww_now w), WorkerError]
       \<or> (\<exists>outcome. acts = [Claim (ww_now w), Finish (ww_attempted_at w) outcome]))"
  using assms
proof (cases rule: deliver_cases)
  case (idle db)
  then show ?thesis by (intro exI [of _ "[Claim (ww_now w)]"]) simp
next
  case (refused q db e)
  then show ?thesis by (intro exI [of _ "[Claim (ww_now w), WorkerError]"]) simp
next
  case (no_outcome q db rq e)
  then show ?thesis by (intro exI [of _ "[Claim (ww_now w), WorkerError]"]) simp
next
  case (recorded q db rq outcome q' db')
  then show ?thesis by (intro exI [of _ "[Claim (ww_now w), Finish (ww_attempted_at w) outcome]"]) simp
qed

lemma claim_body:
  assumes "claim_ready_webhook_delivery now db = (Inr (Some q), db')"
  shows "\<exists>d \<in> set (db_deliveries db). is_ready now d \<and> q = queued_of d"
proof -
  from assms obtain d where "first_by (\<lambda>d. (wd_observed_at d, wd_delivery_id d)) (filter (is_ready now) (db_deliveries db)) = Some d" "q = queued_of d"
    by (auto simp: claim_ready_webhook_delivery_def split: option.splits)
  with first_by_Some(1) [OF this(1)] show ?thesis by auto
qed

lemma request_fields:
  assumes "delivery_request w cfg q = Inr rq"
  obtains url secret mac where "webhook_url cfg = Some url" "webhook_secret cfg = Some secret"
    "ww_hmac w (as_bytes secret) (as_bytes (qd_request_body_json q)) = Inr mac"
    "rq = \<lparr>rq_url = url, rq_content_type = ''application/json'', rq_signature = hex_string mac, rq_body = qd_request_body_json q\<rparr>"
  using assms by (auto simp: delivery_request_def sign_body_def bind_result_Inr split: option.splits sum.splits)


section \<open>The number of attempts\<close>

definition attempts_of :: "app_db \<Rightarrow> int \<Rightarrow> attempt_row list" where
  "attempts_of db i = filter (\<lambda>a. wa_delivery_id a = i) (db_attempts db)"

text \<open>Each delivery counts its attempts, has at most \<open>n\<close>, and one that is open has room for another.\<close>

definition count_ok :: "nat \<Rightarrow> app_db \<Rightarrow> delivery_row \<Rightarrow> bool" where
  "count_ok n db d \<longleftrightarrow> wd_attempt_count d = int (length (attempts_of db (wd_delivery_id d)))
     \<and> wd_attempt_count d \<le> int n \<and> (is_outstanding d \<longrightarrow> wd_attempt_count d < int n)"

definition attempts_ok :: "nat \<Rightarrow> app_db \<Rightarrow> bool" where
  "attempts_ok n db \<longleftrightarrow> list_all (count_ok n db) (db_deliveries db)
     \<and> list_all (\<lambda>a. wa_delivery_id a \<in> wd_delivery_id ` set (db_deliveries db)) (db_attempts db)"

lemma attempts_kept:
  assumes att: "attempts_ok n db" "0 < n" and kept: "deliveries_kept db db'" and ok: "notify_ok db'"
  shows "attempts_ok n db'"
proof -
  from kept obtain new where new: "db_attempts db' = db_attempts db" "db_deliveries db' = db_deliveries db @ new" "list_all untried new"
    by (auto simp: deliveries_kept_def)
  have of': "attempts_of db' i = attempts_of db i" for i by (simp add: attempts_of_def new(1))
  have "count_ok n db' d" if d: "d \<in> set new" for d
  proof -
    have "wd_delivery_id d \<notin> wd_delivery_id ` set (db_deliveries db)"
      using ok d by (auto simp: notify_ok_def new(2))
    moreover have "wa_delivery_id a \<in> wd_delivery_id ` set (db_deliveries db)" if "a \<in> set (db_attempts db)" for a
      using att(1) that by (simp add: attempts_ok_def list_all_iff)
    ultimately have "attempts_of db (wd_delivery_id d) = []"
      unfolding attempts_of_def filter_empty_conv by metis
    with new(3) d att(2) show ?thesis by (simp add: count_ok_def of' list_all_iff untried_def)
  qed
  with att(1) show ?thesis by (auto simp: attempts_ok_def new list_all_iff count_ok_def of')
qed

lemma attempts_update:
  assumes att: "attempts_ok n db"
    and f: "\<And>d. wd_delivery_id (f d) = wd_delivery_id d" "\<And>d. wd_attempt_count (f d) = wd_attempt_count d"
    and out: "\<And>d. d \<in> set (db_deliveries db) \<Longrightarrow> wd_delivery_id d = i \<Longrightarrow> is_outstanding (f d) \<Longrightarrow> is_outstanding d"
  shows "attempts_ok n (update_delivery i f db)"
proof -
  let ?db = "update_delivery i f db"
  have of': "attempts_of ?db j = attempts_of db j" for j by (simp add: attempts_of_def)
  have id: "wd_delivery_id (at_id i f d) = wd_delivery_id d" for d by (simp add: at_id_def f)
  have "count_ok n ?db (at_id i f d)" if d: "d \<in> set (db_deliveries db)" for d
    using att d out [OF d] f by (auto simp: attempts_ok_def list_all_iff count_ok_def of' at_id_def)
  moreover have "wd_delivery_id ` set (db_deliveries ?db) = wd_delivery_id ` set (db_deliveries db)"
    by (simp add: update_delivery_map image_image id)
  ultimately show ?thesis using att unfolding attempts_ok_def
    by (simp add: list_all_iff update_delivery_map)
qed

text \<open>Recording an attempt: the count and the attempts table move together.\<close>

lemma attempts_recorded:
  assumes att: "attempts_ok n db" and n: "notify_ok db"
    and d: "d \<in> set (db_deliveries db)" "wd_delivery_id d = i" "wd_attempt_count d < int n"
    and room: "st = RetryWait \<Longrightarrow> wd_attempt_count d + 1 < int n" and st: "st \<in> {RetryWait, Succeeded, PermanentFailure}"
    and run: "insert_attempt i at h b err dur (update_delivery i (finish_row st nx h' b' at') db) = (q, db')"
  shows "attempts_ok n db'"
proof -
  let ?f = "finish_row st nx h' b' at'"
  have ids: "map wd_delivery_id (db_deliveries (update_delivery i ?f db)) = map wd_delivery_id (db_deliveries db)"
    by (simp add: update_delivery_map at_id_def finish_row_def)
  from d have "i \<in> set (map wd_delivery_id (db_deliveries db))" by auto
  with run ids obtain row where db': "db' = (update_delivery i ?f db)\<lparr>db_attempts := db_attempts db @ [row]\<rparr>" "wa_delivery_id row = i"
    by (auto simp: insert_attempt_def attempt_row_of_def simp del: set_map split: if_splits)
  have of': "attempts_of db' j = attempts_of db j @ (if j = i then [row] else [])" for j
    by (simp add: attempts_of_def db')
  have "count_ok n db' (at_id i ?f e)" if e: "e \<in> set (db_deliveries db)" for e
  proof (cases "wd_delivery_id e = i")
    case True
    with d delivery_unique [OF n d(1) e] have "e = d" by simp
    moreover from att d(1) have "count_ok n db d" by (simp add: attempts_ok_def list_all_iff)
    ultimately show ?thesis using d room st
      by (auto simp: count_ok_def of' at_id_def finish_row_def is_outstanding_def)
  next
    case False
    from att e have e': "count_ok n db e" by (simp add: attempts_ok_def list_all_iff)
    have same: "at_id i ?f e = e" "attempts_of db' (wd_delivery_id e) = attempts_of db (wd_delivery_id e)"
      using False by (simp_all add: at_id_def of')
    show ?thesis using e' unfolding count_ok_def same .
  qed
  moreover have "wd_delivery_id ` set (db_deliveries db') = wd_delivery_id ` set (db_deliveries db)"
    using arg_cong [OF ids, of set] by (simp add: db')
  ultimately show ?thesis using att d(1,2) unfolding attempts_ok_def
    by (auto simp: list_all_iff db' update_delivery_map)
qed


lemma success_parts:
  assumes "record_webhook_delivery_success ext i at st body dur now db = (r, db')"
  shows "db' = db \<or> (\<exists>q d2. insert_attempt i at (Some st) (Some body) None dur
      (update_delivery i (finish_row Succeeded None (Some st) (Some body) at) db) = (q, d2) \<and> deliveries_kept d2 db')"
proof (cases r)
  case (Inl e)
  with assms show ?thesis by (auto simp: record_webhook_delivery_success_def in_tx_Inl)
next
  case (Inr u)
  let ?d = "update_delivery i (finish_row Succeeded None (Some st) (Some body) at) db"
  from assms Inr obtain d0 x d2 where d0: "find_key wd_delivery_id i (db_deliveries db) = Some d0"
    and att: "insert_attempt i at (Some st) (Some body) None dur ?d = (Inr x, d2)"
    and rest: "db' = d2 \<or> (\<exists>a h q. queue_webhook_deliveries_in_tx ext [a] now (update_totals a h d2) = (Inr q, db'))"
    by (auto simp: record_webhook_delivery_success_def in_tx_Inr andThen_Inr split: option.splits if_splits) blast+
  from rest have "deliveries_kept d2 db'"
  proof
    assume "\<exists>a h q. queue_webhook_deliveries_in_tx ext [a] now (update_totals a h d2) = (Inr q, db')"
    then obtain a h q where "queue_webhook_deliveries_in_tx ext [a] now (update_totals a h d2) = (Inr q, db')" by blast
    from keepsD [OF queue_in_tx_claims update_totals_claims this] show ?thesis .
  qed simp
  with att show ?thesis by blast
qed

lemma record_attempt_parts:
  assumes "record_attempt st i at nx h b err dur db = (r, db')"
  shows "db' = db \<or> (\<exists>q. insert_attempt i at h b err dur (update_delivery i (finish_row st nx h b at) db) = (q, db'))"
  using assms by (cases r) (auto simp: record_attempt_def in_tx_Inl in_tx_Inr andThen_Inr)

lemma outcome_attempts:
  assumes db: "db_ok db" and att: "attempts_ok n db" "0 < n"
    and d: "d \<in> set (db_deliveries db)" "wd_delivery_id d = i" "wd_delivery_state d = Sending"
    and room: "\<And>nx h b err dur. outcome = RetryLater nx h b err dur \<Longrightarrow> wd_attempt_count d + 1 < int n"
    and run: "record_outcome ext i at outcome db = (r, db')"
  shows "attempts_ok n db'"
proof -
  from db have n: "notify_ok db" by (simp add: db_ok_def)
  from att(1) d have less: "wd_attempt_count d < int n"
    by (auto simp: attempts_ok_def list_all_iff count_ok_def is_outstanding_def)
  have "claimed db i" using d by (auto simp: claimed_def list_ex_iff)
  then have ok': "notify_ok db'" using outcome_case [OF db _ run] by (simp add: db_ok_def)
  show ?thesis
  proof (cases outcome)
    case (Delivered status body dur now)
    with run have "record_webhook_delivery_success ext i at status body dur now db = (r, db')" by simp
    from success_parts [OF this] show ?thesis
    proof
      assume "\<exists>q d2. insert_attempt i at (Some status) (Some body) None dur
          (update_delivery i (finish_row Succeeded None (Some status) (Some body) at) db) = (q, d2) \<and> deliveries_kept d2 db'"
      then obtain q d2 where run': "insert_attempt i at (Some status) (Some body) None dur
          (update_delivery i (finish_row Succeeded None (Some status) (Some body) at) db) = (q, d2)" and kept: "deliveries_kept d2 db'" by blast
      have "attempts_ok n d2" by (rule attempts_recorded [OF att(1) n d(1,2) less _ _ run']) simp_all
      then show ?thesis by (rule attempts_kept [OF _ att(2) kept ok'])
    qed (simp add: att)
  next
    case (RetryLater nx status body err dur)
    with run have "record_attempt RetryWait i at (Some nx) status body err dur db = (r, db')"
      by (simp add: record_webhook_delivery_retry_def)
    from record_attempt_parts [OF this] show ?thesis
    proof
      assume "\<exists>q. insert_attempt i at status body err dur (update_delivery i (finish_row RetryWait (Some nx) status body at) db) = (q, db')"
      then obtain q where run': "insert_attempt i at status body err dur (update_delivery i (finish_row RetryWait (Some nx) status body at) db) = (q, db')" by blast
      show ?thesis by (rule attempts_recorded [OF att(1) n d(1,2) less room [OF RetryLater] _ run']) simp
    qed (simp add: att)
  next
    case (GivenUp status body err dur)
    with run have "record_attempt PermanentFailure i at None status body err dur db = (r, db')"
      by (simp add: record_webhook_delivery_permanent_failure_def)
    from record_attempt_parts [OF this] show ?thesis
    proof
      assume "\<exists>q. insert_attempt i at status body err dur (update_delivery i (finish_row PermanentFailure None status body at) db) = (q, db')"
      then obtain q where run': "insert_attempt i at status body err dur (update_delivery i (finish_row PermanentFailure None status body at) db) = (q, db')" by blast
      show ?thesis by (rule attempts_recorded [OF att(1) n d(1,2) less _ _ run']) simp_all
    qed (simp add: att)
  qed
qed

lemma claim_attempts:
  assumes "attempts_ok n db" "notify_ok db" "claim_ready_webhook_delivery now db = (r, db')"
  shows "attempts_ok n db' \<and> (case r of Inr (Some q) \<Rightarrow>
      \<exists>d \<in> set (db_deliveries db'). wd_delivery_id d = qd_delivery_id q \<and> wd_delivery_state d = Sending
        \<and> wd_attempt_count d = qd_attempt_count q | _ \<Rightarrow> True)"
proof (cases "first_by (\<lambda>d. (wd_observed_at d, wd_delivery_id d)) (filter (is_ready now) (db_deliveries db))")
  case None
  with assms show ?thesis by (auto simp: claim_ready_webhook_delivery_def)
next
  case (Some d)
  then have d: "d \<in> set (db_deliveries db)" "is_ready now d" using first_by_Some(1) [OF Some] by auto
  from Some assms(3) have r: "r = Inr (Some (queued_of d))" "db' = update_delivery (wd_delivery_id d) claim_row db"
    by (auto simp: claim_ready_webhook_delivery_def)
  have "attempts_ok n db'" unfolding r(2)
  proof (rule attempts_update [OF assms(1)])
    fix e assume "e \<in> set (db_deliveries db)" "wd_delivery_id e = wd_delivery_id d"
    with delivery_unique [OF assms(2) _ d(1)] have "e = d" by simp
    with d(2) show "is_outstanding e" by (auto simp: is_ready_def is_outstanding_def)
  qed (simp_all add: claim_row_def)
  moreover have "claim_row d \<in> set (db_deliveries db')"
    unfolding r(2) update_delivery_map set_map by (rule image_eqI [OF _ d(1)]) (simp add: at_id_def)
  ultimately show ?thesis by (auto simp: r(1) queued_of_def claim_row_def intro!: bexI [of _ "claim_row d"])
qed

lemma retry_has_room:
  assumes "reply_outcome w cfg q reply = Inr (RetryLater nx h b err dur)" "0 \<le> qd_attempt_count q" "webhook_max_attempts cfg \<le> u32_max"
  shows "qd_attempt_count q + 1 < int (webhook_max_attempts cfg)"
proof -
  have "\<not> should_permanently_fail cfg (qd_attempt_count q)"
    using assms(1) by (auto simp: reply_outcome_def Let_def retry_or_give_up_def split: http_reply.splits if_splits)
  with permanent_failure_iff [OF assms(2,3)] show ?thesis by simp
qed

lemma iteration_attempts:
  assumes db: "db_ok (wk_db s)" and att: "attempts_ok (webhook_max_attempts cfg) (wk_db s)"
    and cfg: "0 < webhook_max_attempts cfg" "webhook_max_attempts cfg \<le> u32_max"
    and run: "deliver_ready_once ext w cfg s = (r, s')"
  shows "attempts_ok (webhook_max_attempts cfg) (wk_db s')"
proof -
  from db have n: "notify_ok (wk_db s)" by (simp add: db_ok_def)
  note C = claim_attempts [OF att n]
  from run show ?thesis
  proof (cases rule: deliver_cases)
    case (recorded q d1 rq outcome q' db')
    from claim_case [OF db recorded(1)] have d1: "db_ok d1" by simp
    from C [OF recorded(1)] obtain d where att1: "attempts_ok (webhook_max_attempts cfg) d1"
      and d: "d \<in> set (db_deliveries d1)" "wd_delivery_id d = qd_delivery_id q" "wd_delivery_state d = Sending"
        "wd_attempt_count d = qd_attempt_count q" by auto
    from att1 d(1) have "0 \<le> wd_attempt_count d" by (auto simp: attempts_ok_def list_all_iff count_ok_def)
    then have "attempts_ok (webhook_max_attempts cfg) db'"
      by (intro outcome_attempts [OF d1 att1 cfg(1) d(1-3) _ recorded(4)])
        (use retry_has_room recorded(3) d(4) cfg(2) in auto)
    with recorded show ?thesis by simp
  qed (use C in auto)
qed

lemma recover_attempts:
  assumes "db_ok db" "attempts_ok n db" "recover_interrupted_webhook_deliveries now db = (r, db')"
  shows "attempts_ok n db'"
proof -
  have loop: "attempts_ok n (fold (\<lambda>i. update_delivery i (interrupted now)) ids d)"
    if "attempts_ok n d" "\<And>e. e \<in> set (db_deliveries d) \<Longrightarrow> wd_delivery_id e \<in> set ids \<Longrightarrow> is_outstanding e" for ids d
    using that
  proof (induction ids arbitrary: d)
    case Nil
    then show ?case by simp
  next
    case (Cons i ids)
    let ?d = "update_delivery i (interrupted now) d"
    have "attempts_ok n ?d"
      by (rule attempts_update [OF Cons.prems(1)]) (use Cons.prems(2) in \<open>auto simp: interrupted_def\<close>)
    moreover have "is_outstanding e" if "e \<in> set (db_deliveries ?d)" "wd_delivery_id e \<in> set ids" for e
      using that Cons.prems(2) by (auto simp: update_delivery_map at_id_def interrupted_def is_outstanding_def split: if_splits)
    ultimately show ?case using Cons.IH [of ?d] by simp
  qed
  let ?ids = "sort (map wd_delivery_id (filter (\<lambda>d. wd_delivery_state d = Sending) (db_deliveries db)))"
  have "is_outstanding e" if e: "e \<in> set (db_deliveries db)" "wd_delivery_id e \<in> set ?ids" for e
  proof -
    from e(2) obtain d where "d \<in> set (db_deliveries db)" "wd_delivery_state d = Sending" "wd_delivery_id e = wd_delivery_id d" by auto
    with e(1) delivery_unique [of db e d] assms(1) have "e = d" by (simp add: db_ok_def)
    with \<open>wd_delivery_state d = Sending\<close> show ?thesis by (simp add: is_outstanding_def)
  qed
  then have "attempts_ok n (fold (\<lambda>i. update_delivery i (interrupted now)) ?ids db)" by (rule loop [OF assms(2)])
  with assms(3) show ?thesis by (simp add: recover_interrupted_webhook_deliveries_def Let_def)
qed

section \<open>Databases a worker can leave\<close>

text \<open>
  The tasks, the startup recovery, the iterations of the worker with one configuration, and an
  iteration cut off by a crash after its claim.
\<close>

inductive worker_run :: "externals \<Rightarrow> config \<Rightarrow> app_db \<Rightarrow> bool" for ext cfg where
  run_start: "worker_run ext cfg empty_db"
| run_task: "worker_run ext cfg db \<Longrightarrow> action_ok db act \<Longrightarrow> db_task ext act db = (r, db') \<Longrightarrow> worker_run ext cfg db'"
| run_recover: "worker_run ext cfg db \<Longrightarrow> recover_interrupted_webhook_deliveries now db = (q, db') \<Longrightarrow> worker_run ext cfg db'"
| run_iteration: "worker_run ext cfg db \<Longrightarrow> deliver_ready_once ext w cfg \<lparr>wk_db = db, wk_sent = sent\<rparr> = (b, s') \<Longrightarrow>
    worker_run ext cfg (wk_db s')"
| run_crash: "worker_run ext cfg db \<Longrightarrow> claim_ready_webhook_delivery now db = (c, db') \<Longrightarrow> worker_run ext cfg db'"

lemma iteration_ok:
  assumes "db_ok (wk_db s)" "deliver_ready_once ext w cfg s = (r, s')"
  shows "db_ok (wk_db s')"
  using assms(2)
proof (cases rule: deliver_cases)
  case (recorded q d1 rq outcome q' db')
  from claim_case [OF assms(1) recorded(1)] have "db_ok d1" "claimed d1 (qd_delivery_id q)" by simp_all
  from outcome_case [OF this recorded(4)] recorded show ?thesis by simp
next
  case (idle db)
  from claim_case [OF assms(1) idle(1)] idle(3) show ?thesis by simp
next
  case (refused q db e)
  from claim_case [OF assms(1) refused(1)] refused(4) show ?thesis by simp
next
  case (no_outcome q db rq e)
  from claim_case [OF assms(1) no_outcome(1)] no_outcome(5) show ?thesis by simp
qed

lemma worker_run_ok:
  assumes "worker_run ext cfg db" "0 < webhook_max_attempts cfg" "webhook_max_attempts cfg \<le> u32_max"
  shows "db_ok db \<and> attempts_ok (webhook_max_attempts cfg) db"
  using assms(1)
proof induction
  case run_start
  show ?case using empty_db_ok by (simp add: attempts_ok_def empty_db_def)
next
  case (run_task db act r db')
  from run_task(4) have "db_ok db" "attempts_ok (webhook_max_attempts cfg) db" by simp_all
  note T = db_task_ok [OF this(1) run_task(2,3)]
  then have "notify_ok db'" by (simp add: db_ok_def)
  from attempts_kept [OF \<open>attempts_ok (webhook_max_attempts cfg) db\<close> assms(2) conjunct2 [OF T] this] T show ?case by simp
next
  case (run_recover db now q db')
  then show ?case using recover_case recover_attempts by blast
next
  case (run_iteration db w sent b s')
  let ?s = "\<lparr>wk_db = db, wk_sent = sent\<rparr>"
  from run_iteration(3) have "db_ok (wk_db ?s)" "attempts_ok (webhook_max_attempts cfg) (wk_db ?s)" by simp_all
  with iteration_ok [OF _ run_iteration(2)] iteration_attempts [OF _ _ assms(2,3) run_iteration(2)] show ?case by blast
next
  case (run_crash db now c db')
  then have ok: "db_ok db" "attempts_ok (webhook_max_attempts cfg) db" by simp_all
  then have "notify_ok db" by (simp add: db_ok_def)
  with ok claim_case [OF ok(1) run_crash(2)] claim_attempts [OF ok(2) _ run_crash(2)] show ?case by blast
qed

section \<open>Properties\<close>

text \<open>C14: The delay before the next attempt doubles with every recorded attempt and is capped: for any
  cap up to 2^63 seconds the saturating arithmetic of the code agrees with the exact formula, the delay
  is positive, and it never exceeds the configured maximum.\<close>
theorem retry_delay_is_capped_doubling:
  assumes "0 < webhook_retry_delay_seconds cfg" "0 < webhook_retry_max_delay_seconds cfg"
    and "webhook_retry_max_delay_seconds cfg \<le> 2 ^ 63" "0 \<le> n" "n \<le> int u32_max"
  shows "next_retry_delay_seconds cfg n =
      min (webhook_retry_delay_seconds cfg * 2 ^ nat n) (webhook_retry_max_delay_seconds cfg)
    \<and> 0 < next_retry_delay_seconds cfg n \<and> next_retry_delay_seconds cfg n \<le> webhook_retry_max_delay_seconds cfg"
  using delay_exact [OF assms(1,3)] delay_bounds [of cfg n] assms attempt_index_exact [of n] by simp

definition sample_config :: config where
  "sample_config = (case from_env sample_parser 4 (\<lambda>name. if name = ''ZCASH_WEBHOOK_SECRET'' then Some (Utf8 ''s'')
     else if name = ''ZCASH_WEBHOOK_URL'' then Some (Utf8 ''https://shop.example'') else sample_env name) of Inr c \<Rightarrow> c | Inl _ \<Rightarrow> undefined)"

lemma sample_config_fields:
  "webhook_retry_delay_seconds sample_config = 30" "webhook_retry_max_delay_seconds sample_config = 300"
  "webhook_max_attempts sample_config = 8" "webhook_url sample_config = Some ''https://shop.example''"
  "webhook_secret sample_config = Some ''s''"
  by code_simp+

theorem retry_delay_is_capped_doubling_witness:
  "next_retry_delay_seconds sample_config 2 = 120 \<and> next_retry_delay_seconds sample_config 70 = 300"
  using retry_delay_is_capped_doubling [of sample_config 2] retry_delay_is_capped_doubling [of sample_config 70]
  by (simp add: sample_config_fields)

text \<open>C15: Opening the database is retried until it succeeds: if attempt \<open>k\<close> is the first that succeeds,
  the worker gets its value, after sleeping 250 ms doubled before each further attempt and capped at
  30 s; a database that stays locked only delays the worker.\<close>
theorem open_is_retried_until_it_succeeds:
  assumes "opens k = Inr v" "\<And>i. i < k \<Longrightarrow> \<exists>e. opens i = Inl e"
  shows "retry_open opens = Some (v, map (\<lambda>i. min (250 * 2 ^ i) 30000) [0..<k])"
proof -
  have "retry_open opens = Some (v, map open_delay [0..<k])"
    by (rule retry_open_first) (use assms in auto)
  then show ?thesis
    by (simp add: open_delay_def [abs_def] OPEN_RETRY_INITIAL_DELAY_def OPEN_RETRY_MAX_DELAY_def)
qed

theorem open_is_retried_until_it_succeeds_witness:
  "retry_open (\<lambda>i. if i < 9 then Inl (Io ''locked'') else Inr (5::nat))
   = Some (5, [250, 500, 1000, 2000, 4000, 8000, 16000, 30000, 30000])"
  using open_is_retried_until_it_succeeds [of "\<lambda>i. if i < 9 then Inl (Io ''locked'') else Inr (5::nat)" 9 5]
  by (simp add: upt_conv_Cons)

text \<open>C13: An iteration of the worker sends at most one request, to the configured URL; its body is the
  JSON stored with the ready delivery it claimed, byte for byte, and its signature is the hex of the
  HMAC of exactly that body under the configured secret.\<close>
theorem requests_carry_the_stored_signed_body:
  assumes "deliver_ready_once ext w cfg s = (r, s')"
  shows "wk_sent s' = wk_sent s \<or>
    (\<exists>d url secret mac. d \<in> set (db_deliveries (wk_db s)) \<and> is_ready (ww_now w) d
       \<and> webhook_url cfg = Some url \<and> webhook_secret cfg = Some secret
       \<and> ww_hmac w (as_bytes secret) (as_bytes (wd_request_body_json d)) = Inr mac
       \<and> wk_sent s' = wk_sent s @ [\<lparr>rq_url = url, rq_content_type = ''application/json'',
            rq_signature = hex_string mac, rq_body = wd_request_body_json d\<rparr>])"
proof -
  have sent: ?thesis if "claim_ready_webhook_delivery (ww_now w) (wk_db s) = (Inr (Some q), db)"
    "delivery_request w cfg q = Inr rq" "wk_sent s' = wk_sent s @ [rq]" for q db rq
  proof -
    from claim_body [OF that(1)] obtain d where d: "d \<in> set (db_deliveries (wk_db s))" "is_ready (ww_now w) d" "q = queued_of d" by blast
    from request_fields [OF that(2)] obtain url secret mac where f: "webhook_url cfg = Some url"
      "webhook_secret cfg = Some secret" "ww_hmac w (as_bytes secret) (as_bytes (qd_request_body_json q)) = Inr mac"
      "rq = \<lparr>rq_url = url, rq_content_type = ''application/json'', rq_signature = hex_string mac, rq_body = qd_request_body_json q\<rparr>" .
    have "qd_request_body_json q = wd_request_body_json d" using d by (simp add: queued_of_def)
    with d(1,2) f that(3) show ?thesis by (intro disjI2 exI [of _ d] exI [of _ url] exI [of _ secret] exI [of _ mac]) simp
  qed
  from assms show ?thesis
  proof (cases rule: deliver_cases)
    case (no_outcome q db rq e)
    with sent [OF no_outcome(1,2)] show ?thesis by simp
  next
    case (recorded q db rq outcome q' db')
    with sent [OF recorded(1,2)] show ?thesis by simp
  qed simp_all
qed

definition sample_world :: "nat \<Rightarrow> worker_world" where
  "sample_world status = \<lparr>ww_now = ''2025-01-03'', ww_attempted_at = ''2025-01-03'', ww_recorded_at = ''2025-01-03'',
     ww_post = (\<lambda>rq. Response status (rq_signature rq)), ww_elapsed_ms = 7,
     ww_hmac = (\<lambda>key msg. Inr (key @ take 1 msg)), ww_after_seconds = (\<lambda>n. Some (Inr ''2025-01-04''))\<rparr>"

theorem requests_carry_the_stored_signed_body_witness:
  "wk_sent (snd (deliver_ready_once sample_ext (sample_world 200) sample_config \<lparr>wk_db = sv_db sample_paid_again, wk_sent = []\<rparr>)) \<noteq> []
   \<and> (\<exists>d \<in> set (db_deliveries (sv_db sample_paid_again)). is_ready ''2025-01-03'' d)"
proof -
  let ?s = "\<lparr>wk_db = sv_db sample_paid_again, wk_sent = []\<rparr>"
  let ?r = "deliver_ready_once sample_ext (sample_world 200) sample_config ?s"
  have "wk_sent (snd ?r) \<noteq> []" by code_simp
  with requests_carry_the_stored_signed_body [of sample_ext "sample_world 200" sample_config ?s "fst ?r" "snd ?r"]
  show ?thesis by (auto simp: sample_world_def)
qed



text \<open>C12: No delivery is attempted more often than configured: in every database the tasks, the startup
  recovery and the worker can leave, crashes included, the attempt count of a delivery is the number of
  its rows in the attempts table and at most WEBHOOK_MAX_ATTEMPTS, and a delivery that is still open has
  an attempt left.\<close>
theorem attempts_never_exceed_the_maximum:
  assumes "worker_run ext cfg db" "0 < webhook_max_attempts cfg" "webhook_max_attempts cfg \<le> u32_max"
    and "d \<in> set (db_deliveries db)"
  shows "wd_attempt_count d = int (length (filter (\<lambda>a. wa_delivery_id a = wd_delivery_id d) (db_attempts db)))
    \<and> wd_attempt_count d \<le> int (webhook_max_attempts cfg)
    \<and> (is_outstanding d \<longrightarrow> wd_attempt_count d < int (webhook_max_attempts cfg))"
  using worker_run_ok [OF assms(1-3)] assms(4)
  by (auto simp: attempts_ok_def list_all_iff count_ok_def attempts_of_def)

lemma worker_run_tasks:
  "worker_run ext cfg db \<Longrightarrow> action_ok db act \<Longrightarrow> worker_run ext cfg (snd (db_task ext act db))"
  by (rule run_task [where r = "fst (db_task ext act db)"]) simp_all

definition sample_worked :: app_db where
  "sample_worked =
     (let d1 = snd (db_task sample_ext (AllocateAddress (\<lambda>_. Inr sample_allocation) ''2025-01-01'') empty_db);
          d2 = snd (db_task sample_ext (ApplyReceipts [sample_receipt ''ab:orchard:0'' 500 100] 100 10 ''2025-01-02'') d1);
          d3 = snd (db_task sample_ext (QueueAllDirty ''2025-01-02'') d2)
      in wk_db (snd (deliver_ready_once sample_ext (sample_world 503) sample_config \<lparr>wk_db = d3, wk_sent = []\<rparr>)))"

lemma sample_worked_run: "worker_run sample_ext sample_config sample_worked"
  unfolding sample_worked_def Let_def
  by (rule run_iteration [OF _ prod.collapse [symmetric]])
    (intro worker_run_tasks run_start, code_simp+)

theorem attempts_never_exceed_the_maximum_witness:
  "wd_attempt_count (hd (db_deliveries sample_worked)) = 1 \<and> is_outstanding (hd (db_deliveries sample_worked))
   \<and> length (db_attempts sample_worked) = 1"
proof -
  have d: "hd (db_deliveries sample_worked) \<in> set (db_deliveries sample_worked)" by code_simp
  have "wd_attempt_count (hd (db_deliveries sample_worked)) \<le> int (webhook_max_attempts sample_config)"
    using attempts_never_exceed_the_maximum [OF sample_worked_run _ _ d] by (simp add: sample_config_fields)
  moreover have "wd_attempt_count (hd (db_deliveries sample_worked)) = 1" "is_outstanding (hd (db_deliveries sample_worked))"
    "length (db_attempts sample_worked) = 1" by code_simp+
  ultimately show ?thesis by simp
qed

end
