(* ===== verification/Lightwalletd.thy ===== *)
theory Lightwalletd
  imports Env_Config Text_Encoding
begin

text \<open>
  The client half of \<^verbatim>\<open>src/scanner.rs\<close>: the cache of connected channels, the bounded retry around
  every call, the calls themselves and the wait for the next block. The far end and the
  transport (\<^verbatim>\<open>tonic\<close>, \<^verbatim>\<open>http\<close>) are parameters, one function per primitive, each given the number of the
  interaction so that it may answer differently every time.
\<close>

section \<open>The far end\<close>

datatype rpc_code = Code_NotFound | Code_Unknown | Code_Other string

text \<open>A \<^verbatim>\<open>tonic::Status\<close>: its code, its message, and its text as printed.\<close>

record rpc_status =
  rs_code :: rpc_code
  rs_message :: string
  rs_text :: string

record compact_tx =
  ct_outputs :: "byte list list"
  ct_actions :: "byte list list"
  ct_ironwood_actions :: "byte list list"
  ct_hash :: "byte list"

record compact_block =
  cb_height :: nat
  cb_vtx :: "compact_tx list"

text \<open>The messages of a stream, in order; the first error ends the reading.\<close>

type_synonym 'a message_stream = "(rpc_status + 'a) list"

record 'c lightwalletd =
  lw_parse_uri :: uri_parser
  lw_endpoint :: "string \<Rightarrow> string + unit"
  lw_tls_config :: "string \<Rightarrow> string + unit"
  lw_connect :: "nat \<Rightarrow> string \<Rightarrow> string + 'c"
  lw_latest_block :: "nat \<Rightarrow> 'c \<Rightarrow> rpc_status + nat"
  lw_block_range :: "nat \<Rightarrow> 'c \<Rightarrow> nat \<Rightarrow> nat \<Rightarrow> rpc_status + compact_block message_stream"
  lw_mempool_tx :: "nat \<Rightarrow> 'c \<Rightarrow> rpc_status + byte list message_stream"
  lw_transaction :: "nat \<Rightarrow> 'c \<Rightarrow> byte list \<Rightarrow> rpc_status + byte list"
  lw_tree_state :: "nat \<Rightarrow> 'c \<Rightarrow> nat \<Rightarrow> rpc_status + byte list"
  lw_timed_out :: "nat \<Rightarrow> bool"

text \<open>
  What the client keeps: the number of interactions, the channel cache behind its mutex, and the
  delays slept (in seconds) between attempts.
\<close>

record 'c link_state =
  ls_clock :: nat
  ls_channels :: "(string \<times> 'c) list"
  ls_poisoned :: bool
  ls_slept :: "nat list"

type_synonym ('c, 'a) call = "('c link_state, app_error, 'a) prog"

definition interact :: "(nat \<Rightarrow> 'a result) \<Rightarrow> ('c, 'a) call" where
  "interact f s = (f (ls_clock s), s\<lparr>ls_clock := Suc (ls_clock s)\<rparr>)"

definition map_err :: "('e \<Rightarrow> string) \<Rightarrow> 'e + 'a \<Rightarrow> 'a result" where
  "map_err text r = (case r of Inl e \<Rightarrow> Inl (Wallet (text e)) | Inr x \<Rightarrow> Inr x)"

definition rpc_error :: "string \<Rightarrow> string \<Rightarrow> rpc_status \<Rightarrow> string" where
  "rpc_error what url e = what @ url @ '': '' @ rs_text e"

section \<open>Channels\<close>

definition LIGHTWALLETD_RETRY_ATTEMPT_LIMIT :: nat where "LIGHTWALLETD_RETRY_ATTEMPT_LIMIT = 3"
definition LIGHTWALLETD_RETRY_DELAY :: nat where "LIGHTWALLETD_RETRY_DELAY = 2"
definition LIGHTWALLETD_REQUEST_TIMEOUT :: nat where "LIGHTWALLETD_REQUEST_TIMEOUT = 30"

definition parse_lightwalletd_uri :: "'c lightwalletd \<Rightarrow> string \<Rightarrow> uri result" where
  "parse_lightwalletd_uri lw url =
     (case lw_parse_uri lw url of
        Inl e \<Rightarrow> Inl (InvalidConfig (''LIGHTWALLETD_URL must be a valid URI; got '' @ url @ '': '' @ e))
      | Inr u \<Rightarrow> Inr u)"

definition remove_lightwalletd_channel :: "string \<Rightarrow> 'c link_state \<Rightarrow> 'c link_state" where
  "remove_lightwalletd_channel url s =
     (if ls_poisoned s then s else s\<lparr>ls_channels := filter (\<lambda>(u, c). u \<noteq> url) (ls_channels s)\<rparr>)"

definition cached_channel :: "string \<Rightarrow> ('c, 'c option) call" where
  "cached_channel url s =
     (if ls_poisoned s then (Inl (Wallet ''lightwalletd channel cache lock was poisoned''), s)
      else (Inr (map_of (ls_channels s) url), s))"

definition cache_channel :: "string \<Rightarrow> 'c \<Rightarrow> ('c, unit) call" where
  "cache_channel url c s =
     (if ls_poisoned s then (Inl (Wallet ''lightwalletd channel cache lock was poisoned''), s)
      else (Inr (), s\<lparr>ls_channels := (url, c) # filter (\<lambda>(u, _). u \<noteq> url) (ls_channels s)\<rparr>))"

text \<open>The endpoint of a URL: an error in it is one of the configuration.\<close>

definition lightwalletd_endpoint :: "'c lightwalletd \<Rightarrow> string \<Rightarrow> unit result" where
  "lightwalletd_endpoint lw url =
     bind_result (parse_lightwalletd_uri lw url) (\<lambda>u.
     case lw_endpoint lw url of
       Inl e \<Rightarrow> Inl (InvalidConfig (''LIGHTWALLETD_URL must be a valid endpoint; got '' @ url @ '': '' @ e))
     | Inr () \<Rightarrow>
         if uri_scheme u = Some ''https'' then
           (case uri_authority u of
              None \<Rightarrow> Inl (InvalidConfig (''LIGHTWALLETD_URL must include a host when using https: '' @ url))
            | Some a \<Rightarrow>
                (case lw_tls_config lw (au_host a) of
                   Inl e \<Rightarrow> Inl (InvalidConfig (''failed to configure TLS for LIGHTWALLETD_URL '' @ url @ '': '' @ e))
                 | Inr () \<Rightarrow> Inr ()))
         else Inr ())"

definition get_lightwalletd_channel :: "'c lightwalletd \<Rightarrow> string \<Rightarrow> ('c, 'c) call" where
  "get_lightwalletd_channel lw url =
     andThen (cached_channel url) (\<lambda>cached.
     case cached of
       Some c \<Rightarrow> ret c
     | None \<Rightarrow>
         andThen (lift_result (lightwalletd_endpoint lw url)) (\<lambda>_.
         andThen (interact (\<lambda>n. map_err (\<lambda>e. ''failed to connect to lightwalletd at '' @ url @ '': '' @ e)
                                  (lw_connect lw n url))) (\<lambda>c.
         andThen (cache_channel url c) (\<lambda>_.
         ret c))))"

section \<open>Retries\<close>

text \<open>\<open>attempt\<close> counts the attempts made; the delays are slept between them.\<close>

function retry_attempts :: "'c lightwalletd \<Rightarrow> string \<Rightarrow> ('c \<Rightarrow> ('c, 'a) call) \<Rightarrow> nat \<Rightarrow> ('c, 'a) call" where
  "retry_attempts lw url operation attempt s =
     (case andThen (get_lightwalletd_channel lw url) operation s of
        (Inr v, t) \<Rightarrow> (Inr v, t)
      | (Inl e, t) \<Rightarrow>
          if Suc attempt < LIGHTWALLETD_RETRY_ATTEMPT_LIMIT \<and> is_retryable_lightwalletd_error e then
            (let u = remove_lightwalletd_channel url t in
             retry_attempts lw url operation (Suc attempt) (u\<lparr>ls_slept := ls_slept u @ [LIGHTWALLETD_RETRY_DELAY]\<rparr>))
          else (Inl e, t))"
  by pat_completeness auto
termination
  by (relation "measure (\<lambda>(lw, url, operation, attempt, s). LIGHTWALLETD_RETRY_ATTEMPT_LIMIT - attempt)") auto

declare retry_attempts.simps [simp del]

definition with_lightwalletd_retry :: "'c lightwalletd \<Rightarrow> string \<Rightarrow> ('c \<Rightarrow> ('c, 'a) call) \<Rightarrow> ('c, 'a) call" where
  "with_lightwalletd_retry lw url operation = retry_attempts lw url operation 0"

definition with_request_timeout :: "'c lightwalletd \<Rightarrow> nat \<Rightarrow> string \<Rightarrow> string \<Rightarrow> ('c, 'a) call \<Rightarrow> ('c, 'a) call" where
  "with_request_timeout lw limit url operation_name m s =
     (if lw_timed_out lw (ls_clock s) then
        (Inl (Wallet (operation_name @ '' against '' @ url @ '' timed out after '' @ show_nat limit @ ''s'')),
         s\<lparr>ls_clock := Suc (ls_clock s)\<rparr>)
      else m s)"

section \<open>Calls\<close>

text \<open>\<^verbatim>\<open>while let Some(m) = stream.message().await? { .. push(m) }\<close>\<close>

definition read_stream :: "(rpc_status \<Rightarrow> string) \<Rightarrow> 'a message_stream \<Rightarrow> 'a list result" where
  "read_stream text ms = map_result (map_err text) ms"

definition latest_block_height :: "'c lightwalletd \<Rightarrow> string \<Rightarrow> ('c, nat) call" where
  "latest_block_height lw url =
     andThen (with_lightwalletd_retry lw url (\<lambda>c.
         with_request_timeout lw LIGHTWALLETD_REQUEST_TIMEOUT url ''fetch latest block''
           (interact (\<lambda>n. map_err (rpc_error ''failed to fetch latest block from '' url) (lw_latest_block lw n c)))))
       (\<lambda>height. if height \<le> u32_max then ret height
                 else raise (Wallet ''latest lightwalletd height overflowed u32''))"

definition request_block_range :: "'c lightwalletd \<Rightarrow> (rpc_status \<Rightarrow> string) \<Rightarrow> (rpc_status \<Rightarrow> string) \<Rightarrow> nat \<Rightarrow> nat
    \<Rightarrow> 'c \<Rightarrow> ('c, compact_block list) call" where
  "request_block_range lw request_text read_text start_height end_height c =
     interact (\<lambda>n. bind_result (map_err request_text (lw_block_range lw n c start_height end_height))
       (read_stream read_text))"

definition fetch_block_at :: "'c lightwalletd \<Rightarrow> string \<Rightarrow> nat \<Rightarrow> ('c, compact_block list) call" where
  "fetch_block_at lw url height =
     with_lightwalletd_retry lw url (request_block_range lw
       (rpc_error (''failed to request block '' @ show_nat height @ '' from '') url)
       (rpc_error (''failed to read block stream for height '' @ show_nat height @ '' from '') url)
       height height)"

definition fetch_compact_blocks_for_heights :: "'c lightwalletd \<Rightarrow> string \<Rightarrow> nat list \<Rightarrow> ('c, compact_block list) call" where
  "fetch_compact_blocks_for_heights lw url heights =
     andThen (for_each (\<lambda>height blocks. andThen (fetch_block_at lw url height) (\<lambda>fetched. ret (blocks @ fetched)))
                (bset_of heights) [])
       (\<lambda>blocks. ret (sort_key cb_height blocks))"

definition fetch_compact_blocks_for_height_range :: "'c lightwalletd \<Rightarrow> string \<Rightarrow> nat \<Rightarrow> nat \<Rightarrow> ('c, compact_block list) call" where
  "fetch_compact_blocks_for_height_range lw url start_height end_height =
     (if end_height < start_height then ret []
      else let range = show_nat start_height @ ''..='' @ show_nat end_height @ '' from '' in
        with_lightwalletd_retry lw url (\<lambda>c.
          andThen (request_block_range lw
              (rpc_error (''failed to request compact blocks '' @ range) url)
              (rpc_error (''failed to read block stream for heights '' @ range) url) start_height end_height c)
            (\<lambda>blocks. ret (sort_key cb_height blocks))))"

definition fetch_tree_state :: "'c lightwalletd \<Rightarrow> string \<Rightarrow> nat \<Rightarrow> ('c, byte list) call" where
  "fetch_tree_state lw url height =
     with_lightwalletd_retry lw url (\<lambda>c. interact (\<lambda>n.
       map_err (rpc_error (''failed to fetch tree state at height '' @ show_nat height @ '' from '') url)
         (lw_tree_state lw n c height)))"

definition fetch_current_mempool_txids :: "'c lightwalletd \<Rightarrow> string \<Rightarrow> ('c, byte list list) call" where
  "fetch_current_mempool_txids lw url =
     with_lightwalletd_retry lw url (\<lambda>c.
       with_request_timeout lw LIGHTWALLETD_REQUEST_TIMEOUT url ''fetch mempool snapshot''
         (interact (\<lambda>n. bind_result (map_err (rpc_error ''failed to request mempool snapshot from '' url) (lw_mempool_tx lw n c))
            (read_stream (rpc_error ''failed to read mempool snapshot from '' url)))))"

text \<open>\<^verbatim>\<open>str::contains\<close>\<close>

fun contains_text :: "string \<Rightarrow> string \<Rightarrow> bool" where
  "contains_text s [] \<longleftrightarrow> take (length s) [] = s"
| "contains_text s (c # t) \<longleftrightarrow> take (length s) (c # t) = s \<or> contains_text s t"

definition missing_mempool_transaction_is_benign :: "rpc_status \<Rightarrow> bool" where
  "missing_mempool_transaction_is_benign status \<longleftrightarrow>
     rs_code status = Code_NotFound
     \<or> (rs_code status = Code_Unknown
        \<and> (contains_text ''No such mempool or main chain transaction'' (rs_message status)
           \<or> contains_text ''Transaction not found'' (rs_message status)))"

definition fetched_transaction :: "string \<Rightarrow> rpc_status + byte list \<Rightarrow> byte list option result" where
  "fetched_transaction url response =
     (case response of
        Inr raw \<Rightarrow> Inr (Some raw)
      | Inl status \<Rightarrow>
          if missing_mempool_transaction_is_benign status then Inr None
          else Inl (Wallet (rpc_error ''failed to fetch mempool transaction from '' url status)))"

definition fetch_raw_transaction :: "'c lightwalletd \<Rightarrow> string \<Rightarrow> byte list \<Rightarrow> ('c, byte list option) call" where
  "fetch_raw_transaction lw url txid =
     with_lightwalletd_retry lw url (\<lambda>c.
       with_request_timeout lw LIGHTWALLETD_REQUEST_TIMEOUT url ''fetch mempool transaction''
         (interact (\<lambda>n. fetched_transaction url (lw_transaction lw n c txid))))"

definition fetch_raw_transactions_by_txids :: "'c lightwalletd \<Rightarrow> string \<Rightarrow> byte list list \<Rightarrow> ('c, byte list list) call" where
  "fetch_raw_transactions_by_txids lw url txids =
     for_each (\<lambda>txid transactions.
         andThen (fetch_raw_transaction lw url txid) (\<lambda>raw.
         ret (case raw of None \<Rightarrow> transactions | Some r \<Rightarrow> transactions @ [r])))
       txids []"

section \<open>Waiting for a block\<close>

text \<open>
  While it waits, the stream may end (with a result), or the interval ticks and the tip is
  read, unless the stream ends while that request runs.
\<close>

datatype tip_check = TipRead "nat result" | StreamEndedFirst "unit result"

datatype wait_event = StreamEnded "unit result" | Tick tip_check

fun wait_for_stream_or_tip :: "nat \<Rightarrow> wait_event list \<Rightarrow> unit result option" where
  "wait_for_stream_or_tip expected_tip_height [] = None"
| "wait_for_stream_or_tip expected_tip_height (StreamEnded r # events) = Some r"
| "wait_for_stream_or_tip expected_tip_height (Tick (StreamEndedFirst r) # events) = Some r"
| "wait_for_stream_or_tip expected_tip_height (Tick (TipRead (Inl e)) # events) = Some (Inl e)"
| "wait_for_stream_or_tip expected_tip_height (Tick (TipRead (Inr tip_height)) # events) =
     (if expected_tip_height < tip_height then Some (Inr ())
      else wait_for_stream_or_tip expected_tip_height events)"

definition wait_for_block_mempool_stream_with :: "nat \<Rightarrow> nat result \<Rightarrow> wait_event list \<Rightarrow> unit result option" where
  "wait_for_block_mempool_stream_with expected_tip_height first_height events =
     (case first_height of
        Inl e \<Rightarrow> Some (Inl e)
      | Inr h \<Rightarrow>
          if expected_tip_height < h then Some (Inr ())
          else wait_for_stream_or_tip expected_tip_height events)"

text \<open>\<^verbatim>\<open>wait_for_block_mempool_stream\<close>: opening the stream may fail, then nothing is waited for.\<close>

definition wait_for_block_mempool_stream :: "unit result \<Rightarrow> nat \<Rightarrow> nat result \<Rightarrow> wait_event list \<Rightarrow> unit result option" where
  "wait_for_block_mempool_stream opened expected_tip_height first_height events =
     (case opened of
        Inl e \<Rightarrow> Some (Inl e)
      | Inr () \<Rightarrow> wait_for_block_mempool_stream_with expected_tip_height first_height events)"

section \<open>What a retried call does\<close>

definition delays_only :: "'c link_state \<Rightarrow> 'c link_state \<Rightarrow> nat list \<Rightarrow> bool" where
  "delays_only s t ds \<longleftrightarrow> ls_slept t = ls_slept s @ ds \<and> ls_poisoned t = ls_poisoned s"

definition quiet :: "('c, 'a) call \<Rightarrow> bool" where
  "quiet m \<longleftrightarrow> (\<forall>s r t. m s = (r, t) \<longrightarrow> delays_only s t [])"

lemma delays_refl [simp]: "delays_only s s []"
  by (simp add: delays_only_def)

lemma delays_trans: "delays_only s t ds \<Longrightarrow> delays_only t u es \<Longrightarrow> delays_only s u (ds @ es)"
  by (simp add: delays_only_def)

lemma quietI: "(\<And>s r t. m s = (r, t) \<Longrightarrow> delays_only s t []) \<Longrightarrow> quiet m"
  by (simp add: quiet_def)

lemma quietD: "quiet m \<Longrightarrow> m s = (r, t) \<Longrightarrow> delays_only s t []"
  by (simp add: quiet_def)

lemma quiet_interact: "quiet (interact f)"
  by (rule quietI) (auto simp: interact_def delays_only_def)

lemma quiet_andThen: "quiet m \<Longrightarrow> (\<And>x. quiet (f x)) \<Longrightarrow> quiet (andThen m f)"
proof (rule quietI)
  fix s r t
  assume m: "quiet m" and f: "\<And>x. quiet (f x)" and run: "andThen m f s = (r, t)"
  obtain q u where q: "m s = (q, u)" by (cases "m s")
  show "delays_only s t []"
  proof (cases q)
    case (Inl e)
    with run q quietD [OF m q] show ?thesis by (simp add: andThen_def)
  next
    case (Inr x)
    with run q have "f x u = (r, t)" by (simp add: andThen_def)
    from delays_trans [OF quietD [OF m q] quietD [OF f this]] show ?thesis by simp
  qed
qed

lemma quiet_basic: "quiet (ret x)" "quiet (raise e)" "quiet (lift_result r)"
  by (auto simp: quiet_def)

lemma quiet_channel: "quiet (get_lightwalletd_channel lw url)"
proof -
  have "quiet (cached_channel url)" for url :: string by (rule quietI) (auto simp: cached_channel_def split: if_splits)
  moreover have "quiet (cache_channel url c)" for url :: string and c :: 'a
    by (rule quietI) (auto simp: cache_channel_def delays_only_def split: if_splits)
  ultimately show ?thesis unfolding get_lightwalletd_channel_def
    by (intro quiet_andThen) (auto split: option.splits intro!: quiet_andThen quiet_basic quiet_interact)
qed

lemma quiet_timeout: "quiet m \<Longrightarrow> quiet (with_request_timeout lw limit url name m)"
  by (rule quietI) (auto simp: with_request_timeout_def delays_only_def dest: quietD split: if_splits)

lemma delays_remove: "delays_only s (remove_lightwalletd_channel url s) []"
  by (simp add: remove_lightwalletd_channel_def delays_only_def)

lemma retry_run:
  "\<lbrakk>retry_attempts lw url operation attempt s = (r, t); \<And>c. quiet (operation c);
    attempt < LIGHTWALLETD_RETRY_ATTEMPT_LIMIT\<rbrakk> \<Longrightarrow>
   \<exists>k. attempt + k < LIGHTWALLETD_RETRY_ATTEMPT_LIMIT \<and> delays_only s t (replicate k LIGHTWALLETD_RETRY_DELAY)
     \<and> (\<forall>e. r = Inl e \<longrightarrow> is_retryable_lightwalletd_error e \<longrightarrow> attempt + k + 1 = LIGHTWALLETD_RETRY_ATTEMPT_LIMIT)"
proof (induction lw url operation attempt s rule: retry_attempts.induct)
  case (1 lw url operation attempt s)
  obtain q u where q: "andThen (get_lightwalletd_channel lw url) operation s = (q, u)" by fastforce
  have step: "delays_only s u []" using quietD [OF quiet_andThen [OF quiet_channel "1.prems"(2)] q] .
  show ?case
  proof (cases "\<exists>e. q = Inl e \<and> Suc attempt < LIGHTWALLETD_RETRY_ATTEMPT_LIMIT \<and> is_retryable_lightwalletd_error e")
    case True
    then obtain e where e: "q = Inl e" "Suc attempt < LIGHTWALLETD_RETRY_ATTEMPT_LIMIT" "is_retryable_lightwalletd_error e" by blast
    define v where "v = remove_lightwalletd_channel url u"
    let ?w = "v\<lparr>ls_slept := ls_slept v @ [LIGHTWALLETD_RETRY_DELAY]\<rparr>"
    have w: "delays_only s ?w [LIGHTWALLETD_RETRY_DELAY]"
      using step delays_remove [of u url] by (simp add: v_def delays_only_def)
    have "retry_attempts lw url operation (Suc attempt) ?w = (r, t)"
      using "1.prems"(1) q e by (subst (asm) retry_attempts.simps) (simp add: v_def Let_def)
    then obtain k where k: "Suc attempt + k < LIGHTWALLETD_RETRY_ATTEMPT_LIMIT"
      "delays_only ?w t (replicate k LIGHTWALLETD_RETRY_DELAY)"
      "\<forall>e. r = Inl e \<longrightarrow> is_retryable_lightwalletd_error e \<longrightarrow> Suc attempt + k + 1 = LIGHTWALLETD_RETRY_ATTEMPT_LIMIT"
      using "1.IH" [OF q [symmetric] e(1) _ v_def] e "1.prems"(2) by auto
    have "delays_only s t (replicate (Suc k) LIGHTWALLETD_RETRY_DELAY)"
      using delays_trans [OF w k(2)] by simp
    with k show ?thesis by (intro exI [of _ "Suc k"]) simp
  next
    case False
    with "1.prems"(1) q have "r = q" "t = u"
      by (subst (asm) retry_attempts.simps, auto split: sum.splits if_splits)+
    with False step "1.prems"(3) show ?thesis by (intro exI [of _ 0]) auto
  qed
qed

lemma retry_success:
  "retry_attempts lw url operation attempt s = (Inr v, t) \<Longrightarrow> \<exists>c u. operation c u = (Inr v, t)"
proof (induction lw url operation attempt s rule: retry_attempts.induct)
  case (1 lw url operation attempt s)
  obtain q u where q: "andThen (get_lightwalletd_channel lw url) operation s = (q, u)" by fastforce
  show ?case
  proof (cases q)
    case (Inr x)
    with "1.prems" q have "x = v" "u = t" by (subst (asm) retry_attempts.simps, simp)+
    with q Inr show ?thesis by (auto simp: andThen_Inr)
  next
    case (Inl e)
    with "1.prems" q have more: "Suc attempt < LIGHTWALLETD_RETRY_ATTEMPT_LIMIT \<and> is_retryable_lightwalletd_error e"
      by (subst (asm) retry_attempts.simps) (simp split: if_splits)
    define v' where "v' = remove_lightwalletd_channel url u"
    have "retry_attempts lw url operation (Suc attempt) (v'\<lparr>ls_slept := ls_slept v' @ [LIGHTWALLETD_RETRY_DELAY]\<rparr>) = (Inr v, t)"
      using "1.prems" q Inl more by (subst (asm) retry_attempts.simps) (simp add: v'_def Let_def)
    then show ?thesis using "1.IH" [OF q [symmetric] Inl more v'_def] by blast
  qed
qed

lemma read_stream_Inr: "read_stream text ms = Inr xs \<Longrightarrow> ms = map Inr xs"
proof (induction ms arbitrary: xs)
  case (Cons m ms)
  then show ?case by (cases m) (auto simp: read_stream_def map_err_def bind_result_Inr)
qed (simp add: read_stream_def)

section \<open>Properties\<close>

definition slept_within :: "nat \<Rightarrow> ('c, 'a) call \<Rightarrow> bool" where
  "slept_within limit m \<longleftrightarrow> (\<forall>s r t. m s = (r, t) \<longrightarrow>
     (\<exists>k < limit. ls_slept t = ls_slept s @ replicate k LIGHTWALLETD_RETRY_DELAY))"

definition gives_up_after :: "nat \<Rightarrow> ('c, 'a) call \<Rightarrow> bool" where
  "gives_up_after limit m \<longleftrightarrow> (\<forall>s e t. m s = (Inl e, t) \<longrightarrow> is_retryable_lightwalletd_error e \<longrightarrow>
     Suc (length (ls_slept t)) = length (ls_slept s) + limit)"

lemma retry_bounds:
  assumes "\<And>c. quiet (operation c)"
  shows "slept_within 3 (with_lightwalletd_retry lw url operation)"
    and "gives_up_after 3 (with_lightwalletd_retry lw url operation)"
proof -
  have run: "\<exists>k < 3. ls_slept t = ls_slept s @ replicate k LIGHTWALLETD_RETRY_DELAY
      \<and> (\<forall>e. r = Inl e \<longrightarrow> is_retryable_lightwalletd_error e \<longrightarrow> Suc k = 3)"
    if "with_lightwalletd_retry lw url operation s = (r, t)" for s r t
  proof -
    have "retry_attempts lw url operation 0 s = (r, t)" using that by (simp add: with_lightwalletd_retry_def)
    from retry_run [OF this assms] show ?thesis
      by (auto simp: LIGHTWALLETD_RETRY_ATTEMPT_LIMIT_def delays_only_def)
  qed
  then show "slept_within 3 (with_lightwalletd_retry lw url operation)" unfolding slept_within_def by blast
  show "gives_up_after 3 (with_lightwalletd_retry lw url operation)"
    unfolding gives_up_after_def
  proof (intro allI impI)
    fix s e t
    assume "with_lightwalletd_retry lw url operation s = (Inl e, t)" "is_retryable_lightwalletd_error e"
    from run [OF this(1)] this(2) show "Suc (length (ls_slept t)) = length (ls_slept s) + 3" by auto
  qed
qed

lemma slept_within_andThen:
  assumes "slept_within limit m" "\<And>x. quiet (f x)"
  shows "slept_within limit (andThen m f)"
  unfolding slept_within_def
proof (intro allI impI)
  fix s r t
  assume run: "andThen m f s = (r, t)"
  obtain q u where q: "m s = (q, u)" by (cases "m s")
  from assms(1) q have k: "\<exists>k < limit. ls_slept u = ls_slept s @ replicate k LIGHTWALLETD_RETRY_DELAY"
    by (auto simp: slept_within_def)
  have "ls_slept t = ls_slept u"
  proof (cases q)
    case (Inl e)
    with run q show ?thesis by (simp add: andThen_def)
  next
    case (Inr x)
    with run q have "f x u = (r, t)" by (simp add: andThen_def)
    from quietD [OF assms(2) this] show ?thesis by (simp add: delays_only_def)
  qed
  with k show "\<exists>k < limit. ls_slept t = ls_slept s @ replicate k LIGHTWALLETD_RETRY_DELAY" by simp
qed

text \<open>Every call to lightwalletd is bounded: it is tried at most three times, sleeping two seconds between the
  tries, and a call that fails with a retryable error has used all three.\<close>
theorem lightwalletd_calls_are_bounded:
  shows "slept_within 3 (latest_block_height lw url)
    \<and> slept_within 3 (fetch_current_mempool_txids lw url) \<and> gives_up_after 3 (fetch_current_mempool_txids lw url)
    \<and> slept_within 3 (fetch_raw_transaction lw url txid) \<and> gives_up_after 3 (fetch_raw_transaction lw url txid)
    \<and> slept_within 3 (fetch_compact_blocks_for_height_range lw url first final)
    \<and> gives_up_after 3 (fetch_compact_blocks_for_height_range lw url first final)"
proof -
  have empty_range: "slept_within 3 (ret ([] :: compact_block list))" "gives_up_after 3 (ret ([] :: compact_block list))"
    by (auto simp: slept_within_def gives_up_after_def)
  have height: "quiet (if h \<le> u32_max then ret h else raise e)" for h e by (simp add: quiet_basic)
  have blocks: "quiet (andThen (request_block_range lw f g a b c) (\<lambda>blocks. ret (sort_key cb_height blocks)))" for f g a b c
    by (intro quiet_andThen quiet_basic) (simp add: request_block_range_def quiet_interact)
  show ?thesis
    unfolding latest_block_height_def fetch_current_mempool_txids_def fetch_raw_transaction_def
      fetch_compact_blocks_for_height_range_def Let_def
    by (intro conjI slept_within_andThen retry_bounds quiet_timeout quiet_interact height)
      (auto intro!: empty_range retry_bounds blocks)
qed

text \<open>C25: A block range is the whole answer of one attempt: the blocks handed to the scanner are the messages of a
  single error-free stream of the far end for the range asked for, put in height order. Blocks of an attempt
  that failed half-way are never mixed in.\<close>
theorem block_range_is_one_whole_answer:
  assumes "fetch_compact_blocks_for_height_range lw url first final s = (Inr blocks, t)" "first \<le> final"
  shows "sorted (map cb_height blocks)
    \<and> (\<exists>n c received. lw_block_range lw n c first final = Inr (map Inr received) \<and> blocks = sort_key cb_height received)"
proof -
  from assms obtain f g c u where
    "andThen (request_block_range lw f g first final c) (\<lambda>blocks. ret (sort_key cb_height blocks)) u = (Inr blocks, t)"
    by (auto simp: fetch_compact_blocks_for_height_range_def Let_def with_lightwalletd_retry_def dest!: retry_success)
  then obtain received where "lw_block_range lw (ls_clock u) c first final = Inr (map Inr received)"
    "blocks = sort_key cb_height received"
    by (auto simp: andThen_Inr request_block_range_def interact_def bind_result_Inr map_err_def
        split: sum.splits dest!: read_stream_Inr)
  then show ?thesis by (auto simp: sorted_sort_key)
qed

definition sample_lightwalletd :: "nat lightwalletd" where
  "sample_lightwalletd = \<lparr>lw_parse_uri = (\<lambda>u. Inr \<lparr>uri_scheme = Some ''http'', uri_authority = None, uri_path = [], uri_query = None\<rparr>),
     lw_endpoint = (\<lambda>_. Inr ()), lw_tls_config = (\<lambda>_. Inr ()), lw_connect = (\<lambda>n _. Inr n),
     lw_latest_block = (\<lambda>n c. Inr 102),
     lw_block_range = (\<lambda>n c a b. if c = 0
        then Inr [Inr \<lparr>cb_height = b, cb_vtx = []\<rparr>, Inl \<lparr>rs_code = Code_Unknown, rs_message = [], rs_text = ''reset''\<rparr>]
        else Inr [Inr \<lparr>cb_height = b, cb_vtx = []\<rparr>, Inr \<lparr>cb_height = a, cb_vtx = []\<rparr>]),
     lw_mempool_tx = (\<lambda>n c. Inr []), lw_transaction = (\<lambda>n c t. Inl \<lparr>rs_code = Code_NotFound, rs_message = [], rs_text = []\<rparr>),
     lw_tree_state = (\<lambda>n c h. Inr []), lw_timed_out = (\<lambda>_. False)\<rparr>"

definition fresh_link :: "nat link_state" where
  "fresh_link = \<lparr>ls_clock = 0, ls_channels = [], ls_poisoned = False, ls_slept = []\<rparr>"

theorem block_range_is_one_whole_answer_witness:
  "fst (fetch_compact_blocks_for_height_range sample_lightwalletd ''http://lwd'' 100 101 fresh_link)
     = Inr [\<lparr>cb_height = 100, cb_vtx = []\<rparr>, \<lparr>cb_height = 101, cb_vtx = []\<rparr>]
   \<and> sorted (map cb_height [\<lparr>cb_height = 100, cb_vtx = []\<rparr>, \<lparr>cb_height = 101, cb_vtx = []\<rparr>])"
proof -
  let ?bs = "[\<lparr>cb_height = 100, cb_vtx = []\<rparr>, \<lparr>cb_height = 101, cb_vtx = []\<rparr>]"
  let ?r = "fetch_compact_blocks_for_height_range sample_lightwalletd ''http://lwd'' 100 101 fresh_link"
  have e: "fst ?r = Inr ?bs" by code_simp
  then have "?r = (Inr ?bs, snd ?r)" by (metis prod.collapse)
  from block_range_is_one_whole_answer [OF this] e show ?thesis by simp
qed

text \<open>C26: A stalled mempool stream cannot hide a block: as soon as one of the periodic checks reads a tip above the
  expected one the wait is over, whatever the stream does; and the wait ends without an error only for
  that reason or because the stream itself ended.\<close>
theorem a_stalled_stream_cannot_hide_a_block:
  shows "(first_height = Inr h \<and> Tick (TipRead (Inr tip)) \<in> set events \<and> expected < tip
      \<longrightarrow> wait_for_block_mempool_stream_with expected first_height events \<noteq> None)
    \<and> (wait_for_block_mempool_stream_with expected first_height events = Some (Inr ()) \<longrightarrow>
        (\<exists>tip > expected. first_height = Inr tip \<or> Tick (TipRead (Inr tip)) \<in> set events)
        \<or> StreamEnded (Inr ()) \<in> set events \<or> Tick (StreamEndedFirst (Inr ())) \<in> set events)"
proof -
  have "Tick (TipRead (Inr tip)) \<in> set events \<Longrightarrow> expected < tip \<Longrightarrow> wait_for_stream_or_tip expected events \<noteq> None"
    by (induction expected events rule: wait_for_stream_or_tip.induct) auto
  moreover have "wait_for_stream_or_tip expected events = Some (Inr ()) \<Longrightarrow>
      (\<exists>tip > expected. Tick (TipRead (Inr tip)) \<in> set events)
      \<or> StreamEnded (Inr ()) \<in> set events \<or> Tick (StreamEndedFirst (Inr ())) \<in> set events"
    by (induction expected events rule: wait_for_stream_or_tip.induct) (auto split: if_splits)
  ultimately show ?thesis
    by (auto simp: wait_for_block_mempool_stream_with_def split: sum.splits if_splits)
qed

theorem a_stalled_stream_cannot_hide_a_block_witness:
  "wait_for_block_mempool_stream_with 100 (Inr 100) [Tick (TipRead (Inr 100)), Tick (TipRead (Inr 101))] = Some (Inr ())
   \<and> wait_for_block_mempool_stream_with 100 (Inr 100) [Tick (TipRead (Inr 100)), Tick (TipRead (Inr 101))] \<noteq> None"
  using a_stalled_stream_cannot_hide_a_block
    [of "Inr 100" 100 101 "[Tick (TipRead (Inr 100)), Tick (TipRead (Inr 101))]" 100]
  by (simp add: wait_for_block_mempool_stream_with_def)

end
