(* ===== verification/Zcash_Wallet.thy ===== *)
theory Zcash_Wallet
  imports App_Error Text_Encoding
begin

text \<open>
  \<^verbatim>\<open>src/zcash.rs\<close>: the viewing key of the service, the derivation of addresses and the scanning keys.
  The Zcash libraries are parameters: decoding and encoding, the search for a valid address, and the
  arithmetic of diversifier indices (kept as numbers).
\<close>

datatype zcash_network = MainNetwork | TestNetwork

datatype key_scope = External | Internal

record unified_address =
  ua_orchard :: "byte list option"
  ua_sapling :: "byte list option"
  ua_transparent :: "byte list option"
  ua_unknown :: "(nat \<times> byte list) list"

text \<open>\<open>'k\<close> is a decoded UIVK, \<open>'i\<close> the viewing key of one pool in it.\<close>

record ('k, 'i) zcash_lib =
  zl_decode_uivk :: "zcash_network \<Rightarrow> string \<Rightarrow> string + 'k"
  zl_has_orchard :: "'k \<Rightarrow> bool"
  zl_has_sapling :: "'k \<Rightarrow> bool"
  zl_orchard :: "'k \<Rightarrow> 'i option"
  zl_sapling :: "'k \<Rightarrow> 'i option"
  zl_diversifier_index :: "'i \<Rightarrow> byte list \<Rightarrow> nat option"
  zl_find_address :: "'k \<Rightarrow> nat \<Rightarrow> string + (unified_address \<times> nat)"
  zl_address :: "'k \<Rightarrow> nat \<Rightarrow> unified_address option"
  zl_decode_address :: "zcash_network \<Rightarrow> string \<Rightarrow> unified_address option"
  zl_encode_address :: "zcash_network \<Rightarrow> unified_address \<Rightarrow> string"
  zl_index_of_bytes :: "byte list \<Rightarrow> nat"
  zl_bytes_of_index :: "nat \<Rightarrow> byte list"
  zl_increment :: "nat \<Rightarrow> nat option"

definition consensus_network :: "string \<Rightarrow> zcash_network result" where
  "consensus_network network_name =
     (if network_name = ''mainnet'' then Inr MainNetwork
      else if network_name = ''testnet'' then Inr TestNetwork
      else Inl (InvalidConfig (''unsupported Zcash network '' @ [CHR 0x27] @ network_name @ [CHR 0x27])))"

text \<open>\<^verbatim>\<open>.map_err(|error| AppError::Wallet(error.to_string()))\<close>\<close>

definition wallet_error :: "string + 'a \<Rightarrow> 'a result" where
  "wallet_error r = (case r of Inl e \<Rightarrow> Inl (Wallet e) | Inr x \<Rightarrow> Inr x)"

lemma wallet_error_Inr [simp]: "wallet_error r = Inr x \<longleftrightarrow> r = Inr x"
  by (simp add: wallet_error_def split: sum.splits)

section \<open>The wallet view\<close>

record 'k wallet_view =
  wv_encoded_uivk :: string
  wv_uivk :: 'k
  wv_network :: zcash_network

definition decode_uivk :: "('k, 'i) zcash_lib \<Rightarrow> zcash_network \<Rightarrow> string \<Rightarrow> 'k result" where
  "decode_uivk lib network encoded_uivk =
     bind_result (wallet_error (zl_decode_uivk lib network encoded_uivk)) (\<lambda>uivk.
     if \<not> zl_has_orchard lib uivk \<or> \<not> zl_has_sapling lib uivk
     then Inl (Wallet ''configured UIVK must contain Orchard and Sapling receivers'')
     else Inr uivk)"

definition decode_wallet_view :: "('k, 'i) zcash_lib \<Rightarrow> string \<Rightarrow> string \<Rightarrow> 'k wallet_view result" where
  "decode_wallet_view lib network_name encoded_uivk =
     bind_result (consensus_network network_name) (\<lambda>network.
     bind_result (decode_uivk lib network encoded_uivk) (\<lambda>uivk.
     Inr \<lparr>wv_encoded_uivk = encoded_uivk, wv_uivk = uivk, wv_network = network\<rparr>))"

definition issued_shape :: "unified_address \<Rightarrow> bool" where
  "issued_shape a \<longleftrightarrow> ua_orchard a \<noteq> None \<and> ua_sapling a \<noteq> None \<and> ua_transparent a = None \<and> ua_unknown a = []"

definition is_valid_issued_address_shape :: "('k, 'i) zcash_lib \<Rightarrow> 'k wallet_view \<Rightarrow> string \<Rightarrow> bool" where
  "is_valid_issued_address_shape lib view encoded_address =
     (case zl_decode_address lib (wv_network view) encoded_address of
        Some a \<Rightarrow> issued_shape a
      | None \<Rightarrow> False)"

definition is_issued_address_for_wallet :: "('k, 'i) zcash_lib \<Rightarrow> 'k wallet_view \<Rightarrow> string \<Rightarrow> bool" where
  "is_issued_address_for_wallet lib view encoded_address =
     (case zl_decode_address lib (wv_network view) encoded_address of
        None \<Rightarrow> False
      | Some a \<Rightarrow>
          if \<not> issued_shape a then False
          else (case (ua_orchard a, zl_orchard lib (wv_uivk view)) of
              (Some receiver, Some ivk) \<Rightarrow>
                (case zl_diversifier_index lib ivk receiver of
                   None \<Rightarrow> False
                 | Some index \<Rightarrow>
                     (case zl_address lib (wv_uivk view) index of
                        None \<Rightarrow> False
                      | Some derived \<Rightarrow> zl_encode_address lib (wv_network view) derived = encoded_address))
            | _ \<Rightarrow> False))"

record derived_address =
  da_encoded :: string
  da_diversifier_index_be :: "byte list"
  da_orchard_receiver :: "byte list"
  da_sapling_receiver :: "byte list"

definition diversifier_from_bytes :: "('k, 'i) zcash_lib \<Rightarrow> byte list option \<Rightarrow> nat result" where
  "diversifier_from_bytes lib bytes =
     (case bytes of
        Some b \<Rightarrow> if length b = 11 then Inr (zl_index_of_bytes lib b)
                  else Inl (Wallet ''stored diversifier index must be exactly 11 bytes'')
      | None \<Rightarrow> Inr 0)"

text \<open>The search starts after the last index used, at 0 for a new wallet.\<close>

definition search_start :: "('k, 'i) zcash_lib \<Rightarrow> byte list option \<Rightarrow> nat result" where
  "search_start lib last_diversifier_index_be =
     bind_result (diversifier_from_bytes lib last_diversifier_index_be) (\<lambda>start.
     if last_diversifier_index_be = None then Inr start
     else case zl_increment lib start of
         Some i \<Rightarrow> Inr i
       | None \<Rightarrow> Inl (Wallet ''diversifier space exhausted''))"

definition derived_from :: "('k, 'i) zcash_lib \<Rightarrow> 'k wallet_view \<Rightarrow> unified_address \<times> nat \<Rightarrow> derived_address result" where
  "derived_from lib view found =
     (case found of (address, index) \<Rightarrow>
      case ua_orchard address of
        None \<Rightarrow> Inl (Wallet ''derived address missing Orchard receiver'')
      | Some orchard_receiver \<Rightarrow>
          (case ua_sapling address of
             None \<Rightarrow> Inl (Wallet ''derived address missing Sapling receiver'')
           | Some sapling_receiver \<Rightarrow>
               Inr \<lparr>da_encoded = zl_encode_address lib (wv_network view) address,
                    da_diversifier_index_be = zl_bytes_of_index lib index,
                    da_orchard_receiver = orchard_receiver, da_sapling_receiver = sapling_receiver\<rparr>))"

definition derive_address_after :: "('k, 'i) zcash_lib \<Rightarrow> 'k wallet_view \<Rightarrow> byte list option \<Rightarrow> derived_address result" where
  "derive_address_after lib view last_diversifier_index_be =
     bind_result (search_start lib last_diversifier_index_be) (\<lambda>start.
     bind_result (wallet_error (zl_find_address lib (wv_uivk view) start))
       (derived_from lib view))"

section \<open>Scanning keys\<close>

definition CANONICAL_SCAN_ACCOUNT_ID :: nat where "CANONICAL_SCAN_ACCOUNT_ID = 0"

record 'i scanning_keys =
  sk_sapling :: "((nat \<times> key_scope) \<times> 'i) list"
  sk_orchard :: "((nat \<times> key_scope) \<times> 'i) list"
  sk_ironwood :: "((nat \<times> key_scope) \<times> 'i) list"

definition canonical_key :: "'i option \<Rightarrow> ((nat \<times> key_scope) \<times> 'i) list" where
  "canonical_key ivk = (case ivk of None \<Rightarrow> [] | Some k \<Rightarrow> [((CANONICAL_SCAN_ACCOUNT_ID, External), k)])"

text \<open>Ironwood outputs are decrypted with the Orchard key.\<close>

definition scanning_keys_from_uivk :: "('k, 'i) zcash_lib \<Rightarrow> string \<Rightarrow> string \<Rightarrow> 'i scanning_keys result" where
  "scanning_keys_from_uivk lib network_name encoded_uivk =
     bind_result (consensus_network network_name) (\<lambda>network.
     bind_result (decode_uivk lib network encoded_uivk) (\<lambda>uivk.
     Inr \<lparr>sk_sapling = canonical_key (zl_sapling lib uivk),
          sk_orchard = canonical_key (zl_orchard lib uivk),
          sk_ironwood = canonical_key (zl_orchard lib uivk)\<rparr>))"

section \<open>Facts\<close>

text \<open>
  What the libraries document: the search never goes back, incrementing goes forward, and the
  bytes of an index are 11 bytes that read back as the index.
\<close>

definition diversifiers_documented :: "('k, 'i) zcash_lib \<Rightarrow> bool" where
  "diversifiers_documented lib \<longleftrightarrow>
     (\<forall>k start a i. zl_find_address lib k start = Inr (a, i) \<longrightarrow> start \<le> i)
     \<and> (\<forall>i j. zl_increment lib i = Some j \<longrightarrow> i < j)
     \<and> (\<forall>i. length (zl_bytes_of_index lib i) = 11 \<longrightarrow> zl_index_of_bytes lib (zl_bytes_of_index lib i) = i)
     \<and> (\<forall>k start a i. zl_find_address lib k start = Inr (a, i) \<longrightarrow> length (zl_bytes_of_index lib i) = 11)"

lemma search_start_Inr:
  "search_start lib (Some b) = Inr start \<longleftrightarrow> length b = 11 \<and> zl_increment lib (zl_index_of_bytes lib b) = Some start"
  by (auto simp: search_start_def bind_result_Inr diversifier_from_bytes_def split: option.splits if_splits)

lemma derived_from_Inr:
  "derived_from lib view (a, i) = Inr d \<longleftrightarrow> (\<exists>orc sap. ua_orchard a = Some orc \<and> ua_sapling a = Some sap
     \<and> d = \<lparr>da_encoded = zl_encode_address lib (wv_network view) a, da_diversifier_index_be = zl_bytes_of_index lib i,
           da_orchard_receiver = orc, da_sapling_receiver = sap\<rparr>)"
  by (auto simp: derived_from_def split: option.splits)

lemma derive_after_Inr:
  assumes "derive_address_after lib view last_be = Inr d"
  shows "\<exists>start a i. search_start lib last_be = Inr start \<and> zl_find_address lib (wv_uivk view) start = Inr (a, i)
    \<and> derived_from lib view (a, i) = Inr d"
  using assms by (auto simp: derive_address_after_def bind_result_Inr)

text \<open>Each address is derived from a later index than the one before.\<close>

lemma derive_after_advances:
  assumes lib: "diversifiers_documented lib" and d: "derive_address_after lib view last_be = Inr d"
  shows "length (da_diversifier_index_be d) = 11
    \<and> (\<forall>b. last_be = Some b \<longrightarrow> zl_index_of_bytes lib b < zl_index_of_bytes lib (da_diversifier_index_be d))"
proof -
  from derive_after_Inr [OF d] obtain start a i where st: "search_start lib last_be = Inr start"
    and fnd: "zl_find_address lib (wv_uivk view) start = Inr (a, i)" and "derived_from lib view (a, i) = Inr d" by blast
  from this(3) have be: "da_diversifier_index_be d = zl_bytes_of_index lib i" by (auto simp: derived_from_Inr)
  have "start \<le> i" "length (zl_bytes_of_index lib i) = 11" "zl_index_of_bytes lib (zl_bytes_of_index lib i) = i"
    using lib fnd unfolding diversifiers_documented_def by blast+
  moreover have "zl_index_of_bytes lib b < start" if "last_be = Some b" for b
    using lib st that unfolding diversifiers_documented_def by (auto simp: search_start_Inr)
  ultimately show ?thesis using be by (auto intro: less_le_trans)
qed

end
