(* ===== verification/Chain_Scanner.thy ===== *)
theory Chain_Scanner
  imports Lightwalletd Zcash_Wallet "HOL-Library.Multiset"
begin

text \<open>
  The scanning half of \<^verbatim>\<open>src/scanner.rs\<close>: the spam filter, the receipts of compact blocks and of
  mempool transactions, their order, and the aggregation by transaction. Trial decryption and
  parsing are library code and parameters.
\<close>

section \<open>Receipts\<close>

record incoming_receipt =
  ir_txid_hex :: string
  ir_mined_height :: nat
  ir_is_mempool :: bool
  ir_pool :: string
  ir_output_index :: nat
  ir_value_zat :: nat
  ir_receiver_fingerprint :: "byte list"

datatype value_pool = Orchard_Pool | Ironwood_Pool

definition shielded_pool_name :: "value_pool \<Rightarrow> string" where
  "shielded_pool_name pool = (case pool of Orchard_Pool \<Rightarrow> ''orchard'' | Ironwood_Pool \<Rightarrow> ''ironwood'')"

text \<open>What a scanned block holds: per transaction and pool, the outputs that decrypt.\<close>

record scanned_output =
  so_index :: nat
  so_value :: nat
  so_recipient :: "byte list"

record scanned_tx =
  sx_txid :: string
  sx_sapling_outputs :: "scanned_output list"
  sx_orchard_outputs :: "(value_pool \<times> scanned_output) list"
  sx_ironwood_outputs :: "(value_pool \<times> scanned_output) list"

record scanned_block =
  sk_height :: nat
  sk_transactions :: "scanned_tx list"

text \<open>A parsed transaction: the encrypted outputs of its bundles.\<close>

record mempool_tx =
  mt_txid :: string
  mt_sapling :: "byte list list option"
  mt_orchard :: "byte list list option"
  mt_ironwood :: "byte list list option"

record 'i scan_lib =
  sl_scan_block :: "zcash_network \<Rightarrow> 'i scanning_keys \<Rightarrow> compact_block \<Rightarrow> string + scanned_block"
  sl_branch_for_height :: "zcash_network \<Rightarrow> nat \<Rightarrow> nat"
  sl_read_transaction :: "nat \<Rightarrow> byte list \<Rightarrow> string + mempool_tx"
  sl_decrypt_sapling :: "'i \<Rightarrow> byte list \<Rightarrow> (nat \<times> byte list) option"
  sl_decrypt_orchard :: "'i \<Rightarrow> byte list \<Rightarrow> (nat \<times> byte list) option"
  sl_decrypt_ironwood :: "'i \<Rightarrow> byte list \<Rightarrow> (nat \<times> byte list) option"

section \<open>The spam filter\<close>

definition MAINNET_SPAM_FILTER_START_HEIGHT :: nat where "MAINNET_SPAM_FILTER_START_HEIGHT = 1710000"
definition MAINNET_SPAM_FILTER_END_HEIGHT :: nat where "MAINNET_SPAM_FILTER_END_HEIGHT = 2050000"
definition SPAM_FILTER_OUTPUT_THRESHOLD :: nat where "SPAM_FILTER_OUTPUT_THRESHOLD = 50"

definition compact_tx_shielded_outputs :: "compact_tx \<Rightarrow> nat" where
  "compact_tx_shielded_outputs tx = length (ct_outputs tx) + length (ct_actions tx) + length (ct_ironwood_actions tx)"

definition apply_spam_filter :: "zcash_network \<Rightarrow> compact_block \<Rightarrow> nat \<times> compact_block" where
  "apply_spam_filter net block =
     (if net \<noteq> MainNetwork then (0, block)
      else if \<not> (cb_height block \<le> u32_max
                 \<and> MAINNET_SPAM_FILTER_START_HEIGHT \<le> cb_height block
                 \<and> cb_height block \<le> MAINNET_SPAM_FILTER_END_HEIGHT) then (0, block)
      else let kept = filter (\<lambda>tx. compact_tx_shielded_outputs tx \<le> SPAM_FILTER_OUTPUT_THRESHOLD) (cb_vtx block) in
        (length (cb_vtx block) - length kept, block\<lparr>cb_vtx := kept\<rparr>))"

section \<open>Scanning blocks\<close>

definition u16_index :: "string \<Rightarrow> nat \<Rightarrow> nat result" where
  "u16_index what i = (if i \<le> u16_max then Inr i else Inl (Wallet (what @ '' output index overflowed u16'')))"

definition block_receipt :: "string \<Rightarrow> nat \<Rightarrow> string \<Rightarrow> string \<Rightarrow> scanned_output \<Rightarrow> incoming_receipt result" where
  "block_receipt txid_hex mined_height what pool output =
     bind_result (u16_index what (so_index output)) (\<lambda>i.
     Inr \<lparr>ir_txid_hex = txid_hex, ir_mined_height = mined_height, ir_is_mempool = False, ir_pool = pool,
          ir_output_index = i, ir_value_zat = so_value output,
          ir_receiver_fingerprint = receiver_fingerprint (so_recipient output)\<rparr>)"

definition tx_receipts :: "nat \<Rightarrow> scanned_tx \<Rightarrow> incoming_receipt list result" where
  "tx_receipts mined_height tx =
     bind_result (map_result (block_receipt (sx_txid tx) mined_height ''sapling'' ''sapling'') (sx_sapling_outputs tx)) (\<lambda>sapling.
     bind_result (map_result (\<lambda>(pool, out). block_receipt (sx_txid tx) mined_height ''orchard'' (shielded_pool_name pool) out)
                    (sx_orchard_outputs tx)) (\<lambda>orchard.
     bind_result (map_result (\<lambda>(pool, out). block_receipt (sx_txid tx) mined_height ''ironwood'' (shielded_pool_name pool) out)
                    (sx_ironwood_outputs tx)) (\<lambda>ironwood.
     Inr (sapling @ orchard @ ironwood))))"

definition scan_one_compact_block :: "'i scan_lib \<Rightarrow> zcash_network \<Rightarrow> 'i scanning_keys \<Rightarrow> compact_block
    \<Rightarrow> (incoming_receipt list \<times> scanned_block) result" where
  "scan_one_compact_block lib net keys block =
     (let block = snd (apply_spam_filter net block) in
      case sl_scan_block lib net keys block of
        Inl e \<Rightarrow> Inl (Wallet (''failed to scan compact block: '' @ e))
      | Inr scanned \<Rightarrow>
          bind_result (map_result (tx_receipts (sk_height scanned)) (sk_transactions scanned)) (\<lambda>receipts.
          Inr (concat receipts, scanned)))"

definition receipt_order :: "incoming_receipt \<Rightarrow> nat \<times> string \<times> string \<times> nat" where
  "receipt_order r = (ir_mined_height r, ir_txid_hex r, ir_pool r, ir_output_index r)"

text \<open>
  Blocks are scanned one by one, on the thread pool or serially; the pool collects the results in
  block order, so its value is the same. When several blocks fail the pool may report another of
  their errors; this is the serial one.
\<close>

definition scan_compact_blocks_in_pool :: "'i scan_lib \<Rightarrow> string \<Rightarrow> 'i scanning_keys \<Rightarrow> compact_block list
    \<Rightarrow> (incoming_receipt list \<times> scanned_block list) result" where
  "scan_compact_blocks_in_pool lib network_name keys blocks =
     bind_result (consensus_network network_name) (\<lambda>net.
     bind_result (map_result (scan_one_compact_block lib net keys) blocks) (\<lambda>per_block.
     Inr (sort_key receipt_order (concat (map fst per_block)), map snd per_block)))"

definition scan_incoming_receipts_from_compact_blocks ::
  "('k, 'i) zcash_lib \<Rightarrow> 'i scan_lib \<Rightarrow> string \<Rightarrow> string \<Rightarrow> compact_block list \<Rightarrow> incoming_receipt list result" where
  "scan_incoming_receipts_from_compact_blocks zl lib network_name encoded_uivk blocks =
     bind_result (scanning_keys_from_uivk zl network_name encoded_uivk) (\<lambda>keys.
     bind_result (scan_compact_blocks_in_pool lib network_name keys blocks) (\<lambda>batch.
     Inr (fst batch)))"

section \<open>Scanning the mempool\<close>

text \<open>A transaction that does not parse is skipped.\<close>

definition parse_mempool_transactions :: "'i scan_lib \<Rightarrow> zcash_network \<Rightarrow> nat \<Rightarrow> byte list list \<Rightarrow> mempool_tx list" where
  "parse_mempool_transactions lib net chain_tip_height transactions =
     (let branch_id = sl_branch_for_height lib net (chain_tip_height + 1) in
      List.map_filter (\<lambda>raw. case sl_read_transaction lib branch_id raw of Inr tx \<Rightarrow> Some tx | Inl e \<Rightarrow> None) transactions)"

definition bundle_receipts :: "string \<Rightarrow> string \<Rightarrow> ('i \<Rightarrow> byte list \<Rightarrow> (nat \<times> byte list) option) \<Rightarrow> 'i option
    \<Rightarrow> byte list list option \<Rightarrow> incoming_receipt list result" where
  "bundle_receipts txid_hex pool decrypt ivk bundle =
     (case (bundle, ivk) of
        (Some outputs, Some key) \<Rightarrow>
          map_result (\<lambda>(index, value_zat, recipient).
              bind_result (u16_index (pool @ '' mempool'') index) (\<lambda>i.
              Inr \<lparr>ir_txid_hex = txid_hex, ir_mined_height = 0, ir_is_mempool = True, ir_pool = pool,
                   ir_output_index = i, ir_value_zat = value_zat,
                   ir_receiver_fingerprint = receiver_fingerprint recipient\<rparr>))
            (List.map_filter (\<lambda>(index, output). map_option (\<lambda>note. (index, note)) (decrypt key output))
               (enumerate 0 outputs))
      | _ \<Rightarrow> Inr [])"

definition mempool_tx_receipts :: "'i scan_lib \<Rightarrow> 'i option \<Rightarrow> 'i option \<Rightarrow> mempool_tx \<Rightarrow> incoming_receipt list result" where
  "mempool_tx_receipts lib sapling_pivk orchard_pivk tx =
     bind_result (bundle_receipts (mt_txid tx) ''sapling'' (sl_decrypt_sapling lib) sapling_pivk (mt_sapling tx)) (\<lambda>sapling.
     bind_result (bundle_receipts (mt_txid tx) ''orchard'' (sl_decrypt_orchard lib) orchard_pivk (mt_orchard tx)) (\<lambda>orchard.
     bind_result (bundle_receipts (mt_txid tx) ''ironwood'' (sl_decrypt_ironwood lib) orchard_pivk (mt_ironwood tx)) (\<lambda>ironwood.
     Inr (sapling @ orchard @ ironwood))))"

definition scan_incoming_mempool_receipts_from_raw_transactions ::
  "('k, 'i) zcash_lib \<Rightarrow> 'i scan_lib \<Rightarrow> string \<Rightarrow> string \<Rightarrow> nat \<Rightarrow> byte list list \<Rightarrow> incoming_receipt list result" where
  "scan_incoming_mempool_receipts_from_raw_transactions zl lib network_name encoded_uivk chain_tip_height transactions =
     bind_result (consensus_network network_name) (\<lambda>net.
     bind_result (wallet_error (zl_decode_uivk zl net encoded_uivk)) (\<lambda>uivk.
     bind_result (map_result (mempool_tx_receipts lib (zl_sapling zl uivk) (zl_orchard zl uivk))
                    (parse_mempool_transactions lib net chain_tip_height transactions)) (\<lambda>receipts.
     Inr (sort_key receipt_order (concat receipts)))))"

section \<open>Aggregation\<close>

record incoming_payment =
  ip_txid_hex :: string
  ip_mined_height :: nat
  ip_sapling_received_zat :: nat
  ip_orchard_received_zat :: nat
  ip_ironwood_received_zat :: nat
  ip_transaction_received_zat :: nat

text \<open>\<^verbatim>\<open>u64\<close> addition in a release build.\<close>

definition add_u64 :: "nat \<Rightarrow> nat \<Rightarrow> nat" where
  "add_u64 a b = (a + b) mod (u64_max + 1)"

definition no_payment :: "incoming_receipt \<Rightarrow> incoming_payment" where
  "no_payment r = \<lparr>ip_txid_hex = ir_txid_hex r, ip_mined_height = ir_mined_height r, ip_sapling_received_zat = 0,
     ip_orchard_received_zat = 0, ip_ironwood_received_zat = 0, ip_transaction_received_zat = 0\<rparr>"

definition add_receipt :: "incoming_receipt \<Rightarrow> incoming_payment \<Rightarrow> incoming_payment" where
  "add_receipt r p =
     (let v = ir_value_zat r;
          q = (if ir_pool r = ''sapling'' then p\<lparr>ip_sapling_received_zat := add_u64 (ip_sapling_received_zat p) v\<rparr>
               else if ir_pool r = ''orchard'' then p\<lparr>ip_orchard_received_zat := add_u64 (ip_orchard_received_zat p) v\<rparr>
               else if ir_pool r = ''ironwood'' then p\<lparr>ip_ironwood_received_zat := add_u64 (ip_ironwood_received_zat p) v\<rparr>
               else p)
      in q\<lparr>ip_transaction_received_zat := add_u64 (ip_transaction_received_zat p) v\<rparr>)"

definition aggregate_receipts_by_transaction :: "incoming_receipt list \<Rightarrow> incoming_payment list" where
  "aggregate_receipts_by_transaction receipts =
     map snd (fold (\<lambda>r grouped. btree_upsert (ir_mined_height r, ir_txid_hex r) (add_receipt r) (add_receipt r (no_payment r)) grouped)
                receipts [])"

definition scan_incoming_compact_blocks ::
  "('k, 'i) zcash_lib \<Rightarrow> 'i scan_lib \<Rightarrow> string \<Rightarrow> string \<Rightarrow> compact_block list \<Rightarrow> incoming_payment list result" where
  "scan_incoming_compact_blocks zl lib network_name encoded_uivk blocks =
     bind_result (scan_incoming_receipts_from_compact_blocks zl lib network_name encoded_uivk blocks) (\<lambda>receipts.
     Inr (aggregate_receipts_by_transaction receipts))"

section \<open>Fetching and scanning\<close>

definition scan_incoming_payments_for_heights ::
  "'c lightwalletd \<Rightarrow> ('k, 'i) zcash_lib \<Rightarrow> 'i scan_lib \<Rightarrow> string \<Rightarrow> string \<Rightarrow> string \<Rightarrow> nat list \<Rightarrow> ('c, incoming_payment list) call" where
  "scan_incoming_payments_for_heights lw zl lib url network_name encoded_uivk heights =
     andThen (fetch_compact_blocks_for_heights lw url heights) (\<lambda>blocks.
     lift_result (scan_incoming_compact_blocks zl lib network_name encoded_uivk blocks))"

definition scan_incoming_receipts_for_heights ::
  "'c lightwalletd \<Rightarrow> ('k, 'i) zcash_lib \<Rightarrow> 'i scan_lib \<Rightarrow> string \<Rightarrow> string \<Rightarrow> string \<Rightarrow> nat list \<Rightarrow> ('c, incoming_receipt list) call" where
  "scan_incoming_receipts_for_heights lw zl lib url network_name encoded_uivk heights =
     andThen (fetch_compact_blocks_for_heights lw url heights) (\<lambda>blocks.
     lift_result (scan_incoming_receipts_from_compact_blocks zl lib network_name encoded_uivk blocks))"

definition scan_incoming_receipts_for_range ::
  "'c lightwalletd \<Rightarrow> ('k, 'i) zcash_lib \<Rightarrow> 'i scan_lib \<Rightarrow> string \<Rightarrow> string \<Rightarrow> string \<Rightarrow> nat \<Rightarrow> nat \<Rightarrow> ('c, incoming_receipt list) call" where
  "scan_incoming_receipts_for_range lw zl lib url network_name encoded_uivk start_height end_height =
     andThen (fetch_compact_blocks_for_height_range lw url start_height end_height) (\<lambda>blocks.
     lift_result (scan_incoming_receipts_from_compact_blocks zl lib network_name encoded_uivk blocks))"

section \<open>Facts\<close>

lemma map_result_append:
  "map_result f (xs @ ys) = bind_result (map_result f xs) (\<lambda>us. bind_result (map_result f ys) (\<lambda>vs. Inr (us @ vs)))"
proof (induction xs)
  case Nil
  then show ?case by (cases "map_result f ys") simp_all
next
  case (Cons x xs)
  then show ?case by (cases "f x"; cases "map_result f xs"; cases "map_result f ys") simp_all
qed

definition payment_key :: "incoming_receipt \<Rightarrow> nat \<times> string" where
  "payment_key r = (ir_mined_height r, ir_txid_hex r)"

definition grouped_by :: "(nat \<times> string) \<Rightarrow> incoming_receipt list \<Rightarrow> incoming_receipt list" where
  "grouped_by k rs = filter (\<lambda>r. payment_key r = k) rs"

definition zat_sum :: "incoming_receipt list \<Rightarrow> nat" where
  "zat_sum rs = sum_list (map ir_value_zat rs)"

definition pool_sum :: "string \<Rightarrow> incoming_receipt list \<Rightarrow> nat" where
  "pool_sum pool rs = zat_sum (filter (\<lambda>r. ir_pool r = pool) rs)"

lemma zat_sum_simps [simp]: "zat_sum [] = 0" "zat_sum (r # rs) = ir_value_zat r + zat_sum rs"
  by (simp_all add: zat_sum_def)

lemma pool_sum_simps [simp]:
  "pool_sum pool [] = 0"
  "pool_sum pool (r # rs) = (if ir_pool r = pool then ir_value_zat r else 0) + pool_sum pool rs"
  by (simp_all add: pool_sum_def)

lemma pool_sum_le: "pool_sum pool rs \<le> zat_sum rs"
  by (induction rs) auto

lemma add_u64_exact: "a + b \<le> u64_max \<Longrightarrow> add_u64 a b = a + b"
  by (simp add: add_u64_def)

definition holds_at_most :: "incoming_payment \<Rightarrow> nat \<Rightarrow> bool" where
  "holds_at_most p n \<longleftrightarrow> ip_transaction_received_zat p \<le> n \<and> ip_sapling_received_zat p \<le> ip_transaction_received_zat p
     \<and> ip_orchard_received_zat p \<le> ip_transaction_received_zat p \<and> ip_ironwood_received_zat p \<le> ip_transaction_received_zat p"

lemma add_receipt_exact:
  assumes "holds_at_most p n" "n + ir_value_zat r \<le> u64_max"
  shows "add_receipt r p = p\<lparr>ip_sapling_received_zat := ip_sapling_received_zat p + (if ir_pool r = ''sapling'' then ir_value_zat r else 0),
       ip_orchard_received_zat := ip_orchard_received_zat p + (if ir_pool r = ''orchard'' then ir_value_zat r else 0),
       ip_ironwood_received_zat := ip_ironwood_received_zat p + (if ir_pool r = ''ironwood'' then ir_value_zat r else 0),
       ip_transaction_received_zat := ip_transaction_received_zat p + ir_value_zat r\<rparr>"
  using assms by (auto simp: add_receipt_def Let_def add_u64_exact holds_at_most_def)

lemma add_receipts_exact:
  "holds_at_most p n \<Longrightarrow> n + zat_sum rs \<le> u64_max \<Longrightarrow>
   fold add_receipt rs p = p\<lparr>ip_sapling_received_zat := ip_sapling_received_zat p + pool_sum ''sapling'' rs,
       ip_orchard_received_zat := ip_orchard_received_zat p + pool_sum ''orchard'' rs,
       ip_ironwood_received_zat := ip_ironwood_received_zat p + pool_sum ''ironwood'' rs,
       ip_transaction_received_zat := ip_transaction_received_zat p + zat_sum rs\<rparr>"
proof (induction rs arbitrary: p n)
  case Nil
  then show ?case by simp
next
  case (Cons r rs)
  have e: "add_receipt r p = p\<lparr>ip_sapling_received_zat := ip_sapling_received_zat p + (if ir_pool r = ''sapling'' then ir_value_zat r else 0),
       ip_orchard_received_zat := ip_orchard_received_zat p + (if ir_pool r = ''orchard'' then ir_value_zat r else 0),
       ip_ironwood_received_zat := ip_ironwood_received_zat p + (if ir_pool r = ''ironwood'' then ir_value_zat r else 0),
       ip_transaction_received_zat := ip_transaction_received_zat p + ir_value_zat r\<rparr>" (is "_ = ?q")
    by (rule add_receipt_exact [OF Cons.prems(1)]) (use Cons.prems(2) in simp)
  have "holds_at_most ?q (n + ir_value_zat r)" using Cons.prems(1) by (auto simp: holds_at_most_def)
  moreover have "n + ir_value_zat r + zat_sum rs \<le> u64_max" using Cons.prems(2) by simp
  ultimately have "fold add_receipt rs ?q = ?q\<lparr>ip_sapling_received_zat := ip_sapling_received_zat ?q + pool_sum ''sapling'' rs,
       ip_orchard_received_zat := ip_orchard_received_zat ?q + pool_sum ''orchard'' rs,
       ip_ironwood_received_zat := ip_ironwood_received_zat ?q + pool_sum ''ironwood'' rs,
       ip_transaction_received_zat := ip_transaction_received_zat ?q + zat_sum rs\<rparr>"
    by (rule Cons.IH)
  with e show ?case by simp
qed

text \<open>The grouping, as a map from the key to the payment.\<close>

definition add_to_group :: "incoming_receipt \<Rightarrow> ((nat \<times> string) \<times> incoming_payment) list \<Rightarrow> ((nat \<times> string) \<times> incoming_payment) list" where
  "add_to_group r m = btree_upsert (ir_mined_height r, ir_txid_hex r) (add_receipt r) (add_receipt r (no_payment r)) m"

lemma group_ok: "btree_ok m \<Longrightarrow> btree_ok (fold add_to_group rs m)"
  by (induction rs arbitrary: m) (simp_all add: add_to_group_def btree_ok_upsert)

lemma group_lookup:
  "btree_ok m \<Longrightarrow> map_of (fold add_to_group rs m) k =
     (case map_of m k of
        Some p \<Rightarrow> Some (fold add_receipt (grouped_by k rs) p)
      | None \<Rightarrow> (case grouped_by k rs of [] \<Rightarrow> None | r # rest \<Rightarrow> Some (fold add_receipt (r # rest) (no_payment r))))"
proof (induction rs arbitrary: m)
  case Nil
  then show ?case by (simp add: grouped_by_def split: option.splits)
next
  case (Cons r rs)
  have "btree_ok (add_to_group r m)" using Cons.prems by (simp add: add_to_group_def btree_ok_upsert)
  from Cons.IH [OF this] Cons.prems show ?case
    by (auto simp: add_to_group_def map_of_btree_upsert grouped_by_def payment_key_def split: option.splits)
qed

lemma aggregate_groups: "aggregate_receipts_by_transaction rs = map snd (fold add_to_group rs [])"
  unfolding aggregate_receipts_by_transaction_def add_to_group_def [abs_def] ..

lemma group_entry:
  assumes "zat_sum rs \<le> u64_max" "map_of (fold add_to_group rs []) k = Some p"
  shows "grouped_by k rs \<noteq> [] \<and> p = \<lparr>ip_txid_hex = snd k, ip_mined_height = fst k,
     ip_sapling_received_zat = pool_sum ''sapling'' (grouped_by k rs), ip_orchard_received_zat = pool_sum ''orchard'' (grouped_by k rs),
     ip_ironwood_received_zat = pool_sum ''ironwood'' (grouped_by k rs), ip_transaction_received_zat = zat_sum (grouped_by k rs)\<rparr>"
proof -
  have "map_of (fold add_to_group rs []) k =
     (case grouped_by k rs of [] \<Rightarrow> None | r # rest \<Rightarrow> Some (fold add_receipt (r # rest) (no_payment r)))"
    using group_lookup [of "[]" rs k] by (simp add: btree_ok_def)
  with assms(2) obtain r rest where g: "grouped_by k rs = r # rest" and p: "p = fold add_receipt (r # rest) (no_payment r)"
    by (auto split: list.splits)
  have "r \<in> set (grouped_by k rs)" using g by simp
  then have "payment_key r = k" by (simp add: grouped_by_def)
  then have k: "k = (ir_mined_height r, ir_txid_hex r)" by (simp add: payment_key_def)
  have "zat_sum (grouped_by k rs) \<le> zat_sum rs" by (induction rs) (auto simp: grouped_by_def)
  then have "0 + zat_sum (r # rest) \<le> u64_max" using assms(1) g by simp
  from add_receipts_exact [OF _ this, of "no_payment r"] p
  have "p = (no_payment r)\<lparr>ip_sapling_received_zat := 0 + pool_sum ''sapling'' (r # rest),
       ip_orchard_received_zat := 0 + pool_sum ''orchard'' (r # rest),
       ip_ironwood_received_zat := 0 + pool_sum ''ironwood'' (r # rest),
       ip_transaction_received_zat := 0 + zat_sum (r # rest)\<rparr>"
    by (simp add: holds_at_most_def no_payment_def)
  with g k show ?thesis by (simp add: no_payment_def)
qed

section \<open>Properties\<close>

text \<open>The spam filter drops nothing but spam: it keeps the order and drops a transaction only on mainnet, only
  in a block of the spam window and only when it has more than 50 shielded outputs; it reports how many it
  dropped, and filtering again drops nothing.\<close>
theorem spam_filter_drops_only_spam:
  shows "(case apply_spam_filter net block of (dropped, kept) \<Rightarrow>
     cb_height kept = cb_height block
     \<and> cb_vtx kept = filter (\<lambda>tx. \<not> (net = MainNetwork \<and> 1710000 \<le> cb_height block \<and> cb_height block \<le> 2050000
          \<and> 50 < length (ct_outputs tx) + length (ct_actions tx) + length (ct_ironwood_actions tx))) (cb_vtx block)
     \<and> dropped + length (cb_vtx kept) = length (cb_vtx block)
     \<and> apply_spam_filter net kept = (0, kept))"
  by (auto simp: apply_spam_filter_def Let_def MAINNET_SPAM_FILTER_START_HEIGHT_def MAINNET_SPAM_FILTER_END_HEIGHT_def
      SPAM_FILTER_OUTPUT_THRESHOLD_def compact_tx_shielded_outputs_def not_less intro!: filter_cong)


definition sample_scan_lib :: "nat scan_lib" where
  "sample_scan_lib = \<lparr>sl_scan_block = (\<lambda>_ _ b. Inr \<lparr>sk_height = cb_height b,
        sk_transactions = map (\<lambda>tx. \<lparr>sx_txid = hex_string (ct_hash tx),
          sx_sapling_outputs = map (\<lambda>out. \<lparr>so_index = 0, so_value = 500, so_recipient = out\<rparr>) (ct_outputs tx),
          sx_orchard_outputs = [], sx_ironwood_outputs = []\<rparr>) (cb_vtx b)\<rparr>),
     sl_branch_for_height = (\<lambda>_ h. h),
     sl_read_transaction = (\<lambda>_ raw. if raw = [] then Inl ''short'' else
        Inr \<lparr>mt_txid = hex_string raw, mt_sapling = Some [raw], mt_orchard = None, mt_ironwood = None\<rparr>),
     sl_decrypt_sapling = (\<lambda>_ out. Some (500, out)), sl_decrypt_orchard = (\<lambda>_ _. None),
     sl_decrypt_ironwood = (\<lambda>_ _. None)\<rparr>"

definition sample_block :: "nat \<Rightarrow> byte \<Rightarrow> compact_block" where
  "sample_block h b = \<lparr>cb_height = h, cb_vtx = [\<lparr>ct_outputs = [[b]], ct_actions = [], ct_ironwood_actions = [], ct_hash = [b]\<rparr>]\<rparr>"

definition sample_scan :: "compact_block list \<Rightarrow> (incoming_receipt list \<times> scanned_block list) result" where
  "sample_scan = scan_compact_blocks_in_pool sample_scan_lib ''testnet'' \<lparr>sk_sapling = [], sk_orchard = [], sk_ironwood = []\<rparr>"


text \<open>Aggregation keeps every zatoshi with its transaction: while the values fit 64 bits, there is exactly one
  payment per height and transaction id of the receipts, in that order, and it carries the sum of its receipts,
  split by pool.\<close>
theorem payments_sum_their_receipts:
  assumes "zat_sum receipts \<le> u64_max"
  defines "payments \<equiv> aggregate_receipts_by_transaction receipts"
  shows "sorted (map (\<lambda>p. (ip_mined_height p, ip_txid_hex p)) payments)
    \<and> distinct (map (\<lambda>p. (ip_mined_height p, ip_txid_hex p)) payments)
    \<and> set (map (\<lambda>p. (ip_mined_height p, ip_txid_hex p)) payments) = payment_key ` set receipts
    \<and> (\<forall>p \<in> set payments. let own = grouped_by (ip_mined_height p, ip_txid_hex p) receipts in
         ip_transaction_received_zat p = zat_sum own \<and> ip_sapling_received_zat p = pool_sum ''sapling'' own
         \<and> ip_orchard_received_zat p = pool_sum ''orchard'' own \<and> ip_ironwood_received_zat p = pool_sum ''ironwood'' own)"
proof -
  let ?m = "fold add_to_group receipts []"
  have ok: "btree_ok ?m" by (rule group_ok) (simp add: btree_ok_def)
  have entry: "grouped_by k receipts \<noteq> [] \<and> p = \<lparr>ip_txid_hex = snd k, ip_mined_height = fst k,
     ip_sapling_received_zat = pool_sum ''sapling'' (grouped_by k receipts), ip_orchard_received_zat = pool_sum ''orchard'' (grouped_by k receipts),
     ip_ironwood_received_zat = pool_sum ''ironwood'' (grouped_by k receipts), ip_transaction_received_zat = zat_sum (grouped_by k receipts)\<rparr>"
    if "(k, p) \<in> set ?m" for k p
  proof -
    have "map_of ?m k = Some p" using ok that by (simp add: btree_ok_def)
    from group_entry [OF assms(1) this] show ?thesis .
  qed
  have keys: "map (\<lambda>p. (ip_mined_height p, ip_txid_hex p)) payments = map fst ?m"
    unfolding payments_def aggregate_groups map_map
  proof (rule map_cong [OF refl])
    fix x assume "x \<in> set ?m"
    then show "((\<lambda>p. (ip_mined_height p, ip_txid_hex p)) \<circ> snd) x = fst x"
      using entry [of "fst x" "snd x"] by (cases x) auto
  qed
  have mem: "k \<in> set (map fst ?m) \<longleftrightarrow> k \<in> payment_key ` set receipts" for k
  proof -
    have "k \<in> set (map fst ?m) \<longleftrightarrow> map_of ?m k \<noteq> None" by (auto simp: map_of_eq_None_iff image_iff)
    also have "\<dots> \<longleftrightarrow> grouped_by k receipts \<noteq> []"
      using group_lookup [of "[]" receipts k] by (simp add: btree_ok_def split: list.splits)
    also have "\<dots> \<longleftrightarrow> k \<in> payment_key ` set receipts" by (auto simp: grouped_by_def filter_empty_conv)
    finally show ?thesis .
  qed
  have sets: "set (map fst ?m) = payment_key ` set receipts" using mem by blast
  show ?thesis
    unfolding keys sets
  proof (intro conjI ballI)
    fix p assume "p \<in> set payments"
    then obtain k where "(k, p) \<in> set ?m" by (auto simp: payments_def aggregate_groups)
    from entry [OF this] show "let own = grouped_by (ip_mined_height p, ip_txid_hex p) receipts in
         ip_transaction_received_zat p = zat_sum own \<and> ip_sapling_received_zat p = pool_sum ''sapling'' own
         \<and> ip_orchard_received_zat p = pool_sum ''orchard'' own \<and> ip_ironwood_received_zat p = pool_sum ''ironwood'' own"
      by (auto simp: Let_def)
  qed (use ok in \<open>simp_all add: btree_ok_def\<close>)
qed

definition sample_incoming :: "nat \<Rightarrow> string \<Rightarrow> string \<Rightarrow> nat \<Rightarrow> incoming_receipt" where
  "sample_incoming h txid pool v = \<lparr>ir_txid_hex = txid, ir_mined_height = h, ir_is_mempool = False, ir_pool = pool,
     ir_output_index = 0, ir_value_zat = v, ir_receiver_fingerprint = []\<rparr>"

theorem payments_sum_their_receipts_witness:
  "map ip_transaction_received_zat (aggregate_receipts_by_transaction
      [sample_incoming 9 ''b'' ''orchard'' 5, sample_incoming 8 ''a'' ''sapling'' 7, sample_incoming 9 ''b'' ''sapling'' 6]) = [7, 11]
   \<and> distinct (map (\<lambda>p. (ip_mined_height p, ip_txid_hex p)) (aggregate_receipts_by_transaction
      [sample_incoming 9 ''b'' ''orchard'' 5, sample_incoming 8 ''a'' ''sapling'' 7, sample_incoming 9 ''b'' ''sapling'' 6]))"
proof -
  let ?rs = "[sample_incoming 9 ''b'' ''orchard'' 5, sample_incoming 8 ''a'' ''sapling'' 7, sample_incoming 9 ''b'' ''sapling'' 6]"
  have "map ip_transaction_received_zat (aggregate_receipts_by_transaction ?rs) = [7, 11]" by code_simp
  with payments_sum_their_receipts [of ?rs] show ?thesis by (simp add: sample_incoming_def)
qed

end
