(* ===== verification/Receipt_Ingest.thy ===== *)
theory Receipt_Ingest
  imports Chain_Scanner Service_System
begin

text \<open>
  \<^verbatim>\<open>src/receipt_ingest.rs\<close>: scanned receipts are attributed to the issued address whose receiver they pay,
  with their uid, depth and eligibility, and persisted.
\<close>

section \<open>Attribution\<close>

definition receipt_uid_of :: "incoming_receipt \<Rightarrow> string" where
  "receipt_uid_of r = ir_txid_hex r @ '':'' @ ir_pool r @ '':'' @ show_nat (ir_output_index r)"

text \<open>\<^verbatim>\<open>tip_height - receipt.mined_height + 1\<close> is a \<^verbatim>\<open>u32\<close> and wraps in a release build.\<close>

definition scanned_depth :: "nat \<Rightarrow> nat \<Rightarrow> nat" where
  "scanned_depth tip_height mined_height =
     (if mined_height \<le> tip_height then (tip_height - mined_height + 1) mod (u32_max + 1) else 0)"

definition kind_depth_eligible :: "nat \<Rightarrow> nat \<Rightarrow> incoming_receipt \<Rightarrow> receipt_kind \<times> nat \<times> bool" where
  "kind_depth_eligible tip_height reports r =
     (if ir_is_mempool r then (Mempool, 0, reports = 0)
      else let depth = scanned_depth tip_height (ir_mined_height r) in (Mined, depth, reports \<le> depth))"

definition attribute_receipt :: "app_db \<Rightarrow> nat \<Rightarrow> nat \<Rightarrow> string \<Rightarrow> incoming_receipt \<Rightarrow> attributed_receipt option result" where
  "attribute_receipt db tip_height reports observed_at r =
     (case find_address_id_by_receiver_fingerprint (ir_pool r) (ir_receiver_fingerprint r) db of
        None \<Rightarrow> Inr None
      | Some address_id \<Rightarrow>
          (case kind_depth_eligible tip_height reports r of (kind, depth, eligible) \<Rightarrow>
           case i64_try_from (ir_value_zat r) of
             None \<Rightarrow> Inl (Wallet ''receipt value overflowed i64'')
           | Some v \<Rightarrow>
               Inr (Some \<lparr>sr_address_id = address_id, sr_txid_hex = ir_txid_hex r, sr_pool = ir_pool r,
                  sr_receipt_uid = receipt_uid_of r, sr_value_zat = v, sr_mined_height = int (ir_mined_height r),
                  sr_confirmation_depth = int depth, sr_eligible_for_webhook = eligible, sr_receipt_kind = kind,
                  sr_first_observed_at = observed_at, sr_last_observed_at = observed_at\<rparr>)))"

definition attribute_scanned_receipts ::
  "incoming_receipt list \<Rightarrow> nat \<Rightarrow> nat \<Rightarrow> string \<Rightarrow> attributed_receipt list db_op" where
  "attribute_scanned_receipts receipts tip_height reports observed_at =
     (\<lambda>db. (bind_result (map_result (attribute_receipt db tip_height reports observed_at) receipts)
              (\<lambda>found. Inr (List.map_filter (\<lambda>x. x) found)), db))"

definition persist_scanned_receipts :: "incoming_receipt list \<Rightarrow> nat \<Rightarrow> nat \<Rightarrow> nat \<Rightarrow> string \<Rightarrow> int list db_op" where
  "persist_scanned_receipts receipts tip_height reports finality observed_at =
     andThen (attribute_scanned_receipts receipts tip_height reports observed_at) (\<lambda>attributed.
     apply_attributed_receipts attributed (int tip_height) finality observed_at)"

section \<open>Facts\<close>

text \<open>A uid names one output: the transaction id and the pool hold no colon.\<close>

lemma receipt_uid_inject:
  assumes "receipt_uid_of r = receipt_uid_of q"
    and "CHR '':'' \<notin> set (ir_txid_hex r)" "CHR '':'' \<notin> set (ir_txid_hex q)"
    and "CHR '':'' \<notin> set (ir_pool r)" "CHR '':'' \<notin> set (ir_pool q)"
  shows "ir_txid_hex r = ir_txid_hex q \<and> ir_pool r = ir_pool q \<and> ir_output_index r = ir_output_index q"
proof -
  have split: "split_once CHR '':'' (receipt_uid_of x) = Some (ir_txid_hex x, ir_pool x @ '':'' @ show_nat (ir_output_index x))"
    if "CHR '':'' \<notin> set (ir_txid_hex x)" for x
    using that by (simp add: receipt_uid_of_def split_once_append)
  have split2: "split_once CHR '':'' (ir_pool x @ '':'' @ show_nat (ir_output_index x)) = Some (ir_pool x, show_nat (ir_output_index x))"
    if "CHR '':'' \<notin> set (ir_pool x)" for x
    using that by (simp add: split_once_append)
  have rest: "ir_txid_hex r = ir_txid_hex q" "ir_pool r @ '':'' @ show_nat (ir_output_index r) = ir_pool q @ '':'' @ show_nat (ir_output_index q)"
    using split [OF assms(2)] split [OF assms(3)] assms(1) by simp_all
  have "Some (ir_pool r, show_nat (ir_output_index r)) = Some (ir_pool q, show_nat (ir_output_index q))"
    unfolding split2 [OF assms(4), symmetric] split2 [OF assms(5), symmetric] rest(2) ..
  with rest(1) show ?thesis by simp
qed

text \<open>The depth given to a fresh receipt is the one the database computes later.\<close>

lemma scanned_depth_agrees:
  assumes "tip_height < u32_max"
  shows "int (scanned_depth tip_height mined_height) = depth_at (int tip_height) (int mined_height)"
  using assms by (simp add: scanned_depth_def depth_at_def)

definition known :: "app_db \<Rightarrow> incoming_receipt \<Rightarrow> int option" where
  "known db r = find_address_id_by_receiver_fingerprint (ir_pool r) (ir_receiver_fingerprint r) db"

definition attributed_as :: "app_db \<Rightarrow> nat \<Rightarrow> nat \<Rightarrow> string \<Rightarrow> incoming_receipt \<Rightarrow> attributed_receipt" where
  "attributed_as db tip reports at r =
     \<lparr>sr_address_id = the (known db r), sr_txid_hex = ir_txid_hex r, sr_pool = ir_pool r,
      sr_receipt_uid = receipt_uid_of r, sr_value_zat = int (ir_value_zat r), sr_mined_height = int (ir_mined_height r),
      sr_confirmation_depth = int (fst (snd (kind_depth_eligible tip reports r))),
      sr_eligible_for_webhook = snd (snd (kind_depth_eligible tip reports r)),
      sr_receipt_kind = fst (kind_depth_eligible tip reports r), sr_first_observed_at = at, sr_last_observed_at = at\<rparr>"

lemma attribute_receipt_Inr:
  "attribute_receipt db tip reports at r = Inr x \<longleftrightarrow>
     (case known db r of None \<Rightarrow> x = None
      | Some a \<Rightarrow> int (ir_value_zat r) \<le> i64_max \<and> x = Some (attributed_as db tip reports at r))"
  by (auto simp: attribute_receipt_def known_def attributed_as_def i64_try_from_def split: option.splits prod.splits)

lemma attribute_all:
  "map_result (attribute_receipt db tip reports at) rs = Inr found \<Longrightarrow>
   List.map_filter (\<lambda>x. x) found = map (attributed_as db tip reports at) (filter (\<lambda>r. known db r \<noteq> None) rs)
   \<and> (\<forall>r \<in> set rs. known db r \<noteq> None \<longrightarrow> int (ir_value_zat r) \<le> i64_max)"
proof (induction rs arbitrary: found)
  case Nil
  then show ?case by (simp add: map_filter_simps)
next
  case (Cons r rs)
  then obtain x xs where "attribute_receipt db tip reports at r = Inr x"
    "map_result (attribute_receipt db tip reports at) rs = Inr xs" "found = x # xs"
    by (auto simp: bind_result_Inr)
  with Cons.IH [of xs] show ?case
    by (auto simp: attribute_receipt_Inr map_filter_simps split: option.splits)
qed

lemma attribute_scanned_run:
  assumes "attribute_scanned_receipts rs tip reports at db = (Inr attributed, db')"
  shows "db' = db \<and> attributed = map (attributed_as db tip reports at) (filter (\<lambda>r. known db r \<noteq> None) rs)"
  using assms attribute_all by (fastforce simp: attribute_scanned_receipts_def bind_result_Inr)

lemma attribute_scanned_state: "attribute_scanned_receipts rs tip reports at db = (r, db') \<Longrightarrow> db' = db"
  by (simp add: attribute_scanned_receipts_def)

section \<open>Receipts stay with the receiver they pay\<close>

text \<open>
  The chain decides which receiver an output pays: \<open>payee\<close> gives it for the uid of an output.
  A scan that follows the chain reports what \<open>payee\<close> says.
\<close>

type_synonym payee = "string \<Rightarrow> (string \<times> byte list) option"

definition follows_chain :: "payee \<Rightarrow> incoming_receipt list \<Rightarrow> bool" where
  "follows_chain payee rs \<longleftrightarrow> list_all (\<lambda>r. payee (receipt_uid_of r) = Some (ir_pool r, ir_receiver_fingerprint r)) rs"

definition receiver_owner :: "receiver_row list \<Rightarrow> string \<Rightarrow> byte list \<Rightarrow> int option" where
  "receiver_owner receivers pool fp =
     map_option rv_address_id (find (\<lambda>r. rv_pool r = pool \<and> rv_receiver_fingerprint r = fp \<and> rv_is_active r) receivers)"

lemma find_by_receiver_owner: "find_address_id_by_receiver_fingerprint pool fp db = receiver_owner (db_receivers db) pool fp"
  by (simp add: find_address_id_by_receiver_fingerprint_def receiver_owner_def)

definition paid_to :: "payee \<Rightarrow> receiver_row list \<Rightarrow> string \<Rightarrow> int \<Rightarrow> bool" where
  "paid_to payee receivers uid a \<longleftrightarrow> (\<forall>pool fp. payee uid = Some (pool, fp) \<longrightarrow> receiver_owner receivers pool fp = Some a)"

definition receipts_follow :: "payee \<Rightarrow> app_db \<Rightarrow> bool" where
  "receipts_follow payee db \<longleftrightarrow> owned (db_issued_addresses db) (db_receivers db) (paid_to payee (db_receivers db)) db"

lemma attributed_admitted:
  assumes "attribute_scanned_receipts rs tip reports at db = (Inr attributed, db')" "follows_chain payee rs"
  shows "admits issued (paid_to payee (db_receivers db)) attributed"
  unfolding admits_def
proof (intro ballI impI)
  fix a assume "a \<in> set attributed"
  with attribute_scanned_run [OF assms(1)] obtain r where r: "r \<in> set rs" "known db r \<noteq> None"
    "a = attributed_as db tip reports at r" by auto
  with assms(2) have "payee (sr_receipt_uid a) = Some (ir_pool r, ir_receiver_fingerprint r)"
    by (auto simp: follows_chain_def list_all_iff attributed_as_def)
  moreover have "receiver_owner (db_receivers db) (ir_pool r) (ir_receiver_fingerprint r) = Some (sr_address_id a)"
    using r by (auto simp: known_def find_by_receiver_owner attributed_as_def)
  ultimately show "paid_to payee (db_receivers db) (sr_receipt_uid a) (sr_address_id a)" by (simp add: paid_to_def)
qed

lemma attributed_agree:
  assumes "attribute_scanned_receipts rs tip reports at db = (Inr attributed, db')"
    and "follows_chain payee rs" "receipts_follow payee db"
  shows "uids_agree attributed (db_receipts db)"
  unfolding uids_agree_def list_all_iff
proof (intro ballI impI)
  fix a row assume a: "a \<in> set attributed" and row: "row \<in> set (db_receipts db)" and u: "rr_receipt_uid row = sr_receipt_uid a"
  from attribute_scanned_run [OF assms(1)] a obtain r where r: "r \<in> set rs" "known db r \<noteq> None"
    "a = attributed_as db tip reports at r" by auto
  with assms(2) have p: "payee (sr_receipt_uid a) = Some (ir_pool r, ir_receiver_fingerprint r)"
    by (auto simp: follows_chain_def list_all_iff attributed_as_def)
  have "paid_to payee (db_receivers db) (rr_receipt_uid row) (rr_address_id row)"
    using assms(3) row by (auto simp: receipts_follow_def owned_def list_all_iff)
  with p u have "receiver_owner (db_receivers db) (ir_pool r) (ir_receiver_fingerprint r) = Some (rr_address_id row)"
    by (simp add: paid_to_def)
  moreover have "receiver_owner (db_receivers db) (ir_pool r) (ir_receiver_fingerprint r) = Some (sr_address_id a)"
    using r by (auto simp: known_def find_by_receiver_owner attributed_as_def)
  ultimately show "rr_address_id row = sr_address_id a" by simp
qed

text \<open>Operations that keep the owners keep the receipts with their receivers.\<close>

lemma follow_keeps:
  assumes "keeps (owned (db_issued_addresses db) (db_receivers db) (paid_to payee (db_receivers db))) m"
    and "receipts_follow payee db" "m db = (r, db')"
  shows "receipts_follow payee db'"
proof -
  have "owned (db_issued_addresses db) (db_receivers db) (paid_to payee (db_receivers db)) db'"
    using keepsD [OF assms(1) _ assms(3)] assms(2) by (simp add: receipts_follow_def)
  then show ?thesis by (simp add: receipts_follow_def owned_def)
qed

lemma follow_tables:
  assumes "db_issued_addresses db' = db_issued_addresses db" "db_receivers db' = db_receivers db" "db_receipts db' = db_receipts db"
  shows "receipts_follow payee db' = receipts_follow payee db"
  using assms by (simp add: receipts_follow_def owned_def)

end
