(* ===== verification/Scan_Plan.thy ===== *)
theory Scan_Plan
  imports App_Error
begin

text \<open>
  The planning half of \<^verbatim>\<open>src/wallet_runtime.rs\<close>: which heights an iteration rescans and scans,
  their division into batches, and the downloader that hands the batches on in height order.
  Heights are \<^verbatim>\<open>u32\<close>, kept as \<open>nat\<close> with saturation written out.
\<close>

section \<open>Plans\<close>

record scan_batch =
  sb_start_height :: nat
  sb_end_height :: nat

record scan_range_plan =
  sp_first_batch :: "scan_batch option"
  sp_final_height :: "nat option"
  sp_batch_size :: nat
  sp_should_mark_catching_up :: bool
  sp_is_caught_up :: bool

record sync_scan_decision =
  sd_overlap_batch :: "scan_batch option"
  sd_forward_start_height :: nat
  sd_plan :: scan_range_plan

definition next_scan_batch :: "nat \<Rightarrow> nat \<Rightarrow> nat \<Rightarrow> scan_batch option" where
  "next_scan_batch next_height final_height catch_up_batch_size =
     (if final_height < next_height then None
      else Some \<lparr>sb_start_height = next_height,
                 sb_end_height = min (sat_add_u32 next_height (catch_up_batch_size - 1)) final_height\<rparr>)"

text \<open>
  \<^verbatim>\<open>tip_height - next_height + 1\<close> is a \<^verbatim>\<open>u32\<close>; the release build wraps it around (for 0 and
  \<^verbatim>\<open>u32::MAX\<close> only). \<^verbatim>\<open>expect\<close> on the first batch never fails: see \<open>plan_first_batch\<close> below.
\<close>

definition plan_scan_range :: "nat \<Rightarrow> nat \<Rightarrow> nat \<Rightarrow> nat \<Rightarrow> scan_range_plan" where
  "plan_scan_range next_height tip_height catch_up_threshold_blocks catch_up_batch_size =
     (if tip_height < next_height then
        \<lparr>sp_first_batch = None, sp_final_height = None, sp_batch_size = catch_up_batch_size,
         sp_should_mark_catching_up = False, sp_is_caught_up = True\<rparr>
      else
        let lag_blocks = (tip_height - next_height + 1) mod (u32_max + 1) in
        \<lparr>sp_first_batch = next_scan_batch next_height tip_height catch_up_batch_size,
         sp_final_height = Some tip_height, sp_batch_size = catch_up_batch_size,
         sp_should_mark_catching_up = (catch_up_threshold_blocks \<le> lag_blocks), sp_is_caught_up = False\<rparr>)"

definition forward_scan_start_height :: "nat \<Rightarrow> int \<Rightarrow> nat \<Rightarrow> nat" where
  "forward_scan_start_height birthday_height last_scanned_height tip_height =
     (if last_scanned_height \<le> 0 then birthday_height
      else max (case u32_try_from last_scanned_height of
                  Some height \<Rightarrow> sat_add_u32 (min height tip_height) 1
                | None \<Rightarrow> sat_add_u32 tip_height 1) birthday_height)"

definition reorg_overlap_batch :: "nat \<Rightarrow> int \<Rightarrow> nat \<Rightarrow> nat \<Rightarrow> scan_batch option" where
  "reorg_overlap_batch birthday_height last_scanned_height tip_height finality_confirmations =
     (if last_scanned_height \<le> 0 then None
      else case u32_try_from last_scanned_height of
        None \<Rightarrow> None
      | Some scanned \<Rightarrow>
          let overlap_end = min scanned tip_height in
          if overlap_end < birthday_height then None
          else let window = finality_confirmations - 1 in
            Some \<lparr>sb_start_height = max (overlap_end - window) birthday_height, sb_end_height = overlap_end\<rparr>)"

definition build_sync_scan_decision :: "nat \<Rightarrow> int \<Rightarrow> nat \<Rightarrow> nat \<Rightarrow> nat \<Rightarrow> nat \<Rightarrow> sync_scan_decision" where
  "build_sync_scan_decision birthday_height last_scanned_height tip_height catch_up_threshold_blocks
     catch_up_batch_size finality_confirmations =
     (let forward_start_height = forward_scan_start_height birthday_height last_scanned_height tip_height in
      \<lparr>sd_overlap_batch = reorg_overlap_batch birthday_height last_scanned_height tip_height finality_confirmations,
       sd_forward_start_height = forward_start_height,
       sd_plan = plan_scan_range forward_start_height tip_height catch_up_threshold_blocks catch_up_batch_size\<rparr>)"

section \<open>The downloader\<close>

text \<open>What awaiting a spawned task gives: its result, or a \<^verbatim>\<open>JoinError\<close> when it panicked.\<close>

datatype 'a joined = Finished "'a result" | JoinFailed string

definition join_error_to_wallet_error :: "string \<Rightarrow> app_error" where
  "join_error_to_wallet_error e = Wallet (''wallet sync worker subtask failed: '' @ e)"

text \<open>The batches in flight, oldest first, and the batch to start next.\<close>

function fill_in_flight ::
  "nat \<Rightarrow> nat \<Rightarrow> nat \<Rightarrow> scan_batch list \<Rightarrow> scan_batch option \<Rightarrow> scan_batch list \<times> scan_batch option" where
  "fill_in_flight final_height step concurrency in_flight next_batch =
     (if length in_flight < max concurrency 1 then
        (case next_batch of
           None \<Rightarrow> (in_flight, None)
         | Some batch \<Rightarrow>
             fill_in_flight final_height step concurrency (in_flight @ [batch])
               (next_scan_batch (sat_add_u32 (sb_end_height batch) 1) final_height step))
      else (in_flight, next_batch))"
  by pat_completeness auto
termination
  by (relation "measure (\<lambda>(final_height, step, concurrency, in_flight, next_batch).
        max concurrency 1 - length in_flight)") auto

declare fill_in_flight.simps [simp del]

text \<open>
  \<open>fetch\<close> is what each download will give, \<open>accepts n\<close> whether the receiver is still there for
  the \<open>n\<close>th send. The value is the result of the task and what was received, in order; \<open>None\<close>
  when the loop never ends.
\<close>

partial_function (option) ordered_downloads ::
  "(scan_batch \<Rightarrow> 'a joined) \<Rightarrow> (nat \<Rightarrow> bool) \<Rightarrow> nat \<Rightarrow> nat \<Rightarrow> nat \<Rightarrow> scan_batch list \<Rightarrow> scan_batch option
   \<Rightarrow> 'a result list \<Rightarrow> (unit result \<times> 'a result list) option" where
  [code]: "ordered_downloads fetch accepts final_height step concurrency in_flight next_batch sent =
     (case fill_in_flight final_height step concurrency in_flight next_batch of
        ([], _) \<Rightarrow> Some (Inr (), sent)
      | (batch # rest, following) \<Rightarrow>
          (case fetch batch of
             JoinFailed e \<Rightarrow> Some (Inl (join_error_to_wallet_error e), sent)
           | Finished r \<Rightarrow>
               if \<not> accepts (length sent) then Some (Inr (), sent)
               else (case r of
                   Inl e \<Rightarrow> Some (Inr (), sent @ [r])
                 | Inr v \<Rightarrow> ordered_downloads fetch accepts final_height step concurrency rest following (sent @ [r]))))"

definition run_ordered_downloads ::
  "scan_batch \<Rightarrow> nat \<Rightarrow> nat \<Rightarrow> nat \<Rightarrow> (nat \<Rightarrow> bool) \<Rightarrow> (scan_batch \<Rightarrow> 'a joined)
   \<Rightarrow> (unit result \<times> 'a result list) option" where
  "run_ordered_downloads first_batch final_height catch_up_batch_size concurrency accepts fetch =
     ordered_downloads fetch accepts final_height catch_up_batch_size concurrency [] (Some first_batch) []"

section \<open>The batches\<close>

definition batch_heights :: "scan_batch \<Rightarrow> nat list" where
  "batch_heights b = [sb_start_height b..<Suc (sb_end_height b)]"

lemma next_scan_batch_None [simp]: "next_scan_batch n final step = None \<longleftrightarrow> final < n"
  by (simp add: next_scan_batch_def)

lemma next_scan_batch_Some:
  assumes "next_scan_batch n final step = Some b" "final \<le> u32_max"
  shows "sb_start_height b = n" "n \<le> sb_end_height b" "sb_end_height b \<le> final" "sb_end_height b < n + max step 1"
  using assms by (auto simp: next_scan_batch_def sat_add_u32_def split: if_splits)

text \<open>The reference: the batches from a height on, in order.\<close>

function batches_from :: "nat \<Rightarrow> nat \<Rightarrow> nat \<Rightarrow> scan_batch list" where
  "batches_from final step n =
     (if u32_max < final then []
      else case next_scan_batch n final step of
        None \<Rightarrow> []
      | Some b \<Rightarrow> b # batches_from final step (Suc (sb_end_height b)))"
  by pat_completeness auto
termination
  by (relation "measure (\<lambda>(final, step, n). Suc final - n)")
    (auto simp: next_scan_batch_def sat_add_u32_def split: if_splits)

declare batches_from.simps [simp del]

lemma plan_first_batch: "(sp_first_batch (plan_scan_range next tip threshold size_limit) = None) = (tip < next)"
  by (auto simp: plan_scan_range_def Let_def next_scan_batch_None)

lemma batches_from_step:
  assumes "final \<le> u32_max" "n \<le> final"
  shows "batches_from final step n = the (next_scan_batch n final step)
    # batches_from final step (Suc (sb_end_height (the (next_scan_batch n final step))))"
  using assms by (subst batches_from.simps) (auto split: option.splits)

lemma batches_from_end: "final < n \<Longrightarrow> batches_from final step n = []"
  by (subst batches_from.simps) (simp add: next_scan_batch_def)

lemma batches_partition:
  "final \<le> u32_max \<Longrightarrow> concat (map batch_heights (batches_from final step n)) = [n..<Suc final]"
proof (induction final step n rule: batches_from.induct)
  case (1 final step n)
  show ?case
  proof (cases "final < n")
    case True
    then show ?thesis by (simp add: batches_from_end)
  next
    case False
    then obtain b where b: "next_scan_batch n final step = Some b" using next_scan_batch_None by fastforce
    note facts = next_scan_batch_Some [OF b "1.prems"]
    have "concat (map batch_heights (batches_from final step (Suc (sb_end_height b)))) = [Suc (sb_end_height b)..<Suc final]"
      by (rule "1.IH") (use b "1.prems" in auto)
    moreover have "batches_from final step n = b # batches_from final step (Suc (sb_end_height b))"
      using False b "1.prems" by (simp add: batches_from_step)
    moreover have "batch_heights b = [n..<Suc (sb_end_height b)]"
      by (simp only: batch_heights_def facts(1))
    ultimately have "concat (map batch_heights (batches_from final step n))
      = [n..<Suc (sb_end_height b)] @ [Suc (sb_end_height b)..<Suc final]"
      by simp
    also have "\<dots> = [n..<Suc final]"
      using facts(2,3) upt_add_eq_append [of n "Suc (sb_end_height b)" "final - sb_end_height b"] by (simp del: upt_Suc)
    finally show ?thesis .
  qed
qed

lemma batches_small:
  "final \<le> u32_max \<Longrightarrow> b \<in> set (batches_from final step n) \<Longrightarrow> length (batch_heights b) \<le> max step 1"
proof (induction final step n rule: batches_from.induct)
  case (1 final step n)
  have "n \<le> final" using "1.prems" batches_from_end [of final n step] by (cases "n \<le> final") auto
  then obtain c where c: "next_scan_batch n final step = Some c" using next_scan_batch_None by fastforce
  have "b = c \<or> b \<in> set (batches_from final step (Suc (sb_end_height c)))"
    using "1.prems" \<open>n \<le> final\<close> c by (simp add: batches_from_step)
  moreover have "length (batch_heights c) \<le> max step 1"
    using next_scan_batch_Some [OF c] "1.prems"(1) by (simp add: batch_heights_def)
  ultimately show ?case using "1.IH" [OF _ c] "1.prems"(1) by auto
qed

lemma batches_nonempty:
  "final \<le> u32_max \<Longrightarrow> b \<in> set (batches_from final step n) \<Longrightarrow> 0 < length (batch_heights b)"
proof (induction final step n rule: batches_from.induct)
  case (1 final step n)
  have "n \<le> final" using "1.prems" batches_from_end [of final n step] by (cases "n \<le> final") auto
  then obtain c where c: "next_scan_batch n final step = Some c" using next_scan_batch_None by fastforce
  have "b = c \<or> b \<in> set (batches_from final step (Suc (sb_end_height c)))"
    using "1.prems" \<open>n \<le> final\<close> c by (simp add: batches_from_step)
  moreover have "0 < length (batch_heights c)"
    using next_scan_batch_Some [OF c] "1.prems"(1) by (simp add: batch_heights_def)
  ultimately show ?case using "1.IH" [OF _ c] "1.prems"(1) by auto
qed

section \<open>The downloader delivers the batches in order\<close>

text \<open>The reference: one download after the other.\<close>

fun downloads_in_order ::
  "(scan_batch \<Rightarrow> 'a joined) \<Rightarrow> (nat \<Rightarrow> bool) \<Rightarrow> scan_batch list \<Rightarrow> 'a result list \<Rightarrow> unit result \<times> 'a result list" where
  "downloads_in_order fetch accepts [] sent = (Inr (), sent)"
| "downloads_in_order fetch accepts (b # bs) sent =
     (case fetch b of
        JoinFailed e \<Rightarrow> (Inl (join_error_to_wallet_error e), sent)
      | Finished r \<Rightarrow>
          if \<not> accepts (length sent) then (Inr (), sent)
          else (case r of
              Inl e \<Rightarrow> (Inr (), sent @ [r])
            | Inr v \<Rightarrow> downloads_in_order fetch accepts bs (sent @ [r])))"

definition pending :: "nat \<Rightarrow> nat \<Rightarrow> scan_batch list \<Rightarrow> scan_batch option \<Rightarrow> scan_batch list" where
  "pending final step in_flight next_batch = in_flight @
     (case next_batch of None \<Rightarrow> [] | Some b \<Rightarrow> b # batches_from final step (Suc (sb_end_height b)))"

definition in_bounds :: "nat \<Rightarrow> scan_batch option \<Rightarrow> bool" where
  "in_bounds final next_batch \<longleftrightarrow> (\<forall>b. next_batch = Some b \<longrightarrow> sb_end_height b \<le> final)"

lemma following_batches:
  assumes "sb_end_height b \<le> final" "final < u32_max"
  shows "(case next_scan_batch (sat_add_u32 (sb_end_height b) 1) final step of
            None \<Rightarrow> [] | Some c \<Rightarrow> c # batches_from final step (Suc (sb_end_height c)))
         = batches_from final step (Suc (sb_end_height b))"
proof -
  have "sat_add_u32 (sb_end_height b) 1 = Suc (sb_end_height b)" using assms by (simp add: sat_add_u32_def)
  moreover have "batches_from final step (Suc (sb_end_height b)) =
    (case next_scan_batch (Suc (sb_end_height b)) final step of
            None \<Rightarrow> [] | Some c \<Rightarrow> c # batches_from final step (Suc (sb_end_height c)))"
    using assms(2) by (subst batches_from.simps) simp
  ultimately show ?thesis by simp
qed

lemma fill_keeps_pending:
  "final < u32_max \<Longrightarrow> in_bounds final next_batch \<Longrightarrow>
   fill_in_flight final step c in_flight next_batch = (fl, nb) \<Longrightarrow>
   pending final step fl nb = pending final step in_flight next_batch \<and> in_bounds final nb
   \<and> (fl = [] \<longrightarrow> nb = None)"
proof (induction final step c in_flight next_batch rule: fill_in_flight.induct)
  case (1 final step c in_flight next_batch)
  show ?case
  proof (cases "length in_flight < max c 1")
    case room: True
    show ?thesis
    proof (cases next_batch)
      case None
      with room 1 show ?thesis by (simp add: fill_in_flight.simps [of _ _ _ _ None])
    next
      case (Some b)
      then have b: "sb_end_height b \<le> final" using "1.prems"(2) by (simp add: in_bounds_def)
      let ?n = "next_scan_batch (sat_add_u32 (sb_end_height b) 1) final step"
      have "in_bounds final ?n"
        using next_scan_batch_Some(3) [of _ final step] "1.prems"(1) by (auto simp: in_bounds_def)
      moreover have "fill_in_flight final step c (in_flight @ [b]) ?n = (fl, nb)"
        using "1.prems"(3) room Some by (simp add: fill_in_flight.simps [of _ _ _ _ "Some b"])
      moreover have "pending final step (in_flight @ [b]) ?n = pending final step in_flight next_batch"
        using following_batches [OF b "1.prems"(1)] Some by (simp add: pending_def)
      ultimately show ?thesis using "1.IH" [OF room Some "1.prems"(1)] by simp
    qed
  next
    case False
    then have "fill_in_flight final step c in_flight next_batch = (in_flight, next_batch)"
      by (subst fill_in_flight.simps) simp
    moreover have "in_flight \<noteq> []" using False by auto
    ultimately show ?thesis using "1.prems"(2,3) by auto
  qed
qed

lemma ordered_downloads_run:
  assumes "final < u32_max" "in_bounds final next_batch"
  shows "ordered_downloads fetch accepts final step c in_flight next_batch sent
    = Some (downloads_in_order fetch accepts (pending final step in_flight next_batch) sent)"
  using assms(2)
proof (induction "length (pending final step in_flight next_batch)" arbitrary: in_flight next_batch sent rule: less_induct)
  case less
  obtain fl nb where f: "fill_in_flight final step c in_flight next_batch = (fl, nb)" by fastforce
  note kept = fill_keeps_pending [OF assms(1) less.prems f]
  show ?case
  proof (cases fl)
    case Nil
    with kept have "nb = None" by blast
    with Nil kept have "pending final step in_flight next_batch = []" by (simp add: pending_def)
    with Nil f show ?thesis by (simp add: ordered_downloads.simps)
  next
    case (Cons b rest)
    then have p: "pending final step in_flight next_batch = b # pending final step rest nb"
      using kept by (simp add: pending_def)
    then have IH: "ordered_downloads fetch accepts final step c rest nb sent'
        = Some (downloads_in_order fetch accepts (pending final step rest nb) sent')" for sent'
      using less.hyps [of rest nb] kept by simp
    show ?thesis using Cons f p IH
      by (subst ordered_downloads.simps) (simp split: joined.splits sum.splits)
  qed
qed

lemma downloads_run:
  assumes "sb_end_height first_batch \<le> final" "final < u32_max"
  shows "run_ordered_downloads first_batch final step c accepts fetch
    = Some (downloads_in_order fetch accepts (first_batch # batches_from final step (Suc (sb_end_height first_batch))) [])"
proof -
  have "in_bounds final (Some first_batch)" using assms(1) by (simp add: in_bounds_def)
  from ordered_downloads_run [OF assms(2) this, of fetch accepts step c "[]" "[]"] show ?thesis
    unfolding run_ordered_downloads_def pending_def by (simp only: append_Nil option.case)
qed

text \<open>Downloads that all succeed and are all received.\<close>

lemma downloads_all:
  "(\<And>b. fetch b = Finished (Inr (g b))) \<Longrightarrow> (\<And>n. accepts n) \<Longrightarrow>
   downloads_in_order fetch accepts bs sent = (Inr (), sent @ map (\<lambda>b. Inr (g b)) bs)"
  by (induction bs arbitrary: sent) simp_all

lemma batches_from_first:
  assumes "next_scan_batch n final step = Some b" "final \<le> u32_max"
  shows "b # batches_from final step (Suc (sb_end_height b)) = batches_from final step n"
  using assms by (subst (2) batches_from.simps) simp

text \<open>At the largest height the batches never end: the following start saturates.\<close>

definition stuck :: "scan_batch list \<Rightarrow> scan_batch option \<Rightarrow> bool" where
  "stuck in_flight next_batch \<longleftrightarrow>
     (\<exists>b. next_batch = Some b \<and> sb_end_height b \<le> u32_max)"

lemma next_at_max: "n \<le> u32_max \<Longrightarrow> \<exists>b. next_scan_batch (sat_add_u32 n 1) u32_max step = Some b \<and> sb_end_height b \<le> u32_max"
  by (auto simp: next_scan_batch_def sat_add_u32_def)

lemma fill_stuck:
  "final = u32_max \<Longrightarrow> stuck in_flight next_batch \<Longrightarrow>
   fill_in_flight final step c in_flight next_batch = (fl, nb) \<Longrightarrow> stuck fl nb \<and> fl \<noteq> []"
proof (induction final step c in_flight next_batch rule: fill_in_flight.induct)
  case (1 final step c in_flight next_batch)
  from "1.prems"(2) obtain b where b: "next_batch = Some b" "sb_end_height b \<le> u32_max" by (auto simp: stuck_def)
  show ?case
  proof (cases "length in_flight < max c 1")
    case True
    let ?n = "next_scan_batch (sat_add_u32 (sb_end_height b) 1) final step"
    have "stuck (in_flight @ [b]) ?n" using next_at_max [OF b(2)] "1.prems"(1) by (simp add: stuck_def)
    moreover have "fill_in_flight final step c (in_flight @ [b]) ?n = (fl, nb)"
      using "1.prems"(3) True b(1) by (simp add: fill_in_flight.simps [of _ _ _ _ "Some b"])
    ultimately show ?thesis using "1.IH" [OF True b(1) "1.prems"(1)] by simp
  next
    case False
    then have "fill_in_flight final step c in_flight next_batch = (in_flight, next_batch)"
      by (subst fill_in_flight.simps) simp
    moreover have "in_flight \<noteq> []" using False by auto
    ultimately show ?thesis using "1.prems"(2,3) by auto
  qed
qed

lemma returns_not_stuck:
  assumes "ordered_downloads fetch accepts final step c in_flight next_batch sent = Some r"
  shows "(\<forall>b. \<exists>v. fetch b = Finished (Inr v)) \<and> (\<forall>n. accepts n) \<and> final = u32_max \<longrightarrow> \<not> stuck in_flight next_batch"
  apply (rule ordered_downloads.raw_induct [where P = "\<lambda>fetch accepts final step c in_flight next_batch sent r.
    (\<forall>b. \<exists>v. fetch b = Finished (Inr v)) \<and> (\<forall>n. accepts n) \<and> final = u32_max \<longrightarrow> \<not> stuck in_flight next_batch", OF _ assms])
  subgoal premises prems for od fetch accepts final step c in_flight next_batch sent r
  proof (intro impI notI, elim conjE)
    assume fetches: "\<forall>b. \<exists>v. fetch b = Finished (Inr v)" and acc: "\<forall>n. accepts n" and mx: "final = u32_max"
      and st: "stuck in_flight next_batch"
    obtain fl nx where f: "fill_in_flight final step c in_flight next_batch = (fl, nx)" by fastforce
    from fill_stuck [OF mx st f] obtain b rest where fl: "fl = b # rest" and nx: "stuck rest nx"
      by (cases fl) (auto simp: stuck_def)
    from fetches obtain v where "fetch b = Finished (Inr v)" by blast
    with prems(2) f fl acc have "od fetch accepts final step c rest nx (sent @ [Inr v]) = Some r" by simp
    from prems(1) [OF this] nx fetches acc mx show False by blast
  qed
  done

lemma downloads_stuck:
  assumes "\<And>b. \<exists>v. fetch b = Finished (Inr v)" "\<And>n. accepts n" "sb_end_height b \<le> u32_max"
  shows "run_ordered_downloads b u32_max step c accepts fetch = None"
proof (rule ccontr)
  assume "run_ordered_downloads b u32_max step c accepts fetch \<noteq> None"
  then obtain r where "ordered_downloads fetch accepts u32_max step c [] (Some b) [] = Some r"
    by (auto simp: run_ordered_downloads_def)
  from returns_not_stuck [OF this] assms show False by (simp add: stuck_def)
qed

section \<open>Properties\<close>



text \<open>C23: The pipelined downloader is equivalent to a sequential one: with any number of downloads in flight it
  ends, and the receiver gets exactly what downloading the batches one after the other gives, in height
  order, up to the first failed download or the receiver going away.\<close>
theorem downloads_arrive_in_height_order:
  assumes "sb_end_height first_batch \<le> final_height" "final_height < u32_max"
  shows "run_ordered_downloads first_batch final_height step concurrency accepts fetch
    = Some (downloads_in_order fetch accepts
        (first_batch # batches_from final_height step (Suc (sb_end_height first_batch))) [])"
  using assms by (rule downloads_run)

theorem downloads_arrive_in_height_order_witness:
  "run_ordered_downloads \<lparr>sb_start_height = 10, sb_end_height = 13\<rparr> 20 4 3 (\<lambda>_. True)
     (\<lambda>b. if sb_start_height b = 18 then Finished (Inl (Wallet ''down'')) else Finished (Inr (sb_end_height b)))
   = Some (Inr (), [Inr 13, Inr 17, Inl (Wallet ''down'')])"
proof -
  let ?fetch = "\<lambda>b. if sb_start_height b = 18 then Finished (Inl (Wallet ''down'')) else Finished (Inr (sb_end_height b))"
  have "downloads_in_order ?fetch (\<lambda>_. True) (\<lparr>sb_start_height = 10, sb_end_height = 13\<rparr> # batches_from 20 4 14) []
      = (Inr (), [Inr 13, Inr 17, Inl (Wallet ''down'')])" by code_simp
  with downloads_arrive_in_height_order [of "\<lparr>sb_start_height = 10, sb_end_height = 13\<rparr>" 20 4 3 "\<lambda>_. True" ?fetch]
  show ?thesis by simp
qed

text \<open>The loop over the batches ends for every range below the largest \<^verbatim>\<open>u32\<close> height, but not at it: when
  the tip reported is \<^verbatim>\<open>u32::MAX\<close> and every download succeeds, the following start saturates at the final
  height and the downloader fetches the last block for ever.\<close>
theorem downloads_never_end_at_the_largest_height:
  assumes "\<And>b. \<exists>v. fetch b = Finished (Inr v)" "\<And>n. accepts n" "sb_end_height first_batch \<le> u32_max"
  shows "run_ordered_downloads first_batch u32_max step concurrency accepts fetch = None"
  using assms by (rule downloads_stuck)

theorem downloads_never_end_at_the_largest_height_witness:
  "run_ordered_downloads \<lparr>sb_start_height = 4294967290, sb_end_height = u32_max\<rparr> u32_max 10 3 (\<lambda>_. True)
     (\<lambda>b. Finished (Inr (sb_start_height b))) = None"
  by (rule downloads_never_end_at_the_largest_height) auto

text \<open>C21: An iteration leaves no height out: from the birthday to the tip, every height that is not scanned yet,
  and every scanned one that had not reached finality at the end of the scanned range, is in the forward
  range or in the overlap that is scanned again, and the two ranges join without a gap.\<close>
theorem no_height_is_left_out:
  assumes "build_sync_scan_decision birthday scanned tip threshold step finality = d"
    and "birthday \<le> h" "h \<le> tip" "tip < u32_max" "scanned \<le> int u32_max" "0 < finality"
  shows "(min scanned (int tip) < int h + int finality \<longrightarrow> sd_forward_start_height d \<le> h
         \<or> (\<exists>b. sd_overlap_batch d = Some b \<and> h \<in> set (batch_heights b)))
    \<and> (\<forall>b. sd_overlap_batch d = Some b \<longrightarrow> sd_forward_start_height d = Suc (sb_end_height b))
    \<and> sp_first_batch (sd_plan d) = next_scan_batch (sd_forward_start_height d) tip step"
proof -
  have d: "d = build_sync_scan_decision birthday scanned tip threshold step finality" using assms(1) by simp
  have plan: "sp_first_batch (plan_scan_range n t th st) = next_scan_batch n t st" for n t th st
    by (simp add: plan_scan_range_def Let_def next_scan_batch_def)
  show ?thesis
  proof (cases "scanned \<le> 0")
    case True
    with assms show ?thesis
      by (auto simp: d plan build_sync_scan_decision_def forward_scan_start_height_def reorg_overlap_batch_def)
  next
    case False
    with assms(5) obtain n where n: "scanned = int n" "u32_try_from scanned = Some n"
      by (cases scanned) (auto simp: u32_try_from_def)
    with False assms show ?thesis
      by (auto simp: d plan build_sync_scan_decision_def forward_scan_start_height_def reorg_overlap_batch_def
          Let_def sat_add_u32_def batch_heights_def min_def max_def split: if_splits)
  qed
qed

theorem no_height_is_left_out_witness:
  "11 \<in> set (batch_heights \<lparr>sb_start_height = 11, sb_end_height = 20\<rparr>)
   \<and> sd_overlap_batch (build_sync_scan_decision 5 20 25 3 4 10) = Some \<lparr>sb_start_height = 11, sb_end_height = 20\<rparr>
   \<and> sd_forward_start_height (build_sync_scan_decision 5 20 25 3 4 10) = 21"
proof -
  let ?d = "build_sync_scan_decision 5 20 25 3 4 10"
  have e: "sd_overlap_batch ?d = Some \<lparr>sb_start_height = 11, sb_end_height = 20\<rparr>" "sd_forward_start_height ?d = 21"
    by code_simp+
  from no_height_is_left_out [of 5 20 25 3 4 10 ?d 11] e show ?thesis by simp
qed

end
