(* ===== verification/Sync_Runtime.thy ===== *)
theory Sync_Runtime
  imports Receipt_Ingest Scan_Plan
begin

text \<open>
  The running half of \<^verbatim>\<open>src/wallet_runtime.rs\<close>: one iteration of the synchronisation with its
  rescan of the overlap, its catch-up pipeline and its mempool snapshot, the strategy for waking
  up, and the loop around it.
\<close>

section \<open>State and environment\<close>

text \<open>
  The state of an iteration: the application database, the lightwalletd client, and how often the
  clock was read. \<open>ss_diverged\<close> is set, and nothing runs after it, where the program would loop for
  ever. The other tasks share the database and run between any two transactions of an iteration:
  \<open>ss_others\<close> is what they do before each of its next ones, and \<open>ss_held\<close> the delivery the worker is
  sending meanwhile.
\<close>

record 'c sync_state =
  ss_db :: app_db
  ss_held :: "int option"
  ss_others :: "(service \<Rightarrow> service) list"
  ss_link :: "'c link_state"
  ss_reads :: nat
  ss_diverged :: bool

text \<open>
  The environment: the far end, the libraries, the clock at its readings, the outcome of building
  the thread pool and of initializing and reading the wallet database, and what each download task of the pipeline gives
  (the tasks run beside the scan).
\<close>

record ('c, 'k, 'i) sync_env =
  se_lightwalletd :: "'c lightwalletd"
  se_zcash :: "('k, 'i) zcash_lib"
  se_scan :: "'i scan_lib"
  se_ext :: externals
  se_now :: "nat \<Rightarrow> string result"
  se_thread_pool :: "unit result"
  se_wallet_db :: "unit result"
  se_wallet_db_identity :: "wallet_db_identity option result"
  se_fetch_batch :: "scan_batch \<Rightarrow> compact_block list joined"

type_synonym ('c, 'a) sync = "('c sync_state, app_error, 'a) prog"

text \<open>The service as the next transaction finds it, after the turn of the other tasks.\<close>

definition shared :: "'c sync_state \<Rightarrow> service" where
  "shared s = \<lparr>sv_db = ss_db s, sv_held = ss_held s\<rparr>"

definition turn :: "'c sync_state \<Rightarrow> service" where
  "turn s = (case ss_others s of [] \<Rightarrow> shared s | f # fs \<Rightarrow> f (shared s))"

definition on_app_db :: "'a db_op \<Rightarrow> ('c, 'a) sync" where
  "on_app_db m s = (let sv = turn s in case m (sv_db sv) of
     (r, db) \<Rightarrow> (r, s\<lparr>ss_db := db, ss_held := sv_held sv, ss_others := tl (ss_others s)\<rparr>))"

definition on_link :: "('c, 'a) call \<Rightarrow> ('c, 'a) sync" where
  "on_link m s = (case m (ss_link s) of (r, l) \<Rightarrow> (r, s\<lparr>ss_link := l\<rparr>))"

definition read_now :: "('c, 'k, 'i) sync_env \<Rightarrow> ('c, string) sync" where
  "read_now env s = (se_now env (ss_reads s), s\<lparr>ss_reads := Suc (ss_reads s)\<rparr>)"

definition diverge :: "('c, 'a) sync" where
  "diverge s = (Inl (Wallet []), s\<lparr>ss_diverged := True\<rparr>)"

text \<open>A database operation that reads the clock itself.\<close>

definition timed :: "('c, 'k, 'i) sync_env \<Rightarrow> (string \<Rightarrow> 'a db_op) \<Rightarrow> ('c, 'a) sync" where
  "timed env m = andThen (read_now env) (\<lambda>now. on_app_db (m now))"

definition STATE_SYNCED :: string where "STATE_SYNCED = ''synced''"
definition STATE_CATCHING_UP :: string where "STATE_CATCHING_UP = ''catching_up''"
definition STATE_BLOCKED_SCANNING_KEY_MATERIAL :: string where
  "STATE_BLOCKED_SCANNING_KEY_MATERIAL = ''blocked_scanning_key_material''"
definition STATE_BLOCKED_LIGHTWALLETD_ENDPOINT :: string where
  "STATE_BLOCKED_LIGHTWALLETD_ENDPOINT = ''blocked_lightwalletd_endpoint''"
definition DOWNLOAD_CONCURRENCY :: nat where "DOWNLOAD_CONCURRENCY = 3"

section \<open>Scanning a batch of blocks\<close>

text \<open>The blocks of a range are scanned, the receipts attributed and the range reconciled with them.\<close>

definition reconcile_blocks :: "('c, 'k, 'i) sync_env \<Rightarrow> config \<Rightarrow> 'i scanning_keys \<Rightarrow> nat \<Rightarrow> scan_batch
    \<Rightarrow> compact_block list \<Rightarrow> ('c, reconciliation) sync" where
  "reconcile_blocks env cfg keys tip_height batch blocks =
     andThen (lift_result (scan_compact_blocks_in_pool (se_scan env) (network cfg) keys blocks)) (\<lambda>scanned_batch.
     andThen (read_now env) (\<lambda>observed_at.
     andThen (on_app_db (attribute_scanned_receipts (fst scanned_batch) tip_height (webhook_report_confirmations cfg) observed_at)) (\<lambda>attributed.
     timed env (reconcile_attributed_receipts_in_range attributed (int (sb_start_height batch)) (int (sb_end_height batch))
                  (int tip_height) (finality_confirmations cfg)))))"

definition reconcile_overlap_batch :: "('c, 'k, 'i) sync_env \<Rightarrow> config \<Rightarrow> string \<Rightarrow> string \<Rightarrow> nat \<Rightarrow> scan_batch
    \<Rightarrow> ('c, reconciliation) sync" where
  "reconcile_overlap_batch env cfg uivk url tip_height overlap_batch =
     andThen (on_link (fetch_compact_blocks_for_height_range (se_lightwalletd env) url
                         (sb_start_height overlap_batch) (sb_end_height overlap_batch))) (\<lambda>blocks.
     andThen (lift_result (scanning_keys_from_uivk (se_zcash env) (network cfg) uivk)) (\<lambda>keys.
     andThen (lift_result (se_thread_pool env)) (\<lambda>_.
     reconcile_blocks env cfg keys tip_height overlap_batch blocks)))"

text \<open>One round of the scanning loop: the accumulator is the affected addresses and the height scanned.\<close>

definition batch_reason :: "scan_batch \<Rightarrow> reconciliation \<Rightarrow> nat \<Rightarrow> string" where
  "batch_reason batch rc queued = ''catch-up scan processed compact blocks '' @ show_nat (sb_start_height batch) @ ''..=''
     @ show_nat (sb_end_height batch) @ '' with bounded download/scan pipelining, '' @ show_nat (rc_inserted_receipt_count rc)
     @ '' inserted, '' @ show_nat (rc_revoked_receipt_count rc) @ '' revoked, '' @ show_nat (rc_reactivated_receipt_count rc)
     @ '' reactivated receipts, and queued '' @ show_nat queued @ '' webhook deliveries''"

definition scan_downloaded :: "('c, 'k, 'i) sync_env \<Rightarrow> config \<Rightarrow> 'i scanning_keys \<Rightarrow> nat
    \<Rightarrow> (scan_batch \<times> compact_block list) result \<Rightarrow> int list \<times> int \<Rightarrow> ('c, int list \<times> int) sync" where
  "scan_downloaded env cfg keys tip_height batch_result acc =
     andThen (lift_result batch_result) (\<lambda>(batch, blocks).
     andThen (reconcile_blocks env cfg keys tip_height batch blocks) (\<lambda>rc.
     andThen (timed env (queue_webhook_deliveries_for_dirty_addresses (se_ext env) (rc_affected_address_ids rc))) (\<lambda>queued.
     let touched = fold bset_insert (rc_affected_address_ids rc) (fst acc); scanned = int (sb_end_height batch) in
     andThen (timed env (record_sync_status STATE_CATCHING_UP (batch_reason batch rc (length queued)) (int tip_height) scanned)) (\<lambda>_.
     ret (touched, scanned)))))"

definition fetched_batch :: "('c, 'k, 'i) sync_env \<Rightarrow> scan_batch \<Rightarrow> (scan_batch \<times> compact_block list) joined" where
  "fetched_batch env batch =
     (case se_fetch_batch env batch of
        JoinFailed e \<Rightarrow> JoinFailed e
      | Finished (Inl e) \<Rightarrow> Finished (Inl e)
      | Finished (Inr blocks) \<Rightarrow> Finished (Inr (batch, blocks)))"

text \<open>
  The receiver takes every result until one fails, so the downloader sees it accept; when the scan
  stops early the rest of the downloads has no effect.
\<close>

definition scan_batches_with_pipeline :: "('c, 'k, 'i) sync_env \<Rightarrow> config \<Rightarrow> string \<Rightarrow> nat \<Rightarrow> scan_batch \<Rightarrow> nat \<Rightarrow> nat
    \<Rightarrow> ('c, int list \<times> int) sync" where
  "scan_batches_with_pipeline env cfg uivk tip_height first_batch final_height batch_size =
     andThen (lift_result (scanning_keys_from_uivk (se_zcash env) (network cfg) uivk)) (\<lambda>keys.
     andThen (lift_result (se_thread_pool env)) (\<lambda>_.
     case run_ordered_downloads first_batch final_height batch_size DOWNLOAD_CONCURRENCY (\<lambda>_. True) (fetched_batch env) of
       None \<Rightarrow> diverge
     | Some (downloader, received) \<Rightarrow>
         andThen (for_each (scan_downloaded env cfg keys tip_height) received ([], 0)) (\<lambda>scanned.
         andThen (lift_result downloader) (\<lambda>_. ret scanned))))"

section \<open>The mempool snapshot\<close>

definition may_revoke_missing :: "nat \<Rightarrow> ('c, nat) call \<Rightarrow> ('c, bool) sync" where
  "may_revoke_missing tip_height latest_block_height_fn s =
     (case on_link latest_block_height_fn s of
        (Inr latest, t) \<Rightarrow> (Inr (latest \<le> tip_height), t)
      | (Inl e, t) \<Rightarrow> (Inr False, t))"

definition reconcile_current_mempool_with :: "('c, 'k, 'i) sync_env \<Rightarrow> config \<Rightarrow> string \<Rightarrow> string \<Rightarrow> nat \<Rightarrow> bool
    \<Rightarrow> ('c, byte list list) call \<Rightarrow> ('c, nat) call \<Rightarrow> ('c, int list) sync" where
  "reconcile_current_mempool_with env cfg uivk url tip_height revoke_missing fetch_txids latest_height =
     andThen (on_link fetch_txids) (\<lambda>mempool_txids.
     let current_mempool_txids = bset_of (map wire_txid_to_display_hex mempool_txids) in
     andThen (on_app_db (reads active_mempool_txids)) (\<lambda>known_active_txids.
     let txids_to_fetch = filter (\<lambda>txid. wire_txid_to_display_hex txid \<notin> set known_active_txids) mempool_txids in
     andThen (on_link (fetch_raw_transactions_by_txids (se_lightwalletd env) url txids_to_fetch)) (\<lambda>raw_transactions.
     andThen (lift_result (scan_incoming_mempool_receipts_from_raw_transactions (se_zcash env) (se_scan env)
                             (network cfg) uivk tip_height raw_transactions)) (\<lambda>receipts.
     andThen (read_now env) (\<lambda>observed_at.
     andThen (on_app_db (attribute_scanned_receipts receipts tip_height (webhook_report_confirmations cfg) observed_at)) (\<lambda>attributed.
     andThen (if revoke_missing then may_revoke_missing tip_height latest_height else ret False) (\<lambda>revoke_missing.
     andThen (on_app_db (reconcile_mempool_snapshot (se_ext env) current_mempool_txids attributed observed_at (int tip_height)
                           (finality_confirmations cfg) (webhook_report_confirmations cfg) revoke_missing)) (\<lambda>rc.
     andThen (timed env (queue_webhook_deliveries_for_dirty_addresses (se_ext env) (rc_affected_address_ids rc))) (\<lambda>_.
     ret (rc_affected_address_ids rc))))))))))"

definition reconcile_current_mempool :: "('c, 'k, 'i) sync_env \<Rightarrow> config \<Rightarrow> string \<Rightarrow> string \<Rightarrow> nat \<Rightarrow> bool \<Rightarrow> ('c, int list) sync" where
  "reconcile_current_mempool env cfg uivk url tip_height revoke_missing =
     reconcile_current_mempool_with env cfg uivk url tip_height revoke_missing
       (fetch_current_mempool_txids (se_lightwalletd env) url) (latest_block_height (se_lightwalletd env) url)"

section \<open>One iteration\<close>

text \<open>What the rescan of a possible reorganisation found so far.\<close>

record reorg_account =
  ra_affected :: "int list"
  ra_inserted :: nat
  ra_revoked :: nat
  ra_reactivated :: nat
  ra_rewind_height :: "nat option"

definition no_reorg :: reorg_account where
  "no_reorg = \<lparr>ra_affected = [], ra_inserted = 0, ra_revoked = 0, ra_reactivated = 0, ra_rewind_height = None\<rparr>"

definition account_for :: "reconciliation \<Rightarrow> nat \<Rightarrow> reorg_account \<Rightarrow> reorg_account" where
  "account_for rc rewind_height ra =
     \<lparr>ra_affected = fold bset_insert (rc_affected_address_ids rc) (ra_affected ra),
      ra_inserted = ra_inserted ra + rc_inserted_receipt_count rc,
      ra_revoked = ra_revoked ra + rc_revoked_receipt_count rc,
      ra_reactivated = ra_reactivated ra + rc_reactivated_receipt_count rc,
      ra_rewind_height = Some (case ra_rewind_height ra of None \<Rightarrow> rewind_height | Some h \<Rightarrow> min h rewind_height)\<rparr>"

definition reorg_notes :: "nat \<Rightarrow> nat \<Rightarrow> reorg_account \<Rightarrow> nat \<Rightarrow> string" where
  "reorg_notes rewind_height tip_height ra queued =
     ''reconciled reorg from height '' @ show_nat rewind_height @ '' through tip '' @ show_nat tip_height @ '' with ''
     @ show_nat (ra_revoked ra) @ '' revoked, '' @ show_nat (ra_reactivated ra) @ '' reactivated, ''
     @ show_nat (ra_inserted ra) @ '' inserted receipts; queued '' @ show_nat queued @ '' webhook deliveries''"

definition clean_up_above_tip :: "('c, 'k, 'i) sync_env \<Rightarrow> config \<Rightarrow> service_metadata \<Rightarrow> nat \<Rightarrow> ('c, reorg_account) sync" where
  "clean_up_above_tip env cfg metadata tip_height =
     (if last_scanned_height metadata > int tip_height then
        andThen (timed env (revoke_mined_receipts_above_tip (int tip_height) (finality_confirmations cfg))) (\<lambda>cleanup.
        ret (account_for cleanup (sat_add_u32 tip_height 1) no_reorg))
      else ret no_reorg)"

text \<open>The rescan of the overlap; the second value is the addresses it touched.\<close>

definition rescan_overlap :: "(nat \<Rightarrow> scan_batch \<Rightarrow> ('c, reconciliation) sync) \<Rightarrow> nat \<Rightarrow> scan_batch option \<Rightarrow> reorg_account
    \<Rightarrow> ('c, reorg_account \<times> int list) sync" where
  "rescan_overlap reconcile_overlap tip_height overlap_batch ra =
     (case overlap_batch of
        None \<Rightarrow> ret (ra, [])
      | Some batch \<Rightarrow>
          andThen (reconcile_overlap tip_height batch) (\<lambda>rc.
          ret (account_for rc (sb_start_height batch) ra, rc_affected_address_ids rc)))"

definition record_reorg :: "('c, 'k, 'i) sync_env \<Rightarrow> int \<Rightarrow> nat \<Rightarrow> reorg_account \<Rightarrow> ('c, unit) sync" where
  "record_reorg env previous_tip_height tip_height ra =
     andThen (timed env (queue_webhook_deliveries_for_dirty_addresses (se_ext env) (ra_affected ra))) (\<lambda>queued.
     if previous_tip_height > int tip_height \<or> ra_revoked ra > 0 \<or> ra_reactivated ra > 0 then
       let rewind_height = (case ra_rewind_height ra of None \<Rightarrow> tip_height | Some h \<Rightarrow> h) in
       timed env (record_reorg_event previous_tip_height (int tip_height) (int rewind_height)
                    (int (length (ra_affected ra))) (reorg_notes rewind_height tip_height ra (length queued)))
     else ret ())"

definition mark_catching_up :: "('c, 'k, 'i) sync_env \<Rightarrow> service_metadata \<Rightarrow> nat \<Rightarrow> sync_scan_decision \<Rightarrow> ('c, unit) sync" where
  "mark_catching_up env metadata tip_height decision =
     (case (sp_should_mark_catching_up (sd_plan decision), sp_first_batch (sd_plan decision), sp_final_height (sd_plan decision)) of
        (True, Some first_batch, Some final_height) \<Rightarrow>
          andThen (timed env (record_sync_status STATE_CATCHING_UP
              (''chain tip is at '' @ show_nat tip_height @ ''; starting pipelined catch-up with compact blocks ''
               @ show_nat (sb_start_height first_batch) @ ''..='' @ show_nat (sb_end_height first_batch)
               @ '' and continuing through '' @ show_nat final_height)
              (int tip_height) (last_scanned_height metadata))) (\<lambda>_. ret ())
      | _ \<Rightarrow> ret ())"

definition scan_forward :: "(nat \<Rightarrow> scan_batch \<Rightarrow> nat \<Rightarrow> nat \<Rightarrow> ('c, int list \<times> int) sync) \<Rightarrow> service_metadata \<Rightarrow> nat
    \<Rightarrow> scan_range_plan \<Rightarrow> ('c, int list \<times> int) sync" where
  "scan_forward scan_batches metadata tip_height plan =
     (case (sp_first_batch plan, sp_final_height plan) of
        (Some first_batch, Some final_height) \<Rightarrow> scan_batches tip_height first_batch final_height (sp_batch_size plan)
      | _ \<Rightarrow> ret ([], int (min tip_height
               (case u32_try_from (max (last_scanned_height metadata) 0) of Some h \<Rightarrow> h | None \<Rightarrow> 0))))"

definition final_reason :: "int \<Rightarrow> nat \<Rightarrow> int list \<Rightarrow> nat \<Rightarrow> string" where
  "final_reason scanned tip_height touched matured_queued =
     ''wallet scan is caught up through block '' @ show_int scanned @ '' at tip '' @ show_nat tip_height @
     (if touched = [] then ''; no new issued-address receipts were observed''
      else ''; updated '' @ show_nat (length touched) @ '' issued addresses from observed or matured receipts and queued ''
           @ show_nat matured_queued @ '' maturity-driven webhook deliveries'')"

datatype sync_wake_strategy = PollFallback | WaitForNextBlock string nat

text \<open>\<^verbatim>\<open>sort_unstable\<close> and \<^verbatim>\<open>dedup\<close> of the affected addresses is \<open>bset_of\<close>.\<close>

definition sync_with_lightwalletd_with :: "('c, 'k, 'i) sync_env \<Rightarrow> config \<Rightarrow> wallet_identity \<Rightarrow> service_metadata \<Rightarrow> string
    \<Rightarrow> ('c, nat) call
    \<Rightarrow> (nat \<Rightarrow> scan_batch \<Rightarrow> ('c, reconciliation) sync)
    \<Rightarrow> (nat \<Rightarrow> scan_batch \<Rightarrow> nat \<Rightarrow> nat \<Rightarrow> ('c, int list \<times> int) sync)
    \<Rightarrow> (nat \<Rightarrow> bool \<Rightarrow> ('c, int list) sync) \<Rightarrow> ('c, sync_wake_strategy) sync" where
  "sync_with_lightwalletd_with env cfg identity metadata url latest_height reconcile_overlap scan_batches reconcile_mempool =
     andThen (on_link latest_height) (\<lambda>tip_height.
     let decision = build_sync_scan_decision (wi_birthday_height identity) (last_scanned_height metadata) tip_height
           (catch_up_threshold_blocks cfg) (catch_up_batch_size cfg) (finality_confirmations cfg) in
     andThen (clean_up_above_tip env cfg metadata tip_height) (\<lambda>cleaned.
     andThen (rescan_overlap reconcile_overlap tip_height (sd_overlap_batch decision) cleaned) (\<lambda>(ra, overlap_affected).
     andThen (record_reorg env (last_seen_tip_height metadata) tip_height ra) (\<lambda>_.
     andThen (mark_catching_up env metadata tip_height decision) (\<lambda>_.
     andThen (scan_forward scan_batches metadata tip_height (sd_plan decision)) (\<lambda>(forward_affected, scanned).
     andThen (timed env (advance_receipt_maturity (int tip_height) (webhook_report_confirmations cfg) (finality_confirmations cfg))) (\<lambda>matured.
     andThen (timed env (queue_webhook_deliveries_for_dirty_addresses (se_ext env) matured)) (\<lambda>matured_queued.
     andThen (if webhook_report_confirmations cfg = 0 then reconcile_mempool tip_height (scanned \<ge> int tip_height) else ret []) (\<lambda>mempool_affected.
     let touched = bset_of (overlap_affected @ forward_affected @ matured @ mempool_affected) in
     andThen (timed env (record_sync_status (if scanned \<ge> int tip_height then STATE_SYNCED else STATE_CATCHING_UP)
                (final_reason scanned tip_height touched (length matured_queued)) (int tip_height) scanned)) (\<lambda>_.
     ret (WaitForNextBlock url tip_height)))))))))))"

definition sync_with_lightwalletd :: "('c, 'k, 'i) sync_env \<Rightarrow> config \<Rightarrow> wallet_identity \<Rightarrow> service_metadata \<Rightarrow> string \<Rightarrow> string
    \<Rightarrow> ('c, sync_wake_strategy) sync" where
  "sync_with_lightwalletd env cfg identity metadata uivk url =
     sync_with_lightwalletd_with env cfg identity metadata url
       (latest_block_height (se_lightwalletd env) url)
       (\<lambda>tip_height overlap_batch. reconcile_overlap_batch env cfg uivk url tip_height overlap_batch)
       (\<lambda>tip_height first_batch final_height batch_size.
          scan_batches_with_pipeline env cfg uivk tip_height first_batch final_height batch_size)
       (\<lambda>tip_height revoke_missing. reconcile_current_mempool env cfg uivk url tip_height revoke_missing)"

text \<open>
  \<^verbatim>\<open>sync_once\<close>; other tasks run between its steps, not inside the two startup checks (\<open>\<lambda>d. d\<close> is
  their gap).
\<close>

definition sync_once :: "('c, 'k, 'i) sync_env \<Rightarrow> config \<Rightarrow> ('c, sync_wake_strategy) sync" where
  "sync_once env cfg =
     andThen (lift_result (se_wallet_db env)) (\<lambda>_.
     andThen (on_app_db initialize_schema) (\<lambda>_.
     andThen (timed env (ensure_wallet_identity (\<lambda>d. d) cfg (se_wallet_db_identity env))) (\<lambda>identity.
     andThen (on_app_db (ensure_service_metadata (\<lambda>d. d) cfg)) (\<lambda>metadata.
     let blocked = (\<lambda>state reason.
           andThen (timed env (record_sync_status state reason 0 0)) (\<lambda>_. ret PollFallback)) in
     case startup_uivk cfg of
       None \<Rightarrow> blocked STATE_BLOCKED_SCANNING_KEY_MATERIAL
         ''startup scanning key material is missing; provide ZCASH_UIVK so the service can construct scanner keys''
     | Some uivk \<Rightarrow>
         andThen (lift_result (scanning_keys_from_uivk (se_zcash env) (network cfg) uivk)) (\<lambda>_.
         case lightwalletd_url cfg of
           Some url \<Rightarrow> sync_with_lightwalletd env cfg identity metadata uivk url
         | None \<Rightarrow> blocked STATE_BLOCKED_LIGHTWALLETD_ENDPOINT
             ''scanner keys are ready, but LIGHTWALLETD_URL is missing so no chain scan can run'')))))"

section \<open>Waking up\<close>

text \<open>The loop of the wait: the block wait ends, or the interval ticks and the mempool is reconciled.\<close>

datatype wake_event = BlockWaitEnded "unit result" | IntervalTick

fun wait_with_reconciliation :: "('c, unit) sync \<Rightarrow> wake_event list \<Rightarrow> ('c, unit option) sync" where
  "wait_with_reconciliation reconcile [] = ret None"
| "wait_with_reconciliation reconcile (BlockWaitEnded r # events) = andThen (lift_result r) (\<lambda>_. ret (Some ()))"
| "wait_with_reconciliation reconcile (IntervalTick # events) =
     andThen reconcile (\<lambda>_. wait_with_reconciliation reconcile events)"

text \<open>
  \<^verbatim>\<open>wait_for_next_sync_trigger_with\<close>: its three waits are arguments. \<open>None\<close> is a wait that has not
  ended.
\<close>

definition wait_for_next_sync_trigger_with :: "config \<Rightarrow> sync_wake_strategy \<Rightarrow> ('c, unit option) sync
    \<Rightarrow> (string \<Rightarrow> nat \<Rightarrow> ('c, unit option) sync) \<Rightarrow> (string \<Rightarrow> nat \<Rightarrow> ('c, unit option) sync) \<Rightarrow> ('c, unit option) sync" where
  "wait_for_next_sync_trigger_with cfg wake sleep wait_for_block wait_with_periodic_reconciliation =
     (case wake of
        PollFallback \<Rightarrow> sleep
      | WaitForNextBlock url expected_tip_height \<Rightarrow>
          if webhook_report_confirmations cfg \<noteq> 0 then wait_for_block url expected_tip_height
          else if startup_uivk cfg = None then raise (InvalidConfig ''ZCASH_UIVK is required for mempool receipt reconciliation'')
          else wait_with_periodic_reconciliation url expected_tip_height)"

text \<open>The wait of the service: \<open>block_wait\<close> is what the wait for a block gives, \<open>events\<close> the race with the interval.\<close>

definition wait_for_next_sync_trigger :: "('c, 'k, 'i) sync_env \<Rightarrow> config \<Rightarrow> unit result option \<Rightarrow> wake_event list
    \<Rightarrow> sync_wake_strategy \<Rightarrow> ('c, unit option) sync" where
  "wait_for_next_sync_trigger env cfg block_wait events wake =
     wait_for_next_sync_trigger_with cfg wake (ret (Some ()))
       (\<lambda>url expected_tip_height. case block_wait of None \<Rightarrow> ret None | Some r \<Rightarrow> andThen (lift_result r) (\<lambda>_. ret (Some ())))
       (\<lambda>url expected_tip_height.
          case startup_uivk cfg of
            None \<Rightarrow> raise (InvalidConfig ''ZCASH_UIVK is required for mempool receipt reconciliation'')
          | Some uivk \<Rightarrow>
              andThen (on_app_db initialize_schema) (\<lambda>_.
              wait_with_reconciliation
                (andThen (reconcile_current_mempool env cfg uivk url expected_tip_height False) (\<lambda>_. ret ())) events))"

text \<open>
  One round of \<^verbatim>\<open>sync_loop\<close>: an iteration that fails is logged and the worker polls; a wait that fails
  falls back to sleeping. The value: whether the round ended, and whether it slept as a fallback.
\<close>

definition run_single_sync_loop_iteration_with :: "('c, sync_wake_strategy) sync \<Rightarrow> (sync_wake_strategy \<Rightarrow> ('c, unit option) sync)
    \<Rightarrow> 'c sync_state \<Rightarrow> (bool \<times> bool) \<times> 'c sync_state" where
  "run_single_sync_loop_iteration_with sync_once_fn wait_fn s =
     (let (r, t) = sync_once_fn s;
          wake = (case r of Inr strategy \<Rightarrow> strategy | Inl e \<Rightarrow> PollFallback) in
      case wait_fn wake t of
        (Inr (Some ()), u) \<Rightarrow> ((True, False), u)
      | (Inr None, u) \<Rightarrow> ((False, False), u)
      | (Inl e, u) \<Rightarrow> ((True, True), u))"

definition sync_round :: "('c, 'k, 'i) sync_env \<Rightarrow> config \<Rightarrow> unit result option \<Rightarrow> wake_event list
    \<Rightarrow> 'c sync_state \<Rightarrow> (bool \<times> bool) \<times> 'c sync_state" where
  "sync_round env cfg block_wait events =
     run_single_sync_loop_iteration_with (sync_once env cfg) (wait_for_next_sync_trigger env cfg block_wait events)"

end
