(* ===== verification/Other_Tasks.thy ===== *)
theory Other_Tasks
  imports Receipt_Ingest
begin

text \<open>
  What the other tasks may do while the chain is synchronised: issue addresses and links, claim deliveries and
  record their outcomes. They leave the receipts and the metadata alone, and receivers are only added.
\<close>

section \<open>Receivers are only added\<close>

definition more_receivers :: "receipt_row list \<Rightarrow> receiver_row list \<Rightarrow> app_db \<Rightarrow> bool" where
  "more_receivers R V db \<longleftrightarrow> db_receipts db = R \<and> (\<exists>new. db_receivers db = V @ new)"

lemma more_receivers_refl: "more_receivers (db_receipts db) (db_receivers db) db"
  by (simp add: more_receivers_def)

lemma more_receivers_trans:
  "more_receivers R V d \<Longrightarrow> more_receivers (db_receipts d) (db_receivers d) d' \<Longrightarrow> more_receivers R V d'"
  by (auto simp: more_receivers_def)

lemma find_append_Some: "find P xs = Some x \<Longrightarrow> find P (xs @ ys) = Some x"
  by (induction xs) auto

lemma receiver_owner_append: "receiver_owner V pool fp = Some a \<Longrightarrow> receiver_owner (V @ new) pool fp = Some a"
  by (auto simp: receiver_owner_def find_append_Some)

lemma paid_to_append: "paid_to payee V uid a \<Longrightarrow> paid_to payee (V @ new) uid a"
  by (simp add: paid_to_def receiver_owner_append)

lemma more_follow:
  assumes "receipts_follow payee db" "more_receivers (db_receipts db) (db_receivers db) db'"
  shows "receipts_follow payee db'"
  using assms by (auto simp: receipts_follow_def owned_def more_receivers_def list_all_iff paid_to_append)

lemma more_receivers_writes:
  assumes "\<And>db. db_receipts (f db) = db_receipts db" "\<And>db. db_receivers (f db) = db_receivers db"
  shows "keeps (more_receivers R V) (writes f)"
  by (rule keeps_writes) (simp add: more_receivers_def assms)

text \<open>An operation that leaves both tables alone.\<close>

lemma more_receivers_same:
  assumes "\<And>db r db'. m db = (r, db') \<Longrightarrow> db_receipts db' = db_receipts db \<and> db_receivers db' = db_receivers db"
  shows "keeps (more_receivers R V) m"
  unfolding keeps_def more_receivers_def using assms by metis

lemma more_receivers_insert: "keeps (more_receivers R V) (insert_receiver_row row u)"
  unfolding keeps_def more_receivers_def by (auto simp: insert_receiver_row_def split: if_splits)

lemma allocate_more: "keeps (more_receivers R V) (allocate_fresh_address prepare now)"
proof -
  have row: "keeps (more_receivers R V) (insert_issued_row now n)" for n
    by (rule more_receivers_same) (auto simp: insert_issued_row_def Let_def split: if_splits)
  have totals: "keeps (more_receivers R V) (insert_totals_row i now)" for i
    by (rule more_receivers_same) (auto simp: insert_totals_row_def split: if_splits)
  show ?thesis unfolding allocate_fresh_address_def
    by (intro keeps_tx keeps_intros keeps_for_each row totals more_receivers_insert)
qed

lemma link_more: "keeps (more_receivers R V) (insert_payment_link pid a url now)"
  by (rule more_receivers_same) (auto simp: insert_payment_link_def split: if_splits)

lemma queue_more: "keeps (more_receivers R V) (queue_webhook_deliveries_in_tx ext ids now)"
  by (rule queue_keeps) (simp_all add: more_receivers_def update_totals_def insert_delivery_def)

lemma queue_dirty_more: "keeps (more_receivers R V) (queue_webhook_deliveries_for_dirty_addresses ext ids now)"
  unfolding queue_webhook_deliveries_for_dirty_addresses_def by (intro keeps_if keeps_tx keeps_intros queue_more)

lemma queue_all_more: "keeps (more_receivers R V) (queue_all_dirty_webhook_deliveries ext now)"
  unfolding queue_all_dirty_webhook_deliveries_def by (intro keeps_intros queue_dirty_more)

lemma claim_more: "keeps (more_receivers R V) (claim_ready_webhook_delivery now)"
  by (rule more_receivers_same) (auto simp: claim_ready_webhook_delivery_def update_delivery_def split: option.splits)

lemma keeps_found: "(\<And>x. keeps P (f x)) \<Longrightarrow> keeps P (\<lambda>db. case g db of None \<Rightarrow> (Inl e, db) | Some x \<Rightarrow> f x db)"
  by (auto simp: keeps_def split: option.splits)

lemma attempt_more: "keeps (more_receivers R V) (insert_attempt i at st body err dur)"
  by (rule more_receivers_same) (auto simp: insert_attempt_def split: if_splits)

lemma delivery_more: "keeps (more_receivers R V) (writes (update_delivery i f))"
  by (rule more_receivers_writes) (simp_all add: update_delivery_def)

lemma outcome_more: "keeps (more_receivers R V) (record_outcome ext i at outcome)"
proof (cases outcome)
  case (Delivered status body dur now)
  have ack: "keeps (more_receivers R V) (writes (update_totals a h))" for a h
    by (rule more_receivers_writes) (simp_all add: update_totals_def)
  show ?thesis unfolding Delivered record_outcome.simps record_webhook_delivery_success_def
    by (intro keeps_tx keeps_found keeps_intros keeps_if attempt_more delivery_more ack queue_more)
qed (simp_all add: record_webhook_delivery_retry_def record_webhook_delivery_permanent_failure_def record_attempt_def
    keeps_tx keeps_intros attempt_more delivery_more)

section \<open>The steps of the other tasks\<close>

fun of_other_tasks :: "service_action \<Rightarrow> bool" where
  "of_other_tasks (Db (AllocateAddress prepare now)) = True"
| "of_other_tasks (Db (InsertLink pid a url now)) = True"
| "of_other_tasks (Claim now) = True"
| "of_other_tasks (Finish at outcome) = True"
| "of_other_tasks WorkerError = True"
| "of_other_tasks act = False"

lemma discard_keeps: "keeps P m \<Longrightarrow> keeps P (discard m)"
  unfolding discard_def by (intro keeps_intros)

lemma other_step_more:
  assumes "service_step ext act sv = Some sv'" "of_other_tasks act"
  shows "more_receivers (db_receipts (sv_db sv)) (db_receivers (sv_db sv)) (sv_db sv')"
  using assms
proof (cases rule: of_other_tasks.cases [of act])
  case (1 prepare now)
  with assms keeps_snd [OF discard_keeps [OF allocate_more] more_receivers_refl] show ?thesis by auto
next
  case (2 pid a url now)
  with assms keeps_snd [OF link_more more_receivers_refl] show ?thesis by auto
next
  case (3 now)
  obtain c db where c: "claim_ready_webhook_delivery now (sv_db sv) = (c, db)" by fastforce
  with assms 3 have "sv_db sv' = db" by (auto split: if_splits option.splits sum.splits)
  with keepsD [OF claim_more more_receivers_refl c] show ?thesis by simp
next
  case (4 at outcome)
  with assms keeps_snd [OF outcome_more more_receivers_refl] show ?thesis by (auto split: option.splits)
qed (auto simp: more_receivers_refl)

lemma other_run_more:
  "run_service ext acts sv = Some sv' \<Longrightarrow> list_all of_other_tasks acts \<Longrightarrow>
   more_receivers (db_receipts (sv_db sv)) (db_receivers (sv_db sv)) (sv_db sv')"
proof (induction acts arbitrary: sv)
  case Nil
  then show ?case by (simp add: more_receivers_refl)
next
  case (Cons act acts)
  then obtain t where t: "service_step ext act sv = Some t" "run_service ext acts t = Some sv'" by (auto simp: bind_eq_Some_conv)
  from Cons.prems(2) have "of_other_tasks act" "list_all of_other_tasks acts" by simp_all
  with other_step_more [OF t(1)] Cons.IH [OF t(2)] more_receivers_trans show ?case by blast
qed

text \<open>A turn of the other tasks: some of their steps, whatever the state they find.\<close>

definition other_task :: "externals \<Rightarrow> (service \<Rightarrow> service) \<Rightarrow> bool" where
  "other_task ext f \<longleftrightarrow> (\<forall>sv. \<exists>acts. list_all of_other_tasks acts \<and> run_service ext acts sv = Some (f sv))"

definition take_steps :: "externals \<Rightarrow> service_action list \<Rightarrow> service \<Rightarrow> service" where
  "take_steps ext acts sv = (case run_service ext acts sv of None \<Rightarrow> sv | Some t \<Rightarrow> t)"

lemma take_steps_other: "list_all of_other_tasks acts \<Longrightarrow> other_task ext (take_steps ext acts)"
  unfolding other_task_def take_steps_def
proof
  fix sv assume a: "list_all of_other_tasks acts"
  show "\<exists>us. list_all of_other_tasks us \<and> run_service ext us sv = Some (case run_service ext acts sv of None \<Rightarrow> sv | Some t \<Rightarrow> t)"
  proof (cases "run_service ext acts sv")
    case None
    then show ?thesis by (intro exI [of _ "[]"]) simp
  next
    case (Some t)
    with a show ?thesis by (intro exI [of _ acts]) simp
  qed
qed

lemma other_task_more:
  "other_task ext f \<Longrightarrow> more_receivers (db_receipts (sv_db sv)) (db_receivers (sv_db sv)) (sv_db (f sv))"
  unfolding other_task_def using other_run_more by blast

end
