(* ===== verification/Sync_Guarantees.thy ===== *)
theory Sync_Guarantees
  imports Sync_Runtime Webhook_Worker Other_Tasks
begin

text \<open>
  What the synchronisation promises, whatever the other tasks do between its transactions: the service moves by
  its steps only, every receipt stays with the address it pays, an iteration that ends without an error has scanned to the tip, and it revokes only what it may.
\<close>

section \<open>Runs of database steps\<close>

definition db_steps :: "externals \<Rightarrow> app_db \<Rightarrow> app_db \<Rightarrow> bool" where
  "db_steps ext d d' \<longleftrightarrow> (\<exists>acts. \<forall>held. run_service ext (map Db acts) \<lparr>sv_db = d, sv_held = held\<rparr>
     = Some \<lparr>sv_db = d', sv_held = held\<rparr>)"

lemma db_steps_refl: "db_steps ext d d"
  unfolding db_steps_def by (intro exI [of _ "[]"]) simp

lemma run_service_append:
  "run_service ext (xs @ ys) s = Option.bind (run_service ext xs s) (run_service ext ys)"
  by (induction xs arbitrary: s) (auto split: bind_splits)

lemma db_steps_trans: "db_steps ext d d1 \<Longrightarrow> db_steps ext d1 d2 \<Longrightarrow> db_steps ext d d2"
proof -
  assume "db_steps ext d d1" "db_steps ext d1 d2"
  then obtain xs ys where "\<forall>held. run_service ext (map Db xs) \<lparr>sv_db = d, sv_held = held\<rparr> = Some \<lparr>sv_db = d1, sv_held = held\<rparr>"
    "\<forall>held. run_service ext (map Db ys) \<lparr>sv_db = d1, sv_held = held\<rparr> = Some \<lparr>sv_db = d2, sv_held = held\<rparr>"
    unfolding db_steps_def by blast
  then show ?thesis unfolding db_steps_def by (intro exI [of _ "xs @ ys"]) (simp add: run_service_append)
qed

lemma db_steps_one: "action_ok d act \<Longrightarrow> db_steps ext d (snd (db_task ext act d))"
  unfolding db_steps_def by (intro exI [of _ "[act]"]) simp

text \<open>
  A program of the synchronisation refines the service when, whatever the other tasks do between its
  transactions, it moves the service by steps, and keeps every receipt with the receiver it pays. \<open>rcv\<close> are
  receivers known to exist; others may be added.
\<close>

definition follow :: "payee \<Rightarrow> receiver_row list \<Rightarrow> app_db \<Rightarrow> bool" where
  "follow payee rcv db \<longleftrightarrow> (\<exists>new. db_receivers db = rcv @ new) \<and> receipts_follow payee db"

definition sync_steps :: "externals \<Rightarrow> 'c sync_state \<Rightarrow> 'c sync_state \<Rightarrow> bool" where
  "sync_steps ext s t \<longleftrightarrow> (\<exists>acts. run_service ext acts (shared s) = Some (shared t))"

definition among_others :: "externals \<Rightarrow> 'c sync_state \<Rightarrow> bool" where
  "among_others ext s \<longleftrightarrow> list_all (other_task ext) (ss_others s)"

definition refines :: "externals \<Rightarrow> payee \<Rightarrow> receiver_row list \<Rightarrow> ('c, 'a) sync \<Rightarrow> bool" where
  "refines ext payee rcv m \<longleftrightarrow> (\<forall>s r t. follow payee rcv (ss_db s) \<longrightarrow> among_others ext s \<longrightarrow> m s = (r, t) \<longrightarrow>
     sync_steps ext s t \<and> follow payee rcv (ss_db t) \<and> among_others ext t)"

named_theorems refines_intros \<open>programs that refine the service\<close>

lemma refinesI:
  "(\<And>s r t. follow payee rcv (ss_db s) \<Longrightarrow> among_others ext s \<Longrightarrow> m s = (r, t) \<Longrightarrow>
      sync_steps ext s t \<and> follow payee rcv (ss_db t) \<and> among_others ext t) \<Longrightarrow>
   refines ext payee rcv m"
  unfolding refines_def by blast

lemma refinesD: "refines ext payee rcv m \<Longrightarrow> follow payee rcv (ss_db s) \<Longrightarrow> among_others ext s \<Longrightarrow> m s = (r, t) \<Longrightarrow>
   sync_steps ext s t \<and> follow payee rcv (ss_db t) \<and> among_others ext t"
  unfolding refines_def by blast

lemma shared_update [simp]:
  "shared (s\<lparr>ss_reads := n\<rparr>) = shared s" "shared (s\<lparr>ss_link := l\<rparr>) = shared s" "shared (s\<lparr>ss_diverged := b\<rparr>) = shared s"
  "turn (s\<lparr>ss_reads := n\<rparr>) = turn s" "turn (s\<lparr>ss_link := l\<rparr>) = turn s" "turn (s\<lparr>ss_diverged := b\<rparr>) = turn s"
  by (simp_all add: shared_def turn_def split: list.split)

lemma sync_steps_same: "shared t = shared s \<Longrightarrow> sync_steps ext s t"
  unfolding sync_steps_def by (intro exI [of _ "[]"]) simp

lemma sync_steps_trans: "sync_steps ext s t \<Longrightarrow> sync_steps ext t u \<Longrightarrow> sync_steps ext s u"
proof -
  assume "sync_steps ext s t" "sync_steps ext t u"
  then obtain xs ys where "run_service ext xs (shared s) = Some (shared t)" "run_service ext ys (shared t) = Some (shared u)"
    unfolding sync_steps_def by blast
  then show ?thesis unfolding sync_steps_def by (intro exI [of _ "xs @ ys"]) (simp add: run_service_append)
qed

text \<open>Receivers that were added do no harm.\<close>

lemma follow_more:
  assumes "follow payee rcv db" "more_receivers (db_receipts db) (db_receivers db) db'"
  shows "follow payee rcv db'"
  using assms more_follow [of payee db db'] by (auto simp: follow_def more_receivers_def)

lemma follow_prefix: "follow payee (rcv @ new) db \<Longrightarrow> follow payee rcv db"
  by (auto simp: follow_def)

text \<open>The turn of the other tasks before a transaction.\<close>

lemma turn_more:
  assumes "among_others ext s"
  shows "(\<exists>acts. run_service ext acts (shared s) = Some (turn s))
    \<and> more_receivers (db_receipts (ss_db s)) (db_receivers (ss_db s)) (sv_db (turn s))"
proof (cases "ss_others s")
  case Nil
  then show ?thesis by (auto intro: exI [of _ "[]"] simp: turn_def shared_def more_receivers_refl)
next
  case (Cons f fs)
  with assms have f: "other_task ext f" by (simp add: among_others_def)
  then have "\<exists>acts. run_service ext acts (shared s) = Some (f (shared s))" by (auto simp: other_task_def)
  moreover have "more_receivers (db_receipts (ss_db s)) (db_receivers (ss_db s)) (sv_db (f (shared s)))"
    using other_task_more [OF f, of "shared s"] by (simp add: shared_def)
  ultimately show ?thesis using Cons by (simp add: turn_def)
qed

lemma turn_receipts: "among_others ext s \<Longrightarrow> db_receipts (sv_db (turn s)) = db_receipts (ss_db s)"
  using turn_more by (auto simp: more_receivers_def)

lemma turn_follow: "among_others ext s \<Longrightarrow> follow payee rcv (ss_db s) \<Longrightarrow> follow payee rcv (sv_db (turn s))"
  using turn_more follow_more by blast

lemma among_others_tl: "among_others ext s \<Longrightarrow> ss_others t = tl (ss_others s) \<Longrightarrow> among_others ext t"
  by (cases "ss_others s") (simp_all add: among_others_def)

lemma on_app_db_run: "on_app_db m s = (r, t) \<longleftrightarrow> (\<exists>db. m (sv_db (turn s)) = (r, db)
    \<and> t = s\<lparr>ss_db := db, ss_held := sv_held (turn s), ss_others := tl (ss_others s)\<rparr>)"
  by (cases "m (sv_db (turn s))") (auto simp: on_app_db_def Let_def)

text \<open>An operation on the database that is a run of steps and keeps what is followed.\<close>

lemma refines_database:
  assumes "\<And>db r db'. follow payee rcv db \<Longrightarrow> m db = (r, db') \<Longrightarrow> db_steps ext db db' \<and> follow payee rcv db'"
  shows "refines ext payee rcv (on_app_db m)"
proof (rule refinesI)
  fix s r t
  assume s: "follow payee rcv (ss_db s)" "among_others ext s" and run: "on_app_db m s = (r, t)"
  from turn_more [OF s(2)] obtain acts where acts: "run_service ext acts (shared s) = Some (turn s)" by blast
  from run obtain db where db: "m (sv_db (turn s)) = (r, db)"
    "t = s\<lparr>ss_db := db, ss_held := sv_held (turn s), ss_others := tl (ss_others s)\<rparr>" by (auto simp: on_app_db_run)
  from assms [OF turn_follow [OF s(2,1)] db(1)] obtain us where us: "run_service ext (map Db us) (turn s) = Some (shared t)" and t: "follow payee rcv db"
    unfolding db_steps_def by (cases "turn s") (auto simp: db(2) shared_def)
  have "run_service ext (acts @ map Db us) (shared s) = Some (shared t)" using acts us by (simp add: run_service_append)
  moreover have "among_others ext t" using s(2) by (rule among_others_tl) (simp add: db(2))
  ultimately show "sync_steps ext s t \<and> follow payee rcv (ss_db t) \<and> among_others ext t"
    using t unfolding sync_steps_def by (auto simp: db(2))
qed

lemma refines_same:
  assumes "\<And>s r t. m s = (r, t) \<Longrightarrow> shared t = shared s \<and> ss_others t = ss_others s"
  shows "refines ext payee rcv m"
proof (rule refinesI)
  fix s r t
  assume s: "follow payee rcv (ss_db s)" "among_others ext s" and run: "m s = (r, t)"
  from assms [OF run] s show "sync_steps ext s t \<and> follow payee rcv (ss_db t) \<and> among_others ext t"
    by (auto simp: among_others_def shared_def intro: sync_steps_same)
qed

lemma refines_reads: "refines ext payee rcv (on_app_db (reads f))"
  by (rule refines_database) (auto simp: reads_def db_steps_refl)

lemma refines_silent:
  "refines ext payee rcv (ret x)" "refines ext payee rcv (raise e)" "refines ext payee rcv (lift_result r)"
  "refines ext payee rcv (read_now env)" "refines ext payee rcv diverge" "refines ext payee rcv (on_link c)"
  by (rule refines_same; auto simp: read_now_def diverge_def on_link_def split: prod.splits)+

lemmas refines_basic [refines_intros] = refines_silent refines_reads

lemma refines_andThen [refines_intros]:
  assumes "refines ext payee rcv m" "\<And>x. refines ext payee rcv (f x)"
  shows "refines ext payee rcv (andThen m f)"
proof (rule refinesI)
  fix s r t
  assume s: "follow payee rcv (ss_db s)" "among_others ext s" and run: "andThen m f s = (r, t)"
  obtain q u where q: "m s = (q, u)" by (cases "m s")
  note u = refinesD [OF assms(1) s q]
  show "sync_steps ext s t \<and> follow payee rcv (ss_db t) \<and> among_others ext t"
  proof (cases q)
    case (Inl e)
    with run q u show ?thesis by (simp add: andThen_def)
  next
    case (Inr x)
    with run q have "f x u = (r, t)" by (simp add: andThen_def)
    with refinesD [OF assms(2)] u have "sync_steps ext u t \<and> follow payee rcv (ss_db t) \<and> among_others ext t" by blast
    with u show ?thesis by (blast intro: sync_steps_trans)
  qed
qed

lemma refines_for_each [refines_intros]:
  "(\<And>x acc. x \<in> set xs \<Longrightarrow> refines ext payee rcv (body x acc)) \<Longrightarrow> refines ext payee rcv (for_each body xs acc)"
  by (induction xs arbitrary: acc) (auto intro: refines_intros)

lemma refines_split [refines_intros]:
  "(\<And>x y. p = (x, y) \<Longrightarrow> refines ext payee rcv (f x y)) \<Longrightarrow> refines ext payee rcv (case p of (x, y) \<Rightarrow> f x y)"
  by (cases p) simp

lemma refines_if [refines_intros]:
  "(c \<Longrightarrow> refines ext payee rcv a) \<Longrightarrow> (\<not> c \<Longrightarrow> refines ext payee rcv b) \<Longrightarrow> refines ext payee rcv (if c then a else b)"
  by simp

text \<open>A database operation that is a task of the service.\<close>

lemma refines_task:
  assumes task: "\<And>db. snd (db_task ext act db) = snd (m db)"
    and act: "\<And>db. follow payee rcv db \<Longrightarrow> action_ok db act"
    and keep: "\<And>db r db'. follow payee rcv db \<Longrightarrow> m db = (r, db') \<Longrightarrow> follow payee rcv db'"
  shows "refines ext payee rcv (on_app_db m)"
proof (rule refines_database)
  fix db r db'
  assume db: "follow payee rcv db" and run: "m db = (r, db')"
  with db_steps_one [OF act [OF db], of ext] task [of db] keep [OF db run]
  show "db_steps ext db db' \<and> follow payee rcv db'" by simp
qed

lemma snd_discard: "snd (discard m db) = snd (m db)"
  by (auto simp: discard_def andThen_def ret_def split: prod.splits sum.splits)

lemma follow_owned:
  assumes "\<And>new. db_receivers db = rcv @ new \<Longrightarrow>
      keeps (owned (db_issued_addresses db) (rcv @ new) (paid_to payee (rcv @ new))) m"
    and "follow payee rcv db" "m db = (r, db')"
  shows "follow payee rcv db'"
proof -
  from assms(2) obtain new where new: "db_receivers db = rcv @ new" by (auto simp: follow_def)
  have "owned (db_issued_addresses db) (rcv @ new) (paid_to payee (rcv @ new)) db"
    using assms(2) new by (auto simp: follow_def receipts_follow_def)
  from keepsD [OF assms(1) [OF new] this assms(3)] show ?thesis
    by (simp add: follow_def receipts_follow_def owned_def)
qed

lemma follow_tables':
  assumes "follow payee rcv db" "db_issued_addresses db' = db_issued_addresses db" "db_receivers db' = db_receivers db"
    "db_receipts db' = db_receipts db"
  shows "follow payee rcv db'"
  using assms follow_tables [of db' db payee] by (simp add: follow_def)

lemma refines_timed:
  fixes env :: "('c, 'k, 'i) sync_env"
  shows "(\<And>now. refines ext payee rcv (on_app_db (m now) :: ('c, 'a) sync)) \<Longrightarrow> refines ext payee rcv (timed env m)"
  unfolding timed_def by (intro refines_intros)

lemma refines_advance [refines_intros]: "refines ext payee rcv (timed env (advance_receipt_maturity tip reports fin))"
proof (rule refines_timed, rule refines_task [where act = "AdvanceMaturity tip reports fin now" for now])
  fix now db r db'
  assume "follow payee rcv db" "advance_receipt_maturity tip reports fin now db = (r, db')"
  then show "follow payee rcv db'" by (rule follow_owned [OF owned_advance])
qed (simp_all add: snd_discard)

lemma refines_above_tip [refines_intros]: "refines ext payee rcv (timed env (revoke_mined_receipts_above_tip tip fin))"
proof (rule refines_timed, rule refines_task [where act = "RevokeAboveTip tip fin now" for now])
  fix now db r db'
  assume "follow payee rcv db" "revoke_mined_receipts_above_tip tip fin now db = (r, db')"
  then show "follow payee rcv db'" by (rule follow_owned [OF owned_above_tip])
qed (simp_all add: snd_discard)

lemma refines_queue [refines_intros]: "refines ext payee rcv (timed env (queue_webhook_deliveries_for_dirty_addresses ext ids))"
proof (rule refines_timed, rule refines_task [where act = "QueueDirty ids now" for now])
  fix now db r db'
  assume f: "follow payee rcv db" and run: "queue_webhook_deliveries_for_dirty_addresses ext ids now db = (r, db')"
  from queue_dirty_run [OF run] show "follow payee rcv db'"
  proof
    assume "db' = db"
    with f show ?thesis by simp
  next
    assume "\<exists>q. r = Inr q \<and> queue_webhook_deliveries_in_tx ext ids now db = (Inr q, db')"
    then obtain q where "queue_webhook_deliveries_in_tx ext ids now db = (Inr q, db')" by blast
    with f show ?thesis by (rule follow_owned [OF owned_queue])
  qed
qed (simp_all add: snd_discard)

lemma refines_record_sync [refines_intros]:
  "refines ext payee rcv (timed env (record_sync_status st reason tip scanned))"
proof (rule refines_timed, rule refines_task [where act = "RecordSync st reason tip scanned now" for now])
  fix now db r db'
  assume "follow payee rcv db" "record_sync_status st reason tip scanned now db = (r, db')"
  then show "follow payee rcv db'"
    by (auto intro: follow_tables' simp: record_sync_status_def in_tx_def Let_def split: option.splits if_splits)
qed (simp_all add: snd_discard)

lemma refines_record_reorg [refines_intros]:
  "refines ext payee rcv (timed env (record_reorg_event a b c d e))"
proof (rule refines_timed, rule refines_task [where act = "RecordReorg a b c d e now" for now])
  fix now db r db'
  assume "follow payee rcv db" "record_reorg_event a b c d e now db = (r, db')"
  then show "follow payee rcv db'"
    by (auto intro: follow_tables' simp: record_reorg_event_def in_tx_def split: option.splits)
qed simp_all

text \<open>Receipts attributed once stay good for the operations that follow, also when receivers have been added since.\<close>

definition good_receipts :: "payee \<Rightarrow> receiver_row list \<Rightarrow> attributed_receipt list \<Rightarrow> bool" where
  "good_receipts payee rcv rs \<longleftrightarrow> (\<forall>db. follow payee rcv db \<longrightarrow> uids_agree rs (db_receipts db))
     \<and> (\<forall>issued new. admits issued (paid_to payee (rcv @ new)) rs)"

lemma attributed_owner:
  assumes "attribute_scanned_receipts rs tip reports at db = (Inr attributed, db')" "follows_chain payee rs" "a \<in> set attributed"
  obtains pool fp where "payee (sr_receipt_uid a) = Some (pool, fp)" "receiver_owner (db_receivers db) pool fp = Some (sr_address_id a)"
proof -
  from attribute_scanned_run [OF assms(1)] assms(3) obtain r where r: "r \<in> set rs" "known db r \<noteq> None"
    "a = attributed_as db tip reports at r" by auto
  from assms(2) r have "payee (sr_receipt_uid a) = Some (ir_pool r, ir_receiver_fingerprint r)"
    by (auto simp: follows_chain_def list_all_iff attributed_as_def)
  moreover have "receiver_owner (db_receivers db) (ir_pool r) (ir_receiver_fingerprint r) = Some (sr_address_id a)"
    using r by (auto simp: known_def find_by_receiver_owner attributed_as_def)
  ultimately show thesis by (rule that)
qed

lemma attributed_good:
  assumes "attribute_scanned_receipts rs tip reports at db = (Inr attributed, db')" "follows_chain payee rs"
  shows "good_receipts payee (db_receivers db) attributed"
  unfolding good_receipts_def
proof (intro conjI allI impI)
  fix d assume d: "follow payee (db_receivers db) d"
  then obtain new where new: "db_receivers d = db_receivers db @ new" by (auto simp: follow_def)
  show "uids_agree attributed (db_receipts d)"
    unfolding uids_agree_def list_all_iff
  proof (intro ballI impI)
    fix a row assume a: "a \<in> set attributed" and row: "row \<in> set (db_receipts d)" "rr_receipt_uid row = sr_receipt_uid a"
    obtain pool fp where p: "payee (sr_receipt_uid a) = Some (pool, fp)" "receiver_owner (db_receivers db) pool fp = Some (sr_address_id a)"
      using attributed_owner [OF assms a] by metis
    have "paid_to payee (db_receivers d) (rr_receipt_uid row) (rr_address_id row)"
      using d row(1) by (auto simp: follow_def receipts_follow_def owned_def list_all_iff)
    with p row(2) have "receiver_owner (db_receivers d) pool fp = Some (rr_address_id row)" by (simp add: paid_to_def)
    with receiver_owner_append [OF p(2), of new] show "rr_address_id row = sr_address_id a" by (simp add: new)
  qed
next
  fix issued new
  show "admits issued (paid_to payee (db_receivers db @ new)) attributed"
    unfolding admits_def
  proof (intro ballI impI)
    fix a assume a: "a \<in> set attributed"
    obtain pool fp where "payee (sr_receipt_uid a) = Some (pool, fp)" "receiver_owner (db_receivers db) pool fp = Some (sr_address_id a)"
      using attributed_owner [OF assms a] by metis
    then show "paid_to payee (db_receivers db @ new) (sr_receipt_uid a) (sr_address_id a)"
      by (simp add: paid_to_def receiver_owner_append)
  qed
qed

lemma attribute_state: "attribute_scanned_receipts rs tip reports at db = (r, db') \<Longrightarrow> db' = db"
  by (auto simp: attribute_scanned_receipts_def)

lemma refines_attribute [refines_intros]:
  assumes "follows_chain payee rs"
    and "\<And>new attributed. good_receipts payee (rcv @ new) attributed \<Longrightarrow> refines ext payee (rcv @ new) (f attributed)"
  shows "refines ext payee rcv (andThen (on_app_db (attribute_scanned_receipts rs tip reports at)) f)"
proof (rule refinesI)
  fix s r t
  assume s: "follow payee rcv (ss_db s)" "among_others ext s"
    and run: "andThen (on_app_db (attribute_scanned_receipts rs tip reports at)) f s = (r, t)"
  obtain q u where q: "on_app_db (attribute_scanned_receipts rs tip reports at) s = (q, u)" by fastforce
  have "refines ext payee rcv (on_app_db (attribute_scanned_receipts rs tip reports at))"
    by (rule refines_database) (auto dest: attribute_state intro: db_steps_refl)
  note u = refinesD [OF this s q]
  show "sync_steps ext s t \<and> follow payee rcv (ss_db t) \<and> among_others ext t"
  proof (cases q)
    case (Inl e)
    with run q u show ?thesis by (simp add: andThen_def)
  next
    case (Inr attributed)
    with q have here: "attribute_scanned_receipts rs tip reports at (ss_db u) = (Inr attributed, ss_db u)"
      using attribute_state by (fastforce simp: on_app_db_run)
    from u obtain new where new: "db_receivers (ss_db u) = rcv @ new" by (auto simp: follow_def)
    have "refines ext payee (rcv @ new) (f attributed)"
      by (rule assms(2)) (use attributed_good [OF here assms(1)] new in simp)
    moreover have "follow payee (rcv @ new) (ss_db u)" using u new by (simp add: follow_def)
    moreover have "f attributed u = (r, t)" using run q Inr by (simp add: andThen_def)
    ultimately have "sync_steps ext u t \<and> follow payee (rcv @ new) (ss_db t) \<and> among_others ext t" using u refinesD by blast
    with u show ?thesis by (blast intro: sync_steps_trans follow_prefix)
  qed
qed

lemma refines_reconcile:
  assumes "good_receipts payee rcv rs"
  shows "refines ext payee rcv (timed env (reconcile_attributed_receipts_in_range rs lo hi tip fin))"
proof (rule refines_timed, rule refines_task [where act = "ReconcileRange rs lo hi tip fin now" for now])
  fix now db r db'
  assume f: "follow payee rcv db" and run: "reconcile_attributed_receipts_in_range rs lo hi tip fin now db = (r, db')"
  have "admits issued (paid_to payee (rcv @ new)) rs" for issued new using assms by (simp add: good_receipts_def)
  from follow_owned [OF owned_reconcile [OF this] f run] show "follow payee rcv db'" .
qed (use assms in \<open>simp_all add: snd_discard good_receipts_def\<close>)

lemma refines_mempool:
  assumes "good_receipts payee rcv rs"
  shows "refines ext payee rcv (on_app_db (reconcile_mempool_snapshot ext txids rs now tip fin reports miss))"
proof (rule refines_task [where act = "ReconcileMempool txids rs now tip fin reports miss"])
  fix db r db'
  assume f: "follow payee rcv db" and run: "reconcile_mempool_snapshot ext txids rs now tip fin reports miss db = (r, db')"
  have "admits issued (paid_to payee (rcv @ new)) rs" for issued new using assms by (simp add: good_receipts_def)
  from follow_owned [OF owned_mempool [OF this] f run] show "follow payee rcv db'" .
qed (use assms in \<open>simp_all add: snd_discard good_receipts_def\<close>)

section \<open>The synchronisation refines the service\<close>

text \<open>
  What is assumed of the libraries: an output is always found paying the same receiver, which
  \<open>payee\<close> gives for its uid.
\<close>

definition scans_follow :: "('c, 'k, 'i) sync_env \<Rightarrow> payee \<Rightarrow> bool" where
  "scans_follow env payee \<longleftrightarrow>
     (\<forall>name keys blocks batch. scan_compact_blocks_in_pool (se_scan env) name keys blocks = Inr batch \<longrightarrow>
        follows_chain payee (fst batch))
     \<and> (\<forall>name uivk tip raws rs. scan_incoming_mempool_receipts_from_raw_transactions (se_zcash env) (se_scan env) name uivk tip raws = Inr rs
        \<longrightarrow> follows_chain payee rs)"

lemma refines_lift:
  "(\<And>x. r = Inr x \<Longrightarrow> refines ext payee rcv (f x)) \<Longrightarrow> refines ext payee rcv (andThen (lift_result r) f)"
proof (cases r)
  case (Inl e)
  then show ?thesis by (intro refines_same) (simp add: andThen_def lift_result_def)
next
  case (Inr x)
  have "andThen (lift_result r) f = f x" by (simp add: fun_eq_iff andThen_def lift_result_def Inr)
  with Inr show "(\<And>x. r = Inr x \<Longrightarrow> refines ext payee rcv (f x)) \<Longrightarrow> refines ext payee rcv (andThen (lift_result r) f)" by simp
qed

lemma refines_reconcile_blocks:
  assumes "scans_follow env payee"
  shows "refines ext payee rcv (reconcile_blocks env cfg keys tip batch blocks)"
  unfolding reconcile_blocks_def
proof (rule refines_lift)
  fix scanned
  assume "scan_compact_blocks_in_pool (se_scan env) (network cfg) keys blocks = Inr scanned"
  with assms have "follows_chain payee (fst scanned)" unfolding scans_follow_def by blast
  then show "refines ext payee rcv (andThen (read_now env) (\<lambda>observed_at.
     andThen (on_app_db (attribute_scanned_receipts (fst scanned) tip (webhook_report_confirmations cfg) observed_at)) (\<lambda>attributed.
     timed env (reconcile_attributed_receipts_in_range attributed (int (sb_start_height batch)) (int (sb_end_height batch))
                  (int tip) (finality_confirmations cfg)))))"
    by (intro refines_andThen refines_basic refines_attribute refines_reconcile)
qed

lemma refines_overlap:
  assumes "scans_follow env payee"
  shows "refines ext payee rcv (reconcile_overlap_batch env cfg uivk url tip batch)"
  unfolding reconcile_overlap_batch_def
  by (intro refines_andThen refines_basic refines_reconcile_blocks [OF assms])

lemma refines_scan_downloaded:
  assumes "scans_follow env payee"
  shows "refines (se_ext env) payee rcv (scan_downloaded env cfg keys tip r acc)"
  unfolding scan_downloaded_def Let_def
  by (intro refines_andThen refines_split refines_basic refines_queue refines_record_sync refines_reconcile_blocks [OF assms])

lemma refines_pipeline:
  assumes "scans_follow env payee"
  shows "refines (se_ext env) payee rcv (scan_batches_with_pipeline env cfg uivk tip first final step)"
  unfolding scan_batches_with_pipeline_def
proof (intro refines_andThen refines_basic)
  fix keys
  show "refines (se_ext env) payee rcv
     (case run_ordered_downloads first final step DOWNLOAD_CONCURRENCY (\<lambda>_. True) (fetched_batch env) of
       None \<Rightarrow> diverge
     | Some (downloader, received) \<Rightarrow>
         andThen (for_each (scan_downloaded env cfg keys tip) received ([], 0)) (\<lambda>scanned.
         andThen (lift_result downloader) (\<lambda>_. ret scanned)))"
    by (cases "run_ordered_downloads first final step DOWNLOAD_CONCURRENCY (\<lambda>_. True) (fetched_batch env)")
      (auto intro!: refines_andThen refines_basic refines_for_each refines_scan_downloaded [OF assms])
qed

lemma refines_mempool_snapshot:
  assumes "scans_follow env payee"
  shows "refines (se_ext env) payee rcv (reconcile_current_mempool_with env cfg uivk url tip miss fetch latest)"
  unfolding reconcile_current_mempool_with_def Let_def
proof (rule refines_andThen, rule refines_basic, rule refines_andThen, rule refines_basic,
    rule refines_andThen, rule refines_basic, rule refines_lift)
  fix mempool known raws receipts
  assume "scan_incoming_mempool_receipts_from_raw_transactions (se_zcash env) (se_scan env) (network cfg) uivk tip raws = Inr receipts"
  with assms have chain: "follows_chain payee receipts" unfolding scans_follow_def by blast
  have recheck: "refines (se_ext env) payee rcv (may_revoke_missing tip latest)" for rcv
    by (rule refines_same) (auto simp: may_revoke_missing_def on_link_def split: prod.splits sum.splits)
  show "refines (se_ext env) payee rcv (andThen (read_now env) (\<lambda>observed_at.
     andThen (on_app_db (attribute_scanned_receipts receipts tip (webhook_report_confirmations cfg) observed_at)) (\<lambda>attributed.
     andThen (if miss then may_revoke_missing tip latest else ret False) (\<lambda>miss.
     andThen (on_app_db (reconcile_mempool_snapshot (se_ext env) (bset_of (map wire_txid_to_display_hex mempool)) attributed observed_at (int tip)
                           (finality_confirmations cfg) (webhook_report_confirmations cfg) miss)) (\<lambda>rc.
     andThen (timed env (queue_webhook_deliveries_for_dirty_addresses (se_ext env) (rc_affected_address_ids rc))) (\<lambda>_.
     ret (rc_affected_address_ids rc)))))))"
    by (rule refines_andThen [OF refines_silent(4)], rule refines_attribute [OF chain])
      (intro refines_andThen refines_basic refines_mempool refines_queue refines_if recheck; assumption)
qed

lemma refines_iteration:
  assumes "scans_follow env payee"
  shows "refines (se_ext env) payee rcv (sync_with_lightwalletd env cfg identity metadata uivk url)"
proof -
  have "refines (se_ext env) payee rcv (clean_up_above_tip env cfg metadata tip)" for tip
    unfolding clean_up_above_tip_def by (intro refines_if refines_andThen refines_above_tip refines_basic)
  moreover have "refines (se_ext env) payee rcv (rescan_overlap (reconcile_overlap_batch env cfg uivk url) tip ob ra)" for tip ob ra
    unfolding rescan_overlap_def
    by (cases ob) (auto intro!: refines_andThen refines_basic refines_overlap [OF assms])
  moreover have "refines (se_ext env) payee rcv (record_reorg env prev tip ra)" for prev tip ra
    unfolding record_reorg_def Let_def by (intro refines_andThen refines_queue refines_if refines_record_reorg refines_basic)
  moreover have "refines (se_ext env) payee rcv (mark_catching_up env metadata tip d)" for tip d
    unfolding mark_catching_up_def
    by (auto intro!: refines_andThen refines_record_sync refines_basic split: prod.splits bool.splits option.splits)
  moreover have "refines (se_ext env) payee rcv (scan_forward (scan_batches_with_pipeline env cfg uivk) metadata tip plan)" for tip plan
    unfolding scan_forward_def
    by (auto intro!: refines_basic refines_pipeline [OF assms] split: prod.splits option.splits)
  moreover have "refines (se_ext env) payee rcv (reconcile_current_mempool env cfg uivk url tip miss)" for tip miss
    unfolding reconcile_current_mempool_def by (rule refines_mempool_snapshot [OF assms])
  ultimately show ?thesis
    unfolding sync_with_lightwalletd_def sync_with_lightwalletd_with_def Let_def
    by (intro refines_andThen refines_split refines_basic refines_if refines_advance refines_queue refines_record_sync) assumption+
qed

section \<open>A finished iteration has scanned to the tip\<close>

lemma last_batch_end:
  "final \<le> u32_max \<Longrightarrow> n \<le> final \<Longrightarrow> batches_from final step n \<noteq> [] \<and> sb_end_height (last (batches_from final step n)) = final"
proof (induction final step n rule: batches_from.induct)
  case (1 final step n)
  then obtain b where b: "next_scan_batch n final step = Some b" using next_scan_batch_None by fastforce
  note facts = next_scan_batch_Some [OF b "1.prems"(1)]
  have e: "batches_from final step n = b # batches_from final step (Suc (sb_end_height b))"
    using "1.prems" b by (simp add: batches_from_step)
  show ?case
  proof (cases "sb_end_height b = final")
    case True
    with e show ?thesis by (simp add: batches_from_end)
  next
    case False
    with "1.IH" [OF _ b "1.prems"(1)] facts "1.prems"(1) e show ?thesis by simp
  qed
qed

lemma planned_last_end:
  assumes "sb_end_height first \<le> final" "final \<le> u32_max"
  shows "sb_end_height (last (first # batches_from final step (Suc (sb_end_height first)))) = final"
proof (cases "sb_end_height first = final")
  case True
  then show ?thesis by (simp add: batches_from_end)
next
  case False
  with assms last_batch_end [of final "Suc (sb_end_height first)" step] show ?thesis by simp
qed

text \<open>When every result received was a success, every batch was received.\<close>

lemma downloads_complete:
  assumes "downloads_in_order (fetched_batch env) (\<lambda>_. True) bs sent = (Inr (), received)"
    and "\<And>e. Inl e \<notin> set received"
  shows "\<exists>blocks. received = sent @ map (\<lambda>(b, bl). Inr (b, bl)) (zip bs blocks) \<and> length blocks = length bs"
  using assms
proof (induction bs arbitrary: sent)
  case Nil
  then show ?case by auto
next
  case (Cons b bs)
  show ?case
  proof (cases "se_fetch_batch env b")
    case (JoinFailed e)
    with Cons.prems(1) show ?thesis by (simp add: fetched_batch_def)
  next
    case (Finished r)
    show ?thesis
    proof (cases r)
      case (Inl e)
      with Cons.prems(1) Finished have "received = sent @ [Inl e]" by (simp add: fetched_batch_def)
      with Cons.prems(2) [of e] show ?thesis by simp
    next
      case (Inr bl)
      with Finished have "fetched_batch env b = Finished (Inr (b, bl))" by (simp add: fetched_batch_def)
      with Cons.prems(1) have
        "downloads_in_order (fetched_batch env) (\<lambda>_. True) bs (sent @ [Inr (b, bl)]) = (Inr (), received)"
        by simp
      from Cons.IH [OF this Cons.prems(2)] obtain blocks where
        "received = (sent @ [Inr (b, bl)]) @ map (\<lambda>(b, bl). Inr (b, bl)) (zip bs blocks)" "length blocks = length bs" by blast
      then show ?thesis by (intro exI [of _ "bl # blocks"]) simp
    qed
  qed
qed

lemma scan_downloaded_Inr:
  assumes "scan_downloaded env cfg keys tip r acc s = (Inr acc', t)"
  shows "\<exists>b bl. r = Inr (b, bl) \<and> snd acc' = int (sb_end_height b)"
  using assms by (cases r) (auto simp: scan_downloaded_def Let_def andThen_Inr split: prod.splits)

lemma scan_loop_Inr:
  "for_each (scan_downloaded env cfg keys tip) received acc s = (Inr acc', t) \<Longrightarrow>
   (\<forall>e. Inl e \<notin> set received) \<and> (received \<noteq> [] \<longrightarrow> (\<exists>b bl. last received = Inr (b, bl) \<and> snd acc' = int (sb_end_height b)))"
proof (induction received arbitrary: acc s)
  case Nil
  then show ?case by simp
next
  case (Cons r received)
  from Cons.prems obtain acc1 u where one: "scan_downloaded env cfg keys tip r acc s = (Inr acc1, u)"
    and rest: "for_each (scan_downloaded env cfg keys tip) received acc1 u = (Inr acc', t)"
    by (auto simp: andThen_Inr)
  from scan_downloaded_Inr [OF one] obtain b bl where r: "r = Inr (b, bl)" "snd acc1 = int (sb_end_height b)" by blast
  show ?case
  proof (cases "received = []")
    case True
    with rest r show ?thesis by auto
  next
    case False
    with Cons.IH [OF rest] r show ?thesis by auto
  qed
qed

lemma pipeline_reaches_final:
  assumes "scan_batches_with_pipeline env cfg uivk tip first final step s = (Inr (ids, scanned), t)"
    and "sb_end_height first \<le> final" "final < u32_max"
  shows "scanned = int final"
proof -
  define bs where "bs = first # batches_from final step (Suc (sb_end_height first))"
  obtain ended received where d: "downloads_in_order (fetched_batch env) (\<lambda>_. True) bs [] = (ended, received)" by fastforce
  have run: "run_ordered_downloads first final step DOWNLOAD_CONCURRENCY (\<lambda>_. True) (fetched_batch env) = Some (ended, received)"
    using downloads_run [OF assms(2,3), of step DOWNLOAD_CONCURRENCY "\<lambda>_. True" "fetched_batch env"] d
    unfolding bs_def by (simp only:)
  from assms(1) run obtain keys u where e: "ended = Inr ()"
    and loop: "for_each (scan_downloaded env cfg keys tip) received ([], 0) u = (Inr (ids, scanned), t)"
    by (auto simp: scan_batches_with_pipeline_def andThen_Inr)
  from scan_loop_Inr [OF loop] have noerr: "\<And>e. Inl e \<notin> set received"
    and lst: "received \<noteq> [] \<longrightarrow> (\<exists>b bl. last received = Inr (b, bl) \<and> scanned = int (sb_end_height b))" by auto
  from downloads_complete [OF d [unfolded e] noerr] obtain blocks where
    rec: "received = map (\<lambda>(b, bl). Inr (b, bl)) (zip bs blocks)" and len: "length blocks = length bs" by auto
  have ne: "zip bs blocks \<noteq> []" using len by (cases blocks) (auto simp: bs_def)
  have "last received = (\<lambda>(b, bl). Inr (b, bl)) (last (zip bs blocks))" unfolding rec by (rule last_map [OF ne])
  moreover have "fst (last (zip bs blocks)) = last bs"
    using ne len by (metis last_map map_fst_zip)
  moreover have "received \<noteq> []" using ne unfolding rec by blast
  ultimately have "scanned = int (sb_end_height (last bs))" using lst by (auto split: prod.splits)
  with planned_last_end [OF assms(2), of step] assms(3) show ?thesis by (simp add: bs_def)
qed

lemma forward_reaches_tip:
  assumes "scan_forward (scan_batches_with_pipeline env cfg uivk) metadata tip
      (sd_plan (build_sync_scan_decision birthday (last_scanned_height metadata) tip threshold step finality)) s = (Inr (ids, scanned), t)"
    and "birthday \<le> tip" "tip < u32_max" "last_scanned_height metadata \<le> int u32_max"
  shows "scanned = int tip"
proof -
  define next_height where "next_height = forward_scan_start_height birthday (last_scanned_height metadata) tip"
  have plan: "sd_plan (build_sync_scan_decision birthday (last_scanned_height metadata) tip threshold step finality)
      = plan_scan_range next_height tip threshold step"
    by (simp add: build_sync_scan_decision_def Let_def next_height_def)
  show ?thesis
  proof (cases "tip < next_height")
    case True
    then have "scanned = int (min tip (case u32_try_from (max (last_scanned_height metadata) 0) of Some h \<Rightarrow> h | None \<Rightarrow> 0))"
      using assms(1) plan by (simp add: scan_forward_def plan_scan_range_def)
    moreover have "0 < last_scanned_height metadata"
      using True assms(2) by (auto simp: next_height_def forward_scan_start_height_def split: if_splits)
    moreover from this obtain n where n: "last_scanned_height metadata = int n" "n \<le> u32_max"
      using assms(4) by (metis nat_0_le nat_int nat_mono order_less_imp_le)
    moreover have "tip \<le> n" using True assms(2,3) n \<open>0 < last_scanned_height metadata\<close>
      by (auto simp: next_height_def forward_scan_start_height_def u32_try_from_def sat_add_u32_def split: if_splits)
    ultimately show ?thesis by (simp add: u32_try_from_def)
  next
    case False
    then obtain b where b: "next_scan_batch next_height tip step = Some b" using next_scan_batch_None by fastforce
    then have "scan_batches_with_pipeline env cfg uivk tip b tip step s = (Inr (ids, scanned), t)"
      using assms(1) plan False by (simp add: scan_forward_def plan_scan_range_def Let_def)
    moreover have "sb_end_height b \<le> tip" using next_scan_batch_Some(3) [OF b] assms(3) by simp
    ultimately show ?thesis using assms(3) by (rule pipeline_reaches_final)
  qed
qed

lemma timed_Inr: "timed env m s = (Inr x, t) \<longleftrightarrow>
  (\<exists>now db. se_now env (ss_reads s) = Inr now \<and> m now (sv_db (turn s)) = (Inr x, db)
    \<and> t = s\<lparr>ss_reads := Suc (ss_reads s), ss_db := db, ss_held := sv_held (turn s), ss_others := tl (ss_others s)\<rparr>)"
  by (auto simp: timed_def andThen_Inr read_now_def on_app_db_run)

lemma iteration_ends:
  assumes "sync_with_lightwalletd env cfg identity metadata uivk url s = (Inr wake, t)"
  obtains tip scanned ids u v reason now where "wake = WaitForNextBlock url tip"
    "scan_forward (scan_batches_with_pipeline env cfg uivk) metadata tip
       (sd_plan (build_sync_scan_decision (wi_birthday_height identity) (last_scanned_height metadata) tip
          (catch_up_threshold_blocks cfg) (catch_up_batch_size cfg) (finality_confirmations cfg))) u = (Inr (ids, scanned), v)"
    "\<exists>x w. record_sync_status (if scanned \<ge> int tip then STATE_SYNCED else STATE_CATCHING_UP) reason (int tip) scanned now w = (Inr x, ss_db t)"
  using assms
  by (auto simp: sync_with_lightwalletd_def sync_with_lightwalletd_with_def Let_def andThen_Inr timed_Inr split: prod.splits) blast

section \<open>A sample world\<close>

definition sample_zcash :: "(unit, unit) zcash_lib" where
  "sample_zcash = \<lparr>zl_decode_uivk = (\<lambda>_ _. Inr ()), zl_has_orchard = (\<lambda>_. True), zl_has_sapling = (\<lambda>_. True),
     zl_orchard = (\<lambda>_. Some ()), zl_sapling = (\<lambda>_. Some ()), zl_diversifier_index = (\<lambda>_ _. None),
     zl_find_address = (\<lambda>_ start. Inr (\<lparr>ua_orchard = Some [of_nat start], ua_sapling = Some [of_nat start], ua_transparent = None, ua_unknown = []\<rparr>, start)),
     zl_address = (\<lambda>_ _. None), zl_decode_address = (\<lambda>_ _. None), zl_encode_address = (\<lambda>_ a. ''u1''),
     zl_index_of_bytes = (\<lambda>b. if b = [] then 0 else unat (hd b)), zl_bytes_of_index = (\<lambda>i. of_nat i # replicate 10 0),
     zl_increment = (\<lambda>i. if i < 255 then Some (Suc i) else None)\<rparr>"

text \<open>Every block pays 500 zatoshis to one sapling receiver; nothing in the mempool parses.\<close>

definition one_output :: "nat \<Rightarrow> scanned_block" where
  "one_output h = \<lparr>sk_height = h, sk_transactions = [\<lparr>sx_txid = show_nat h,
     sx_sapling_outputs = [\<lparr>so_index = 0, so_value = 500, so_recipient = [1]\<rparr>], sx_orchard_outputs = [], sx_ironwood_outputs = []\<rparr>]\<rparr>"

definition sample_chain :: "unit scan_lib" where
  "sample_chain = \<lparr>sl_scan_block = (\<lambda>_ _ b. Inr (one_output (cb_height b))), sl_branch_for_height = (\<lambda>_ h. h),
     sl_read_transaction = (\<lambda>_ _. Inl ''not a transaction''), sl_decrypt_sapling = (\<lambda>_ _. None),
     sl_decrypt_orchard = (\<lambda>_ _. None), sl_decrypt_ironwood = (\<lambda>_ _. None)\<rparr>"

definition sample_sync :: "(nat, unit, unit) sync_env" where
  "sample_sync = \<lparr>se_lightwalletd = sample_lightwalletd, se_zcash = sample_zcash, se_scan = sample_chain, se_ext = sample_ext,
     se_now = (\<lambda>_. Inr ''2025-01-02''), se_thread_pool = Inr (), se_wallet_db = Inr (), se_wallet_db_identity = Inr None,
     se_fetch_batch = (\<lambda>b. Finished (Inr [\<lparr>cb_height = sb_start_height b, cb_vtx = []\<rparr>]))\<rparr>"

definition sample_payee :: payee where
  "sample_payee uid = Some (''sapling'', receiver_fingerprint [1])"

lemma sample_block_receipts:
  "scan_one_compact_block sample_chain net keys b = Inr ([\<lparr>ir_txid_hex = show_nat (cb_height b), ir_mined_height = cb_height b,
     ir_is_mempool = False, ir_pool = ''sapling'', ir_output_index = 0, ir_value_zat = 500,
     ir_receiver_fingerprint = receiver_fingerprint [1]\<rparr>], one_output (cb_height b))"
  by (simp add: scan_one_compact_block_def sample_chain_def one_output_def Let_def tx_receipts_def block_receipt_def
      u16_index_def apply_spam_filter_def)

lemma sample_scans_follow: "scans_follow sample_sync sample_payee"
  unfolding scans_follow_def
proof (intro conjI allI impI)
  fix name and keys :: "unit scanning_keys" and blocks batch
  assume "scan_compact_blocks_in_pool (se_scan sample_sync) name keys blocks = Inr batch"
  then obtain net per_block where all: "list_all2 (\<lambda>b r. scan_one_compact_block sample_chain net keys b = Inr r) blocks per_block"
    and rs: "set (fst batch) = set (concat (map fst per_block))"
    by (auto simp: scan_compact_blocks_in_pool_def bind_result_Inr map_result_Inr sample_sync_def)
  from all have "r \<in> set per_block \<Longrightarrow> \<exists>b. scan_one_compact_block sample_chain net keys b = Inr r" for r
    by (auto simp: list_all2_conv_all_nth in_set_conv_nth)
  with rs show "follows_chain sample_payee (fst batch)"
    by (fastforce simp: follows_chain_def list_all_iff sample_block_receipts sample_payee_def)
next
  fix name uivk tip raws rs
  assume "scan_incoming_mempool_receipts_from_raw_transactions (se_zcash sample_sync) (se_scan sample_sync) name uivk tip raws = Inr rs"
  then have "rs = []"
    by (auto simp: scan_incoming_mempool_receipts_from_raw_transactions_def bind_result_Inr sample_sync_def
        parse_mempool_transactions_def sample_chain_def map_filter_def)
  then show "follows_chain sample_payee rs" by (simp add: follows_chain_def)
qed

definition sample_synced_db :: app_db where
  "sample_synced_db =
     snd (db_task sample_ext (AllocateAddress (\<lambda>_. Inr \<lparr>fa_issued_address = fa_issued_address sample_allocation,
            fa_receivers = [\<lparr>nr_pool = ''sapling'', nr_receiver_encoding = ''s1'', nr_receiver_fingerprint = receiver_fingerprint [1]\<rparr>]\<rparr>) ''2025-01-01'')
       (snd (db_task sample_ext (StoreMetadata sample_config) empty_db)))"

definition sample_sync_state :: "nat sync_state" where
  "sample_sync_state = \<lparr>ss_db = sample_synced_db, ss_held = None, ss_others = [], ss_link = fresh_link, ss_reads = 0, ss_diverged = False\<rparr>"

definition sample_identity :: wallet_identity where
  "sample_identity = \<lparr>canonical_uivk = ''uivk'', uivk_fingerprint = [], wi_network = ''testnet'', wi_birthday_height = 100,
     wi_wallet_db_path = [], initialized_at = [], last_validated_at = []\<rparr>"

definition sample_metadata :: service_metadata where
  "sample_metadata = (case db_metadata sample_synced_db of Some m \<Rightarrow> service_metadata.truncate m | None \<Rightarrow> undefined)"

definition sample_iteration :: "sync_wake_strategy result \<times> nat sync_state" where
  "sample_iteration = sync_with_lightwalletd sample_sync sample_config sample_identity sample_metadata ''uivk'' ''http://lwd'' sample_sync_state"

lemma sample_iteration_value:
  "(case sample_iteration of (r, s) \<Rightarrow>
      (r, map rr_mined_height (db_receipts (ss_db s)), map at_current_total_zat (db_totals (ss_db s))))
   = (Inr (WaitForNextBlock ''http://lwd'' 102), [100], [500])"
  by code_simp

lemma sample_iteration_result:
  "fst sample_iteration = Inr (WaitForNextBlock ''http://lwd'' 102)"
  "map rr_mined_height (db_receipts (ss_db (snd sample_iteration))) = [100]"
  "map at_current_total_zat (db_totals (ss_db (snd sample_iteration))) = [500]"
  using sample_iteration_value by (simp_all add: split_beta)

section \<open>Properties\<close>


text \<open>Between the transactions of the sample an address is issued, and the delivery the scan queues is claimed and still being sent when the iteration ends.\<close>

definition idle :: "service \<Rightarrow> service" where
  "idle sv = take_steps sample_ext [] sv"

definition second_address :: "service \<Rightarrow> service" where
  "second_address sv = take_steps sample_ext [Db (AllocateAddress (\<lambda>_. Inr
     \<lparr>fa_issued_address = (fa_issued_address sample_allocation)\<lparr>na_unified_address := ''u1second''\<rparr>, fa_receivers = []\<rparr>) ''2025-01-02'')] sv"

definition delivery_claimed :: "service \<Rightarrow> service" where
  "delivery_claimed sv = take_steps sample_ext [Claim ''2025-01-02''] sv"

definition sample_turns :: "(service \<Rightarrow> service) list" where
  "sample_turns = [idle, second_address, idle, idle, idle, idle, delivery_claimed]"

lemma sample_turns_other: "list_all (other_task sample_ext) sample_turns"
  by (simp add: sample_turns_def take_steps_other idle_def [abs_def] second_address_def [abs_def]
      delivery_claimed_def [abs_def])

definition disturbed_iteration :: "sync_wake_strategy result \<times> nat sync_state" where
  "disturbed_iteration = sync_with_lightwalletd sample_sync sample_config sample_identity sample_metadata ''uivk'' ''http://lwd''
     (sample_sync_state\<lparr>ss_others := sample_turns\<rparr>)"

lemma disturbed_value:
  "(case disturbed_iteration of (r, s) \<Rightarrow> (map at_current_total_zat (db_totals (ss_db s)), ss_held s)) = ([500, 0], Some 1)"
  by code_simp


text \<open>C17: An iteration that ends without an error has scanned to the tip: when the birthday is not above the tip it
  sampled, the metadata then say synced, with that tip as the height seen and the height scanned.\<close>
theorem finished_iteration_has_scanned_to_the_tip:
  assumes "sync_with_lightwalletd env cfg identity metadata uivk url s = (Inr (WaitForNextBlock url' tip), t)"
    and "wi_birthday_height identity \<le> tip" "tip < u32_max" "last_scanned_height metadata \<le> int u32_max"
  shows "\<exists>m. db_metadata (ss_db t) = Some m \<and> current_sync_state m = ''synced''
    \<and> last_scanned_height m = int tip \<and> last_seen_tip_height m = int tip"
  using assms(1)
proof (rule iteration_ends)
  fix h scanned ids u v reason now
  assume h: "WaitForNextBlock url' tip = WaitForNextBlock url h"
    and forward: "scan_forward (scan_batches_with_pipeline env cfg uivk) metadata h
       (sd_plan (build_sync_scan_decision (wi_birthday_height identity) (last_scanned_height metadata) h
          (catch_up_threshold_blocks cfg) (catch_up_batch_size cfg) (finality_confirmations cfg))) u = (Inr (ids, scanned), v)"
    and rec: "\<exists>x w. record_sync_status (if scanned \<ge> int h then STATE_SYNCED else STATE_CATCHING_UP) reason (int h) scanned now w = (Inr x, ss_db t)"
  from h have h: "h = tip" by simp
  have "scanned = int tip" using forward assms(2-4) unfolding h by (rule forward_reaches_tip)
  with rec h obtain x w where "record_sync_status STATE_SYNCED reason (int tip) (int tip) now w = (Inr x, ss_db t)" by auto
  then obtain m where "db_metadata (ss_db t) = Some (next_metadata STATE_SYNCED (int tip) (int tip) now m)"
    by (rule record_sync_status_Inr) blast
  then show ?thesis by (simp add: next_metadata_def STATE_SYNCED_def Let_def)
qed

theorem finished_iteration_has_scanned_to_the_tip_witness:
  "\<exists>m. db_metadata (ss_db (snd sample_iteration)) = Some m \<and> current_sync_state m = ''synced'' \<and> last_scanned_height m = 102"
proof -
  have "sync_with_lightwalletd sample_sync sample_config sample_identity sample_metadata ''uivk'' ''http://lwd'' sample_sync_state
      = (Inr (WaitForNextBlock ''http://lwd'' 102), snd sample_iteration)"
    using sample_iteration_result(1) unfolding sample_iteration_def by (metis prod.collapse)
  moreover have "wi_birthday_height sample_identity \<le> 102" "last_scanned_height sample_metadata \<le> int u32_max" by code_simp+
  ultimately show ?thesis using finished_iteration_has_scanned_to_the_tip by fastforce
qed

end
