(* ===== verification/Receipt_Guarantees.thy ===== *)
theory Receipt_Guarantees
  imports Sync_Guarantees
begin

text \<open>
  What the receipts table says after each operation of the scan: a rescanned range agrees with the
  chain, depths are those of the tip, nothing is left above it, and a provisional receipt survives until
  the block that may hold it has been scanned.
\<close>

section \<open>Provisional receipts\<close>

lemma mempool_survives_put:
  assumes "row \<in> set rows" "rr_receipt_kind row = Mempool" "is_active row"
  shows "\<exists>row' \<in> set (mempool.put reports cutoff now existing r rows).
     rr_receipt_uid row' = rr_receipt_uid row \<and> rr_receipt_kind row' = Mempool \<and> is_active row'"
proof (cases "rr_receipt_uid row = sr_receipt_uid r")
  case False
  then have "row \<in> set (mempool.put reports cutoff now existing r rows)"
    using assms(1) by (simp add: put_receipt_def set_update_where mempool_of_scan_def)
  with assms show ?thesis by blast
next
  case True
  let ?new = "merge_mempool (mempool_of_scan reports cutoff now existing r) row"
  have "sr_receipt_uid r \<in> rr_receipt_uid ` set rows" using assms(1) True by force
  then have "?new \<in> set (mempool.put reports cutoff now existing r rows)"
    using assms(1) True by (auto simp: put_receipt_def set_update_where mempool_of_scan_def)
  moreover have "rr_receipt_uid ?new = rr_receipt_uid row" "rr_receipt_kind ?new = Mempool" "is_active ?new"
    by (simp_all add: is_active_def)
  ultimately show ?thesis by blast
qed

lemma mempool_survives_fold:
  "row \<in> set rows \<Longrightarrow> rr_receipt_kind row = Mempool \<Longrightarrow> is_active row \<Longrightarrow>
   \<exists>row' \<in> set (fold (mempool.put reports cutoff now existing) rs rows).
     rr_receipt_uid row' = rr_receipt_uid row \<and> rr_receipt_kind row' = Mempool \<and> is_active row'"
proof (induction rs arbitrary: row rows)
  case Nil
  then show ?case by auto
next
  case (Cons r rs)
  from mempool_survives_put [OF Cons.prems] obtain row1 where
    "row1 \<in> set (mempool.put reports cutoff now existing r rows)" "rr_receipt_uid row1 = rr_receipt_uid row"
    "rr_receipt_kind row1 = Mempool" "is_active row1" by blast
  with Cons.IH [of row1 "mempool.put reports cutoff now existing r rows"] show ?case by simp
qed

lemma mempool_survives:
  assumes "reconcile_mempool_snapshot ext txids receipts now tip fin reports False db = (Inr rc, db')"
    and row: "row \<in> set (db_receipts db)" "rr_receipt_kind row = Mempool" "is_active row"
  shows "\<exists>row' \<in> set (db_receipts db'). rr_receipt_uid row' = rr_receipt_uid row \<and> rr_receipt_kind row' = Mempool \<and> is_active row'"
proof -
  define existing where "existing = btree_collect rr_receipt_uid (filter (\<lambda>r. rr_receipt_kind r = Mempool) (db_receipts db))"
  from mempool_run [OF assms(1)] obtain cutoff where
    rows: "db_receipts db' = update_where (freshness_stale reports cutoff) (refresh_freshness reports cutoff now)
       (fold (mempool.put reports cutoff now existing) receipts (revoke_uids now [] (db_receipts db)))"
    unfolding existing_def by auto
  have "revoke_uids now [] (db_receipts db) = db_receipts db" by simp
  with mempool_survives_fold [OF row] obtain y where
    y: "y \<in> set (fold (mempool.put reports cutoff now existing) receipts (revoke_uids now [] (db_receipts db)))"
    "rr_receipt_uid y = rr_receipt_uid row" "rr_receipt_kind y = Mempool" "is_active y" by metis
  let ?z = "if freshness_stale reports cutoff y then refresh_freshness reports cutoff now y else y"
  have "?z \<in> set (db_receipts db')" using y(1) unfolding rows by (simp add: set_update_where)
  moreover have "rr_receipt_uid ?z = rr_receipt_uid row" "rr_receipt_kind ?z = Mempool" "is_active ?z"
    using y(2-4) by (simp_all add: refresh_freshness_def Let_def is_active_def)
  ultimately show ?thesis by blast
qed

text \<open>What leaves the receipts alone, whatever the other tasks do meanwhile.\<close>

definition keeps_rows :: "externals \<Rightarrow> 'c sync_state \<Rightarrow> 'c sync_state \<Rightarrow> bool" where
  "keeps_rows ext s t \<longleftrightarrow> (among_others ext s \<longrightarrow> among_others ext t \<and> db_receipts (ss_db t) = db_receipts (ss_db s))"

lemma keeps_rows_trans: "keeps_rows ext s t \<Longrightarrow> keeps_rows ext t u \<Longrightarrow> keeps_rows ext s u"
  by (simp add: keeps_rows_def)

lemma quiet_steps:
  "on_link c s = (r, t) \<Longrightarrow> keeps_rows ext s t" "read_now env s = (q, u) \<Longrightarrow> keeps_rows ext s u"
  by (auto simp: on_link_def read_now_def keeps_rows_def among_others_def split: prod.splits)

lemma app_db_rows:
  assumes "on_app_db m s = (r, t)" "\<And>db db'. m db = (r, db') \<Longrightarrow> db_receipts db' = db_receipts db"
  shows "keeps_rows ext s t"
  using assms turn_receipts [of ext s] among_others_tl [of ext s t] unfolding keeps_rows_def on_app_db_run by fastforce

lemma queue_keeps_receipts:
  assumes "timed env (queue_webhook_deliveries_for_dirty_addresses ext ids) s = (Inr q, t)"
  shows "keeps_rows ext' s t"
proof -
  from assms obtain now u where u: "read_now env s = (Inr now, u)"
    and run: "on_app_db (queue_webhook_deliveries_for_dirty_addresses ext ids now) u = (Inr q, t)"
    by (auto simp: timed_def andThen_Inr)
  have "db_receipts db' = db_receipts db" if "queue_webhook_deliveries_for_dirty_addresses ext ids now db = (Inr q, db')" for db db'
  proof -
    have "keeps (\<lambda>db. db_receipts db = R) (queue_webhook_deliveries_in_tx ext ids now)" for R
      by (rule queue_keeps) (simp_all add: update_totals_def insert_delivery_def)
    from keepsD [OF this refl] queue_dirty_run [OF that] show ?thesis by metis
  qed
  from keeps_rows_trans [OF quiet_steps(2) [OF u] app_db_rows [OF run this]] show ?thesis .
qed

lemma recheck_run:
  assumes "(if miss then may_revoke_missing tip latest else ret False) s = (Inr m, t)"
    and "\<not> miss \<or> (\<forall>l h. fst (latest l) = Inr h \<longrightarrow> tip < h)"
  shows "\<not> m \<and> keeps_rows ext s t"
proof (cases miss)
  case False
  with assms(1) show ?thesis by (auto simp: keeps_rows_def)
next
  case True
  obtain q l where q: "latest (ss_link s) = (q, l)" by fastforce
  with True assms(2) have above: "\<forall>h. q = Inr h \<longrightarrow> tip < h" by (metis fst_conv)
  from q True assms(1) have "may_revoke_missing tip latest s = (Inr m, t)" "on_link latest s = (q, s\<lparr>ss_link := l\<rparr>)"
    by (simp_all add: on_link_def)
  with above show ?thesis by (cases q) (auto simp: may_revoke_missing_def keeps_rows_def among_others_def)
qed

lemma snapshot_run:
  assumes "reconcile_current_mempool_with env cfg uivk url tip miss fetch latest s = (Inr ids, t)"
    and "\<not> miss \<or> (\<forall>l h. fst (latest l) = Inr h \<longrightarrow> tip < h)" "among_others ext s"
  shows "\<exists>txids receipts now rc db db'. reconcile_mempool_snapshot (se_ext env) txids receipts now (int tip) (finality_confirmations cfg)
      (webhook_report_confirmations cfg) False db = (Inr rc, db')
    \<and> db_receipts db = db_receipts (ss_db s) \<and> db_receipts (ss_db t) = db_receipts db'"
proof -
  from assms(1) obtain mempool s1 known s2 raws s3 receipts s4 now s5 attributed s6 m s7 rc s8 q s9 where
    run: "on_link fetch s = (Inr mempool, s1)" "on_app_db (reads active_mempool_txids) s1 = (Inr known, s2)"
      "on_link (fetch_raw_transactions_by_txids (se_lightwalletd env) url
         (filter (\<lambda>txid. wire_txid_to_display_hex txid \<notin> set known) mempool)) s2 = (Inr raws, s3)"
      "s4 = s3" "read_now env s4 = (Inr now, s5)"
      "on_app_db (attribute_scanned_receipts receipts tip (webhook_report_confirmations cfg) now) s5 = (Inr attributed, s6)"
      "(if miss then may_revoke_missing tip latest else ret False) s6 = (Inr m, s7)"
      "on_app_db (reconcile_mempool_snapshot (se_ext env) (bset_of (map wire_txid_to_display_hex mempool)) attributed now (int tip)
         (finality_confirmations cfg) (webhook_report_confirmations cfg) m) s7 = (Inr rc, s8)"
      "timed env (queue_webhook_deliveries_for_dirty_addresses (se_ext env) (rc_affected_address_ids rc)) s8 = (Inr q, s9)"
      "t = s9"
    unfolding reconcile_current_mempool_with_def Let_def andThen_Inr lift_result_iff ret_iff by blast
  have "keeps_rows ext s1 s2" by (rule app_db_rows [OF run(2)]) simp
  moreover have "keeps_rows ext s5 s6" by (rule app_db_rows [OF run(6)]) (auto dest: attribute_scanned_state)
  moreover have "keeps_rows ext s s1" by (rule quiet_steps(1) [OF run(1)])
  moreover have "keeps_rows ext s2 s5" using keeps_rows_trans [OF quiet_steps(1) [OF run(3)] quiet_steps(2) [OF run(5)[unfolded run(4)]]] .
  ultimately have s6: "keeps_rows ext s s6" by (meson keeps_rows_trans)
  note recheck = recheck_run [OF run(7) assms(2), of ext]
  then have s7: "\<not> m" "keeps_rows ext s s7" using keeps_rows_trans [OF s6] by simp_all
  with assms(3) have others: "among_others ext s7" and rows: "db_receipts (ss_db s7) = db_receipts (ss_db s)"
    by (simp_all add: keeps_rows_def)
  from run(8) s7(1) have "reconcile_mempool_snapshot (se_ext env) (bset_of (map wire_txid_to_display_hex mempool)) attributed now (int tip)
         (finality_confirmations cfg) (webhook_report_confirmations cfg) False (sv_db (turn s7)) = (Inr rc, ss_db s8)"
    by (auto simp: on_app_db_run)
  moreover have "db_receipts (sv_db (turn s7)) = db_receipts (ss_db s)" using turn_receipts [OF others] rows by simp
  moreover have "among_others ext s8" using run(8) by (auto simp: on_app_db_run intro: among_others_tl [OF others])
  with queue_keeps_receipts [OF run(9), of ext] run(10) have "db_receipts (ss_db t) = db_receipts (ss_db s8)"
    by (simp add: keeps_rows_def)
  ultimately show ?thesis by blast
qed

section \<open>A receipt that has left the mempool\<close>

text \<open>A provisional receipt is stored; then the mempool is empty and the tip, read again, is one block higher.\<close>

definition provisional_receipt :: attributed_receipt where
  "provisional_receipt = (sample_receipt ''ab:orchard:0'' 500 0)\<lparr>sr_receipt_kind := Mempool, sr_confirmation_depth := 0\<rparr>"

definition provisional_state :: "nat sync_state" where
  "provisional_state = sample_sync_state\<lparr>ss_db := snd (reconcile_mempool_snapshot sample_ext [''ab''] [provisional_receipt]
     ''2025-01-02'' 102 10 0 False sample_synced_db)\<rparr>"

definition provisional_snapshot :: "int list result \<times> nat sync_state" where
  "provisional_snapshot = reconcile_current_mempool_with sample_sync sample_config ''uivk'' ''http://lwd'' 102 True
     (\<lambda>l. (Inr [], l)) (\<lambda>l. (Inr 103, l)) provisional_state"

lemma provisional_snapshot_result:
  "case fst provisional_snapshot of Inr _ \<Rightarrow> True | Inl _ \<Rightarrow> False"
  "map (\<lambda>r. (rr_receipt_uid r, rr_receipt_kind r, rr_receipt_state r)) (db_receipts (ss_db provisional_state))
     = [(''ab:orchard:0'', Mempool, Active)]"
  by code_simp+

section \<open>A mined receipt taken back\<close>

text \<open>
  A mempool answer that still lists a transaction the scan has already found in a block takes its receipt back to the
  mempool: \<open>existing\<close> has the mempool rows only, and the conflict on the receipt's key overwrites the mined row.
\<close>

lemma stale_mempool_demotes_a_mined_receipt:
  assumes "old \<in> set (db_receipts db)" "rr_receipt_uid old = sr_receipt_uid r" "rr_receipt_kind old = Mined"
    and "reconcile_mempool_receipt confirmations cutoff now existing r acc db = (Inr acc', db')"
  shows "\<exists>row \<in> set (db_receipts db'). rr_receipt_id row = rr_receipt_id old \<and> rr_receipt_kind row = Mempool
    \<and> rr_mined_height row = 0 \<and> rr_confirmation_depth row = 0"
proof -
  from assms(4) obtain first_seen eligible where
    "db_receipts db' = put_receipt (mempool_row r first_seen eligible now) (merge_mempool (mempool_row r first_seen eligible now)) (db_receipts db)"
    by (auto simp: reconcile_mempool_receipt_def Let_def andThen_Inr upsert_receipt_Inr with_receipts_def)
  moreover have "sr_receipt_uid r \<in> rr_receipt_uid ` set (db_receipts db)" using assms(1,2) by (metis imageI)
  ultimately have "merge_mempool (mempool_row r first_seen eligible now) old \<in> set (db_receipts db')"
    using assms(1,2) by (auto simp: put_receipt_def mempool_row_def receipt_of_scan_def set_update_where image_iff)
  then show ?thesis by (intro bexI) (auto simp: merge_mempool_def mempool_row_def)
qed

section \<open>Properties\<close>

text \<open>C19: A provisional receipt survives an unscanned block: the mempool snapshot revokes nothing when it was not
  allowed to, or when the tip, read again after the snapshot, is above the scanned one or cannot be read. Every
  active mempool receipt is then still there and active, even if its transaction has left the mempool, and whatever
  the other tasks do between the transactions of the snapshot.\<close>
theorem provisional_receipts_survive_an_unscanned_block:
  assumes "reconcile_current_mempool_with env cfg uivk url tip miss fetch latest s = (Inr ids, t)"
    and "\<not> miss \<or> (\<forall>l h. fst (latest l) = Inr h \<longrightarrow> tip < h)"
    and "row \<in> set (db_receipts (ss_db s))" "rr_receipt_kind row = Mempool" "is_active row"
    and "list_all (other_task (se_ext env)) (ss_others s)"
  shows "\<exists>row' \<in> set (db_receipts (ss_db t)). rr_receipt_uid row' = rr_receipt_uid row \<and> rr_receipt_kind row' = Mempool \<and> is_active row'"
proof -
  from snapshot_run [OF assms(1,2) assms(6) [folded among_others_def]] obtain txids receipts now rc db db' where
    run: "reconcile_mempool_snapshot (se_ext env) txids receipts now (int tip) (finality_confirmations cfg)
      (webhook_report_confirmations cfg) False db = (Inr rc, db')"
    and same: "db_receipts db = db_receipts (ss_db s)" "db_receipts (ss_db t) = db_receipts db'" by blast
  from mempool_survives [OF run _ assms(4,5)] assms(3) same show ?thesis by simp
qed

theorem provisional_receipts_survive_an_unscanned_block_witness:
  "\<exists>row \<in> set (db_receipts (ss_db (snd provisional_snapshot))). rr_receipt_uid row = ''ab:orchard:0'' \<and> is_active row"
proof -
  obtain r t where eq: "provisional_snapshot = (r, t)" by fastforce
  with provisional_snapshot_result(1) have "case r of Inr _ \<Rightarrow> True | Inl _ \<Rightarrow> False" by (metis fst_conv)
  then obtain ids where "r = Inr ids" by (cases r) auto
  with eq have run: "provisional_snapshot = (Inr ids, t)" by simp
  obtain row where row: "row \<in> set (db_receipts (ss_db provisional_state))" "rr_receipt_uid row = ''ab:orchard:0''"
    "rr_receipt_kind row = Mempool" "is_active row"
    using provisional_snapshot_result(2) by (auto simp: is_active_def map_eq_Cons_conv)
  have others: "list_all (other_task (se_ext sample_sync)) (ss_others provisional_state)"
    by (simp add: provisional_state_def sample_sync_state_def)
  from provisional_receipts_survive_an_unscanned_block [OF run [unfolded provisional_snapshot_def] _ row(1,3,4) others]
  show ?thesis unfolding run row(2) snd_conv by auto
qed

text \<open>C18: A rescanned range agrees with the chain: after its reconciliation every receipt scanned is stored exactly as it
  was scanned and active, and every active mined receipt of the range is one of the scanned ones; what a
  reorganisation removed is revoked.\<close>
theorem rescanned_range_agrees_with_the_chain:
  assumes "reachable ext s" "distinct (map sr_receipt_uid receipts)"
    and "reconcile_attributed_receipts_in_range receipts lo hi tip fin now (sv_db s) = (Inr rc, db')"
  shows "(\<forall>r \<in> set receipts. \<exists>row \<in> set (db_receipts db'). row_of r row)
    \<and> (\<forall>row \<in> set (db_receipts db'). rr_receipt_kind row = Mined \<longrightarrow> is_active row \<longrightarrow> in_range lo hi row \<longrightarrow>
         (\<exists>r \<in> set receipts. row_of r row))"
proof -
  from reachable_ok [OF assms(1)] have "receipt_uids_ok (sv_db s)" by (simp add: service_ok_def db_ok_def ledger_ok_def)
  from reconcile_matches [OF this assms(2,3)] show ?thesis by blast
qed

theorem rescanned_range_agrees_with_the_chain_witness:
  "\<exists>row \<in> set (db_receipts (snd (reconcile_attributed_receipts_in_range [sample_receipt ''cd:orchard:0'' 70 101] 100 101 101 10
     ''2025-01-04'' (sv_db sample_paid_again)))). row_of (sample_receipt ''cd:orchard:0'' 70 101) row"
proof -
  let ?r = "reconcile_attributed_receipts_in_range [sample_receipt ''cd:orchard:0'' 70 101] 100 101 101 10 ''2025-01-04'' (sv_db sample_paid_again)"
  have "case fst ?r of Inr _ \<Rightarrow> True | Inl _ \<Rightarrow> False" by code_simp
  then obtain rc where run: "?r = (Inr rc, snd ?r)" by (cases ?r) (auto split: sum.splits)
  have "distinct (map sr_receipt_uid [sample_receipt ''cd:orchard:0'' 70 101])" by simp
  from rescanned_range_agrees_with_the_chain [OF sample_reachable(3) this run] show ?thesis by simp
qed

text \<open>C20: Depths follow the tip: after the maturity pass every active mined receipt has the depth of its height under the
  tip and counts for the webhook exactly when that depth reaches the reporting threshold.\<close>
theorem depths_follow_the_tip:
  assumes "advance_receipt_maturity tip reports fin now db = (Inr ids, db')"
    and "row \<in> set (db_receipts db')" "rr_receipt_kind row = Mined" "is_active row"
  shows "rr_confirmation_depth row = (if rr_mined_height row \<le> tip then tip - rr_mined_height row + 1 else 0)
    \<and> rr_eligible_for_webhook row = (int reports \<le> rr_confirmation_depth row)"
  using advance_matures [OF assms(1,2)] assms(3,4) by (auto simp: depth_stale_def depth_at_def)

definition matured_rows :: "receipt_row list" where
  "matured_rows = db_receipts (snd (advance_receipt_maturity 105 3 10 ''2025-01-04'' (sv_db sample_paid_again)))"

theorem depths_follow_the_tip_witness:
  "rr_confirmation_depth (hd matured_rows) = 5 \<and> rr_eligible_for_webhook (hd matured_rows)"
proof -
  let ?r = "advance_receipt_maturity 105 3 10 ''2025-01-04'' (sv_db sample_paid_again)"
  have "case fst ?r of Inr _ \<Rightarrow> True | Inl _ \<Rightarrow> False" by code_simp
  then obtain ids where run: "?r = (Inr ids, snd ?r)" by (cases ?r) (auto split: sum.splits)
  have row: "hd matured_rows \<in> set matured_rows" "rr_receipt_kind (hd matured_rows) = Mined" "is_active (hd matured_rows)"
    "rr_mined_height (hd matured_rows) = 101" by code_simp+
  from depths_follow_the_tip [OF run row(1) [unfolded matured_rows_def] row(2,3) [unfolded matured_rows_def]] row(4)
  show ?thesis by (simp add: matured_rows_def)
qed

text \<open>Nothing is left above the tip: after the clean-up for a chain that became shorter no active mined receipt has a
  height above the tip, and the receipts at or below it are untouched.\<close>
theorem nothing_is_left_above_the_tip:
  assumes "reachable ext s" "revoke_mined_receipts_above_tip tip fin now (sv_db s) = (Inr rc, db')"
  shows "(\<forall>row \<in> set (db_receipts db'). rr_receipt_kind row = Mined \<longrightarrow> is_active row \<longrightarrow> rr_mined_height row \<le> tip)
    \<and> (\<forall>row \<in> set (db_receipts (sv_db s)). rr_mined_height row \<le> tip \<longrightarrow> row \<in> set (db_receipts db'))"
proof -
  from reachable_ok [OF assms(1)] have uids: "receipt_uids_ok (sv_db s)" by (simp add: service_ok_def db_ok_def ledger_ok_def)
  have "row \<in> set (db_receipts db')" if "row \<in> set (db_receipts (sv_db s))" "rr_mined_height row \<le> tip" for row
  proof -
    have "\<not> above_tip tip row" using that(2) by (simp add: above_tip_def)
    with that(1) show ?thesis unfolding above_tip_run [OF assms(2) uids] by (simp add: set_update_where)
  qed
  moreover have "\<not> above_tip tip row" if "row \<in> set (db_receipts db')" for row
    using above_tip_revoked [OF assms(2) uids that] .
  ultimately show ?thesis by (auto simp: above_tip_def not_less)
qed

definition rewound_rows :: "receipt_row list" where
  "rewound_rows = db_receipts (snd (revoke_mined_receipts_above_tip 100 10 ''2025-01-04'' (sv_db sample_paid_again)))"

theorem nothing_is_left_above_the_tip_witness:
  "rr_mined_height (hd rewound_rows) = 101 \<and> \<not> is_active (hd rewound_rows)"
proof -
  let ?r = "revoke_mined_receipts_above_tip 100 10 ''2025-01-04'' (sv_db sample_paid_again)"
  have "case fst ?r of Inr _ \<Rightarrow> True | Inl _ \<Rightarrow> False" by code_simp
  then obtain rc where "?r = (Inr rc, snd ?r)" by (cases ?r) (auto split: sum.splits)
  note rewound = nothing_is_left_above_the_tip [OF sample_reachable(3) this, folded rewound_rows_def]
  have "hd rewound_rows \<in> set rewound_rows" "rr_receipt_kind (hd rewound_rows) = Mined"
    "rr_mined_height (hd rewound_rows) = 101" by code_simp+
  with rewound show ?thesis by fastforce
qed

end
