(* ===== verification/Payment_Service.thy ===== *)
theory Payment_Service
  imports Zcash_Wallet Sync_Guarantees
begin

text \<open>
  \<^verbatim>\<open>src/service.rs\<close>: the requests the HTTP routes answer. A session mints an address and stores a link
  to it; the status of a link is read back from the database; on testnet a payment can be simulated.
  The readings of the clock and the random bytes are arguments, in the order the code takes them. Log
  lines are left out.
\<close>

section \<open>Requests and responses\<close>

record 'k payment_service =
  ps_wallet_view :: "'k wallet_view"
  ps_public_base_url :: "string option"
  ps_dev_simulated_payments :: bool
  ps_return_url_allowed_origins :: "string list"
  ps_required_confirmations :: "nat option"
  ps_webhook_report_confirmations :: int

record payment_session_request =
  pq_payment_source :: string
  pq_label :: "string option"
  pq_memo :: "string option"
  pq_message :: "string option"
  pq_amount :: "string option"
  pq_return_url :: "string option"

record payment_session_response =
  pr_address :: string
  pr_qr_text :: string
  pr_payment_id :: string
  pr_pay_url :: string

record payment_status_response =
  pt_payment_id :: string
  pt_address :: string
  pt_qr_text :: string
  pt_pay_url :: string
  pt_label :: "string option"
  pt_message :: "string option"
  pt_amount :: "string option"
  pt_total_received :: string
  pt_received_by_confirmations :: "string list option"
  pt_state_version :: int
  pt_status :: payment_status
  pt_return_url :: "string option"
  pt_created_at :: string

record simulate_payment_request =
  sq_address :: string
  sq_amount :: string
  sq_confirmations :: "nat option"
  sq_txid :: "string option"

record simulate_payment_response =
  sp_txid :: string
  sp_total_received :: string

record health_response =
  hr_ok :: bool
  hr_current_sync_state :: string
  hr_detected_tip_height :: "nat option"
  hr_last_scanned_height :: "nat option"

definition SIMULATED_TIP_HEIGHT :: int where "SIMULATED_TIP_HEIGHT = 1000000"

section \<open>Helpers\<close>

definition new_payment_id :: "byte list \<Rightarrow> string" where
  "new_payment_id random_bytes = hex_string random_bytes"

definition is_payment_id :: "string \<Rightarrow> bool" where
  "is_payment_id value \<longleftrightarrow> length value = 32 \<and> list_all is_lower_hex value"

text \<open>One optional parameter of the payment URI; a blank field is left out.\<close>

definition query_part :: "string \<Rightarrow> (string \<Rightarrow> string) \<Rightarrow> string option \<Rightarrow> string list" where
  "query_part key encode field =
     (case field of None \<Rightarrow> [] | Some v \<Rightarrow> if is_blank v then [] else [key @ ''='' @ encode v])"

definition build_qr_text :: "string \<Rightarrow> string option \<Rightarrow> string option \<Rightarrow> string option \<Rightarrow> string" where
  "build_qr_text address amount memo message =
     (let query = query_part ''amount'' encode_uri_component amount
                @ query_part ''memo'' (\<lambda>memo. base64url_unpadded (as_bytes memo)) memo
                @ query_part ''message'' encode_uri_component message
      in if query = [] then ''zcash:'' @ address
         else ''zcash:'' @ address @ ''?'' @ join_with ''&'' query)"

definition nonzero_height :: "int \<Rightarrow> nat option" where
  "nonzero_height value = (case u64_try_from value of Some h \<Rightarrow> if 0 < h then Some h else None | None \<Rightarrow> None)"

definition pay_url :: "'k payment_service \<Rightarrow> string \<Rightarrow> string" where
  "pay_url service payment_id = (case ps_public_base_url service of Some u \<Rightarrow> u | None \<Rightarrow> []) @ ''/pay/'' @ payment_id"

text \<open>An operation of the database that starts by reading the clock.\<close>

definition stamped :: "string result \<Rightarrow> (string \<Rightarrow> 'a db_op) \<Rightarrow> 'a db_op" where
  "stamped now m = andThen (lift_result now) m"

section \<open>Startup\<close>

text \<open>
  \<^verbatim>\<open>wallet_db\<close> is the outcome of initializing the wallet database, the two identities what the code
  reads of it before and after. Startup runs alone (\<open>\<lambda>d. d\<close> is the gap of the two checks).
\<close>

definition initialize_payment_service ::
  "('k, 'i) zcash_lib \<Rightarrow> config \<Rightarrow> unit result \<Rightarrow> wallet_db_identity option result \<Rightarrow> string result
    \<Rightarrow> wallet_db_identity option result \<Rightarrow> 'k payment_service db_op" where
  "initialize_payment_service lib cfg wallet_db first_read now second_read =
     andThen (lift_result wallet_db) (\<lambda>_.
     andThen initialize_schema (\<lambda>_.
     andThen (stamped now (ensure_wallet_identity (\<lambda>d. d) cfg first_read)) (\<lambda>identity.
     andThen (ensure_service_metadata (\<lambda>d. d) cfg) (\<lambda>metadata.
     andThen (lift_result (decode_wallet_view lib (wi_network identity) (canonical_uivk identity))) (\<lambda>view.
     if dev_simulated_payments cfg \<and> lightwalletd_url cfg \<noteq> None then
       integrity ''ZCASH_DEV_SIMULATED_PAYMENTS cannot be combined with LIGHTWALLETD_URL''
     else
     andThen (if lightwalletd_url cfg \<noteq> None then reads has_simulated_data else ret False) (\<lambda>simulated.
     if simulated then
       integrity ''this database holds simulated payments (ZCASH_DEV_SIMULATED_PAYMENTS); use a fresh database for real scanning''
     else
     andThen (lift_result second_read) (\<lambda>wallet_db_identity.
     if (case wallet_db_identity of Some w \<Rightarrow> wd_uivk w \<noteq> wv_encoded_uivk view | None \<Rightarrow> False) then
       integrity ''wallet DB UIVK does not match the decoded canonical wallet view''
     else
       ret \<lparr>ps_wallet_view = view, ps_public_base_url = public_base_url cfg,
            ps_dev_simulated_payments = (dev_simulated_payments cfg \<and> wi_network identity = ''testnet''),
            ps_return_url_allowed_origins = return_url_allowed_origins cfg,
            ps_required_confirmations = required_confirmations cfg,
            ps_webhook_report_confirmations = md_webhook_report_confirmations metadata\<rparr>)))))))"

section \<open>Sessions\<close>

text \<open>The closure \<^verbatim>\<open>mint_address\<close> passes to the allocation: the address after the last one, with a receiver per pool.\<close>

definition pool_receiver :: "string \<Rightarrow> byte list \<Rightarrow> new_receiver" where
  "pool_receiver pool receiver = \<lparr>nr_pool = pool, nr_receiver_encoding = hex_string receiver,
     nr_receiver_fingerprint = receiver_fingerprint receiver\<rparr>"

definition prepare_allocation :: "('k, 'i) zcash_lib \<Rightarrow> 'k wallet_view \<Rightarrow> string option \<Rightarrow> string option \<Rightarrow> string option
    \<Rightarrow> string option \<Rightarrow> byte list option \<Rightarrow> fresh_allocation result" where
  "prepare_allocation lib view label memo message amount last_index =
     bind_result (derive_address_after lib view last_index) (\<lambda>derived.
     Inr \<lparr>fa_issued_address = \<lparr>na_unified_address = da_encoded derived, na_address_source = ''fresh'',
            na_diversifier_index_be = Some (da_diversifier_index_be derived),
            na_diversifier_bytes = Some (da_diversifier_index_be derived),
            na_request_label = label, na_request_memo = memo, na_request_message = message,
            na_requested_amount = amount\<rparr>,
          fa_receivers = [pool_receiver ''orchard'' (da_orchard_receiver derived),
                          pool_receiver ''ironwood'' (da_orchard_receiver derived),
                          pool_receiver ''sapling'' (da_sapling_receiver derived)]\<rparr>)"

definition mint_address :: "('k, 'i) zcash_lib \<Rightarrow> 'k payment_service \<Rightarrow> string option \<Rightarrow> string option \<Rightarrow> string option
    \<Rightarrow> string option \<Rightarrow> string result \<Rightarrow> (int \<times> string) db_op" where
  "mint_address lib service label memo message amount now =
     andThen (stamped now (allocate_fresh_address
       (prepare_allocation lib (ps_wallet_view service) label memo message amount))) (\<lambda>rec.
     ret (ir_address_id rec, ir_unified_address rec))"

text \<open>The trimmed return URL, checked when it is not empty.\<close>

definition accepted_return_url :: "uri_parser \<Rightarrow> 'k payment_service \<Rightarrow> string option \<Rightarrow> string option result" where
  "accepted_return_url parse service url =
     (case url of
        None \<Rightarrow> Inr None
      | Some value \<Rightarrow>
          if trim value = [] then Inr None
          else case validate_return_url parse (trim value) (ps_return_url_allowed_origins service) of
            Inl e \<Rightarrow> Inl (InvalidRequest e)
          | Inr _ \<Rightarrow> Inr (Some (trim value)))"

definition issue_payment_session :: "('k, 'i) zcash_lib \<Rightarrow> uri_parser \<Rightarrow> 'k payment_service \<Rightarrow> payment_session_request
    \<Rightarrow> string result \<Rightarrow> byte list \<Rightarrow> string result \<Rightarrow> payment_session_response db_op" where
  "issue_payment_session lib parse service request allocated_at random_bytes linked_at =
     (if pq_payment_source request \<noteq> ''zcash'' then
        raise (InvalidRequest (''payment_source must be '' @ [CHR 0x27] @ ''zcash'' @ [CHR 0x27]))
      else
        andThen (lift_result (accepted_return_url parse service (pq_return_url request))) (\<lambda>return_url.
        andThen (mint_address lib service (pq_label request) (pq_memo request) (pq_message request) (pq_amount request) allocated_at)
          (\<lambda>(address_id, address).
        let qr_text = build_qr_text address (pq_amount request) (pq_memo request) (pq_message request);
            payment_id = new_payment_id random_bytes in
        andThen (stamped linked_at (insert_payment_link payment_id address_id return_url)) (\<lambda>_.
        ret \<lparr>pr_address = address, pr_qr_text = qr_text, pr_payment_id = payment_id,
             pr_pay_url = pay_url service payment_id\<rparr>))))"

section \<open>Status\<close>

definition payment_status_of :: "'k payment_service \<Rightarrow> payment_link_record \<Rightarrow> payment_status_response" where
  "payment_status_of service link =
     (let amount = nonblank (lr_requested_amount link);
          request_amount = remaining_amount amount (lr_current_total_zat link) in
      \<lparr>pt_payment_id = lr_payment_id link, pt_address = lr_unified_address link,
       pt_qr_text = build_qr_text (lr_unified_address link) request_amount (lr_request_memo link) (lr_request_message link),
       pt_pay_url = pay_url service (lr_payment_id link), pt_label = lr_request_label link,
       pt_message = lr_request_message link, pt_amount = amount,
       pt_total_received = format_zat_as_zec (lr_current_total_zat link),
       pt_received_by_confirmations = map_option (\<lambda>required. format_zat_array
           (case lr_received_by_confirmations_zat link of Some a \<Rightarrow> a | None \<Rightarrow> replicate (required + 1) 0))
         (ps_required_confirmations service),
       pt_state_version = lr_state_version link, pt_status = payment_status_for amount (lr_current_total_zat link),
       pt_return_url = lr_return_url link, pt_created_at = lr_created_at link\<rparr>)"

definition payment_status_op :: "externals \<Rightarrow> 'k payment_service \<Rightarrow> string \<Rightarrow> payment_status_response db_op" where
  "payment_status_op ext service payment_id =
     (if \<not> is_payment_id payment_id then raise (NotFound ''unknown payment'')
      else andThen (reads (find_payment_link ext payment_id)) (\<lambda>found.
        case found of
          None \<Rightarrow> raise (NotFound ''unknown payment'')
        | Some link \<Rightarrow> ret (payment_status_of service link)))"

definition health_response_op :: "health_response db_op" where
  "health_response_op =
     andThen current_service_metadata (\<lambda>metadata.
     ret \<lparr>hr_ok = True, hr_current_sync_state = current_sync_state metadata,
          hr_detected_tip_height = nonzero_height (last_seen_tip_height metadata),
          hr_last_scanned_height = nonzero_height (last_scanned_height metadata)\<rparr>)"

section \<open>Simulated payments\<close>

definition simulated_txid :: "string option \<Rightarrow> byte list \<Rightarrow> string result" where
  "simulated_txid requested random_bytes =
     (case requested of
        Some t \<Rightarrow>
          let txid = trim t in
          if length txid \<noteq> 64 \<or> \<not> list_all is_ascii_hexdigit txid then Inl (InvalidRequest ''txid must be 64 hex characters'')
          else Inr (to_ascii_lowercase txid)
      | None \<Rightarrow> Inr (hex_string random_bytes))"

definition simulated_position :: "nat option \<Rightarrow> receipt_kind \<times> int \<times> int" where
  "simulated_position confirmations =
     (case confirmations of
        Some 0 \<Rightarrow> (Mempool, 0, 0)
      | Some n \<Rightarrow> let depth = min (int n) SIMULATED_TIP_HEIGHT in (Mined, SIMULATED_TIP_HEIGHT - depth + 1, depth)
      | None \<Rightarrow> (Mined, 1, SIMULATED_TIP_HEIGHT))"

definition simulated_uid :: "string \<Rightarrow> int \<Rightarrow> string" where
  "simulated_uid txid address_id = txid @ '':simulated:'' @ show_int address_id"

definition simulated_receipt :: "'k payment_service \<Rightarrow> int \<Rightarrow> int \<Rightarrow> string \<Rightarrow> nat option \<Rightarrow> string \<Rightarrow> attributed_receipt" where
  "simulated_receipt service address_id value_zat txid confirmations now =
     (case simulated_position confirmations of (kind, mined_height, depth) \<Rightarrow>
        \<lparr>sr_address_id = address_id, sr_txid_hex = txid, sr_pool = ''orchard'', sr_receipt_uid = simulated_uid txid address_id,
         sr_value_zat = value_zat, sr_mined_height = mined_height, sr_confirmation_depth = depth,
         sr_eligible_for_webhook = (ps_webhook_report_confirmations service \<le> depth), sr_receipt_kind = kind,
         sr_first_observed_at = now, sr_last_observed_at = now\<rparr>)"

definition positive_amount :: "string \<Rightarrow> int result" where
  "positive_amount text =
     (case parse_zec_amount text of
        Some v \<Rightarrow> if 0 < v then Inr v else Inl (InvalidRequest ''amount must be a positive ZEC decimal'')
      | None \<Rightarrow> Inl (InvalidRequest ''amount must be a positive ZEC decimal''))"

text \<open>The clock is read for the marker, for the receipt, for the totals and for the queue.\<close>

definition simulate_payment :: "externals \<Rightarrow> 'k payment_service \<Rightarrow> simulate_payment_request
    \<Rightarrow> string result \<Rightarrow> byte list \<Rightarrow> string result \<Rightarrow> string result \<Rightarrow> string result \<Rightarrow> simulate_payment_response db_op" where
  "simulate_payment ext service request marked_at random_bytes now applied_at queued_at =
     (if \<not> ps_dev_simulated_payments service then raise (NotFound ''simulated payments are disabled'')
      else
        andThen (lift_result (positive_amount (sq_amount request))) (\<lambda>value_zat.
        andThen (reads (find_issued_address (sq_address request))) (\<lambda>found.
        andThen (lift_result (case found of None \<Rightarrow> Inl (NotFound ''unknown address'') | Some r \<Rightarrow> Inr r)) (\<lambda>rec.
        andThen (stamped marked_at mark_simulated_data) (\<lambda>_.
        andThen (lift_result (simulated_txid (sq_txid request) random_bytes)) (\<lambda>txid.
        andThen (stamped now (\<lambda>now. stamped applied_at (apply_attributed_receipts
            [simulated_receipt service (ir_address_id rec) value_zat txid (sq_confirmations request) now]
            SIMULATED_TIP_HEIGHT u32_max))) (\<lambda>affected_ids.
        andThen (stamped queued_at (queue_webhook_deliveries_for_dirty_addresses ext affected_ids)) (\<lambda>_.
        andThen (reads (address_total_zat (ir_address_id rec))) (\<lambda>total_zat.
        ret \<lparr>sp_txid = txid,
             sp_total_received = format_zat_as_zec (case total_zat of Some t \<Rightarrow> t | None \<Rightarrow> 0)\<rparr>)))))))))"

end
