(* ===== verification/Payment_Issuing.thy ===== *)
theory Payment_Issuing
  imports Payment_Service
begin

text \<open>
  The addresses sessions issue: no other task touches the table of issued addresses, so each new address
  is derived at a later diversifier index than all before it.
\<close>

section \<open>Who writes issued addresses\<close>

fun issues :: "db_action \<Rightarrow> bool" where
  "issues (AllocateAddress prepare now) = True"
| "issues (InsertAddress n now) = True"
| "issues act = False"

lemma admits_all: "admits issued (\<lambda>u a. True) receipts"
  by (simp add: admits_def)

lemma keeps_issued:
  assumes "\<And>issued receivers. keeps (owned issued receivers (\<lambda>u a. True)) m" "m db = (r, db')"
  shows "db_issued_addresses db' = db_issued_addresses db"
  using keepsD [OF assms(1) _ assms(2), of "db_issued_addresses db" "db_receivers db"] by (simp add: owned_def list_all_iff)

lemma same_issued:
  assumes "\<And>I. keeps (\<lambda>s. db_issued_addresses s = I) m" "m db = (r, db')"
  shows "db_issued_addresses db' = db_issued_addresses db"
  by (rule keepsD [OF assms(1) _ assms(2)]) simp

lemma insert_receivers_issued:
  "for_each insert_receiver_row rows u db = (r, d) \<Longrightarrow> db_issued_addresses d = db_issued_addresses db"
proof -
  have "keeps (\<lambda>s. db_issued_addresses s = I) (insert_receiver_row row v)" for I row v
    by (auto simp: keeps_def insert_receiver_row_def split: if_splits)
  then have each: "keeps (\<lambda>s. db_issued_addresses s = I) (for_each insert_receiver_row rows u)" for I by (rule keeps_for_each)
  show "for_each insert_receiver_row rows u db = (r, d) \<Longrightarrow> db_issued_addresses d = db_issued_addresses db"
    by (rule same_issued [OF each])
qed

lemma in_tx_state: "in_tx m s = (r, t) \<Longrightarrow> t = s \<or> m s = (r, t)"
  by (auto simp: in_tx_def split: prod.splits sum.splits)

lemma open_issued:
  assumes "initialize_schema db = (r, db')"
  shows "db_issued_addresses db' = db_issued_addresses db"
proof -
  have copy: "keeps (\<lambda>s. db_issued_addresses s = I) copy_orchard_receivers_to_ironwood" for I
    unfolding keeps_def copy_orchard_receivers_to_ironwood_def
    by (intro allI impI, drule in_tx_state) (auto dest: insert_receivers_issued)
  have "keeps (\<lambda>s. db_issued_addresses s = I) initialize_schema" for I
    unfolding initialize_schema_def bump_schema_version_def by (intro keeps_tx keeps_intros keeps_writes copy) simp
  from same_issued [OF this assms] show ?thesis .
qed

lemma queue_issued:
  assumes "queue_webhook_deliveries_for_dirty_addresses ext ids now db = (r, db')"
  shows "db_issued_addresses db' = db_issued_addresses db"
  using queue_dirty_run [OF assms] by (auto dest: keeps_issued [OF owned_queue])

lemma task_keeps_issued:
  assumes run: "db_task ext act db = (r, db')" and "\<not> issues act"
  shows "db_issued_addresses db' = db_issued_addresses db"
proof (cases act)
  case OpenDatabase
  with run show ?thesis by (simp add: open_issued)
next
  case (StoreIdentity i)
  with run obtain q where "store_first_identity i db = (q, db')" by (auto dest: discard_run)
  then show ?thesis
    by (auto simp: store_first_identity_def insert_wallet_identity_def split: if_splits option.splits app_error.splits)
next
  case (StoreMetadata cfg)
  with run obtain q where "store_fresh_metadata cfg db = (q, db')" by (auto dest: discard_run)
  then show ?thesis
    by (cases "db_metadata db") (auto simp: store_fresh_metadata_def insert_service_metadata_def split: if_splits app_error.splits)
next
  case (ApplyRequired required)
  with run show ?thesis by (auto simp: apply_required_confirmations_def Let_def)
next
  case (RecordSync s reason tip scanned now)
  with run obtain q where "record_sync_status s reason tip scanned now db = (q, db')" by (auto dest: discard_run)
  then show ?thesis by (auto simp: record_sync_status_def in_tx_def Let_def split: option.splits if_splits)
next
  case (RecordReorg a b c d e f)
  with run show ?thesis by (auto simp: record_reorg_event_def in_tx_def split: option.splits)
next
  case (InsertReceivers a rs now)
  with run show ?thesis by (auto simp: insert_address_receivers_def dest!: in_tx_state insert_receivers_issued)
next
  case (InsertLink pid a url now)
  with run show ?thesis by (auto simp: insert_payment_link_def split: if_splits)
next
  case (ApplyReceipts rs tip fin now)
  with run show ?thesis by (auto dest!: discard_run keeps_issued [OF owned_apply [OF admits_all]])
next
  case (AdvanceMaturity tip reports fin now)
  with run show ?thesis by (auto dest!: discard_run keeps_issued [OF owned_advance])
next
  case (ReconcileRange rs lo hi tip fin now)
  with run show ?thesis by (auto dest!: discard_run keeps_issued [OF owned_reconcile [OF admits_all]])
next
  case (RevokeAboveTip tip fin now)
  with run show ?thesis by (auto dest!: discard_run keeps_issued [OF owned_above_tip])
next
  case (ReconcileMempool txids rs now tip fin reports miss)
  with run show ?thesis by (auto dest!: discard_run keeps_issued [OF owned_mempool [OF admits_all]])
next
  case (QueueDirty ids now)
  with run show ?thesis by (auto dest!: discard_run queue_issued)
next
  case (QueueAllDirty now)
  with run show ?thesis
    by (auto dest!: discard_run queue_issued simp: queue_all_dirty_webhook_deliveries_def andThen_def reads_def)
qed (use assms in \<open>auto simp: touch_wallet_identity_validation_def mark_simulated_data_def\<close>)

lemma recovered_issued: "db_issued_addresses (fold (\<lambda>i. update_delivery i f) ids db) = db_issued_addresses db"
  by (induction ids arbitrary: db) simp_all

lemma attempt_issued: "insert_attempt i at h b err dur db = (r, db') \<Longrightarrow> db_issued_addresses db' = db_issued_addresses db"
  by (auto simp: insert_attempt_def split: if_splits)

lemma record_attempt_issued:
  "record_attempt st i at nx h b err dur db = (r, db') \<Longrightarrow> db_issued_addresses db' = db_issued_addresses db"
  by (drule record_attempt_parts) (auto dest: attempt_issued)

lemma success_issued:
  assumes "record_webhook_delivery_success ext i at st body dur now db = (r, db')"
  shows "db_issued_addresses db' = db_issued_addresses db"
proof -
  have queue: "keeps (\<lambda>s. db_issued_addresses s = I) (queue_webhook_deliveries_in_tx ext ids now)" for I ids
    by (rule queue_keeps) (simp_all add: update_totals_def insert_delivery_def)
  have attempt: "keeps (\<lambda>s. db_issued_addresses s = I) (insert_attempt i at h b err dur)" for I h b err
    by (auto simp: keeps_def dest: attempt_issued)
  have "keeps (\<lambda>s. db_issued_addresses s = I) (record_webhook_delivery_success ext i at st body dur now)" for I
    unfolding record_webhook_delivery_success_def
  proof (rule keeps_tx)
    let ?m = "\<lambda>d. andThen (writes (update_delivery i (finish_row Succeeded None (Some st) (Some body) at))) (\<lambda>_.
         andThen (insert_attempt i at (Some st) (Some body) None dur) (\<lambda>_.
         andThen (reads (\<lambda>s. acked_delivery s (wd_address_id d))) (\<lambda>acked.
           if (case acked of None \<Rightarrow> False | Some x \<Rightarrow> i < wd_delivery_id x) then ret ()
           else andThen (writes (update_totals (wd_address_id d) (acknowledge d at))) (\<lambda>_.
                andThen (queue_webhook_deliveries_in_tx ext [wd_address_id d] now) (\<lambda>_. ret ())))))"
    have "keeps (\<lambda>s. db_issued_addresses s = I) (?m d)" for d
      by (intro keeps_if keeps_intros keeps_writes attempt queue) (simp_all add: update_totals_def)
    then show "keeps (\<lambda>s. db_issued_addresses s = I) (\<lambda>db. case find_key wd_delivery_id i (db_deliveries db) of
        None \<Rightarrow> (Inl (Database QueryReturnedNoRows), db) | Some d \<Rightarrow> ?m d db)"
      by (auto simp: keeps_def split: option.splits)
  qed
  from same_issued [OF this assms] show ?thesis .
qed

lemma outcome_issued:
  "record_outcome ext i at outcome db = (r, db') \<Longrightarrow> db_issued_addresses db' = db_issued_addresses db"
  by (cases outcome) (auto simp: record_webhook_delivery_retry_def record_webhook_delivery_permanent_failure_def
      dest: success_issued record_attempt_issued)

fun issuing :: "service_action \<Rightarrow> bool" where
  "issuing (Db act) = issues act"
| "issuing act = False"

lemma step_keeps_issued:
  assumes "service_step ext act s = Some s'" "\<not> issuing act"
  shows "db_issued_addresses (sv_db s') = db_issued_addresses (sv_db s)"
proof (cases act)
  case (Db a)
  obtain r db' where run: "db_task ext a (sv_db s) = (r, db')" by fastforce
  with Db assms task_keeps_issued [OF run] show ?thesis by (auto split: if_splits)
next
  case (Recover now)
  with assms show ?thesis
    by (auto simp: recover_interrupted_webhook_deliveries_def Let_def recovered_issued split: if_splits)
next
  case (Claim now)
  with assms show ?thesis
    by (auto simp: claim_ready_webhook_delivery_def split: if_splits option.splits prod.splits sum.splits)
next
  case (Finish at outcome)
  with assms obtain i r db' where "record_outcome ext i at outcome (sv_db s) = (r, db')" "sv_db s' = db'"
    by (auto split: option.splits) (metis prod.collapse)
  then show ?thesis by (simp add: outcome_issued)
qed (use assms in auto)

section \<open>Each address is derived after the last\<close>

definition index_of :: "('k, 'i) zcash_lib \<Rightarrow> issued_address_row \<Rightarrow> nat" where
  "index_of lib r = (case ia_diversifier_index_be r of Some b \<Rightarrow> zl_index_of_bytes lib b | None \<Rightarrow> 0)"

definition issued_in_order :: "('k, 'i) zcash_lib \<Rightarrow> app_db \<Rightarrow> bool" where
  "issued_in_order lib db \<longleftrightarrow>
     list_all (\<lambda>r. ia_diversifier_index_be r \<noteq> None) (db_issued_addresses db)
     \<and> sorted_wrt (<) (map ia_address_id (db_issued_addresses db))
     \<and> sorted_wrt (<) (map (index_of lib) (db_issued_addresses db))"

lemma order_same:
  "db_issued_addresses db' = db_issued_addresses db \<Longrightarrow> issued_in_order lib db' = issued_in_order lib db"
  by (simp add: issued_in_order_def)

lemma sorted_last:
  assumes "sorted_wrt (<) (map (f :: 'a \<Rightarrow> 'b :: linorder) xs)" "x \<in> set xs"
  shows "f x \<le> f (last xs)"
  using assms by (induction xs rule: rev_induct) (auto simp: sorted_wrt_append)

lemma latest_is_last:
  assumes "issued_in_order lib db" "db_issued_addresses db \<noteq> []"
  shows "latest_diversifier_index_be db = ia_diversifier_index_be (last (db_issued_addresses db))"
proof -
  let ?rows = "db_issued_addresses db"
  from assms(1) have all: "filter (\<lambda>r. ia_diversifier_index_be r \<noteq> None) ?rows = ?rows"
    by (simp add: issued_in_order_def list_all_iff)
  from assms(2) obtain r where r: "last_by ia_address_id ?rows = Some r" by (metis last_by_None not_None_eq)
  have in_rows: "r \<in> set ?rows" "last ?rows \<in> set ?rows" using last_by_Some [OF r] assms(2) by simp_all
  have sorted: "sorted_wrt (<) (map ia_address_id ?rows)" using assms(1) by (simp add: issued_in_order_def)
  have "ia_address_id r = ia_address_id (last ?rows)"
    using last_by_Some(2) [OF r in_rows(2)] sorted_last [OF sorted in_rows(1)] by simp
  moreover have "distinct (map ia_address_id ?rows)" using sorted by (simp add: strict_sorted_iff)
  ultimately have "r = last ?rows" using in_rows key_unique by metis
  with r all show ?thesis by (simp add: latest_diversifier_index_be_def)
qed

lemma allocate_issued:
  assumes "allocate_fresh_address prepare now db = (Inr rec, db')"
  shows "\<exists>alloc. prepare (latest_diversifier_index_be db) = Inr alloc
    \<and> db_issued_addresses db' = db_issued_addresses db @
        [issued_row (next_rowid (map ia_address_id (db_issued_addresses db))) now (fa_issued_address alloc)]"
proof -
  from assms obtain alloc i d1 d2 where run: "Inr alloc = prepare (latest_diversifier_index_be db)"
    "insert_issued_row now (fa_issued_address alloc) db = (Inr i, d1)" "insert_totals_row i now d1 = (Inr (), d2)"
    "for_each insert_receiver_row (map (receiver_of i now) (fa_receivers alloc)) () d2 = (Inr (), db')"
    by (auto simp: allocate_fresh_address_def in_tx_Inr andThen_Inr)
  from run(2,3) insert_receivers_issued [OF run(4)] have "db_issued_addresses db' = db_issued_addresses db @
        [issued_row (next_rowid (map ia_address_id (db_issued_addresses db))) now (fa_issued_address alloc)]"
    by (auto simp: insert_issued_row_def insert_totals_row_def Let_def split: if_splits)
  with run(1) show ?thesis by metis
qed

lemma allocate_in_order:
  assumes lib: "diversifiers_documented lib" and order: "issued_in_order lib db"
    and run: "allocate_fresh_address (prepare_allocation lib view label memo message amount) now db = (Inr rec, db')"
  shows "issued_in_order lib db'"
proof -
  let ?rows = "db_issued_addresses db" and ?i = "next_rowid (map ia_address_id (db_issued_addresses db))"
  from allocate_issued [OF run] obtain alloc where
    prep: "prepare_allocation lib view label memo message amount (latest_diversifier_index_be db) = Inr alloc"
    and rows: "db_issued_addresses db' = ?rows @ [issued_row ?i now (fa_issued_address alloc)]" by blast
  from prep obtain d where d: "derive_address_after lib view (latest_diversifier_index_be db) = Inr d"
    and index: "na_diversifier_index_be (fa_issued_address alloc) = Some (da_diversifier_index_be d)"
    by (auto simp: prepare_allocation_def bind_result_Inr)
  let ?row = "issued_row ?i now (fa_issued_address alloc)"
  have "index_of lib r < index_of lib ?row" if r: "r \<in> set ?rows" for r
  proof -
    from r have "?rows \<noteq> []" by auto
    then have last_in: "last ?rows \<in> set ?rows" by simp
    with order obtain b where b: "ia_diversifier_index_be (last ?rows) = Some b"
      by (auto simp: issued_in_order_def list_all_iff)
    with latest_is_last [OF order \<open>?rows \<noteq> []\<close>] d derive_after_advances [OF lib] have
      "zl_index_of_bytes lib b < zl_index_of_bytes lib (da_diversifier_index_be d)" by metis
    then have "index_of lib (last ?rows) < index_of lib ?row" using b index by (simp add: index_of_def issued_row_def)
    moreover have "index_of lib r \<le> index_of lib (last ?rows)"
      using order r by (intro sorted_last) (simp_all add: issued_in_order_def)
    ultimately show ?thesis by simp
  qed
  moreover have "ia_address_id r < ia_address_id ?row" if "r \<in> set ?rows" for r
    using that next_rowid_greater [of "ia_address_id r"] by (simp add: issued_row_def)
  moreover have "ia_diversifier_index_be ?row \<noteq> None" using index by (simp add: issued_row_def)
  ultimately show ?thesis using order by (auto simp: issued_in_order_def rows sorted_wrt_append)
qed

text \<open>A run in which addresses are issued by sessions only.\<close>

definition minted :: "('k, 'i) zcash_lib \<Rightarrow> 'k wallet_view \<Rightarrow> service_action \<Rightarrow> bool" where
  "minted lib view act \<longleftrightarrow> issuing act \<longrightarrow>
     (\<exists>label memo message amount now. act = Db (AllocateAddress (prepare_allocation lib view label memo message amount) now))"

lemma step_in_order:
  assumes "diversifiers_documented lib" "issued_in_order lib (sv_db s)" "minted lib view act" "service_step ext act s = Some s'"
  shows "issued_in_order lib (sv_db s')"
proof (cases "issuing act")
  case False
  from order_same [OF step_keeps_issued [OF assms(4) this]] assms(2) show ?thesis by blast
next
  case True
  with assms(3) obtain label memo message amount now where
    act: "act = Db (AllocateAddress (prepare_allocation lib view label memo message amount) now)" by (auto simp: minted_def)
  let ?m = "allocate_fresh_address (prepare_allocation lib view label memo message amount) now"
  obtain r db' where run: "?m (sv_db s) = (r, db')" by fastforce
  then have "snd (discard ?m (sv_db s)) = db'" by (cases r) (simp_all add: discard_def andThen_def ret_def)
  with assms(4) have db': "sv_db s' = db'" unfolding act by auto
  show ?thesis
  proof (cases r)
    case (Inl e)
    with run have "db' = sv_db s" by (simp add: allocate_fresh_address_def in_tx_Inl)
    with assms(2) db' show ?thesis by simp
  next
    case (Inr rec)
    with allocate_in_order [OF assms(1,2)] run db' show ?thesis by blast
  qed
qed

lemma run_in_order:
  assumes "diversifiers_documented lib"
  shows "run_service ext acts s = Some s' \<Longrightarrow> issued_in_order lib (sv_db s) \<Longrightarrow> list_all (minted lib view) acts \<Longrightarrow>
    issued_in_order lib (sv_db s')"
proof (induction acts arbitrary: s)
  case Nil
  then show ?case by simp
next
  case (Cons act acts)
  then obtain t where t: "service_step ext act s = Some t" "run_service ext acts t = Some s'"
    by (auto simp: bind_eq_Some_conv)
  have "issued_in_order lib (sv_db t)" using step_in_order [OF assms Cons.prems(2) _ t(1), where view = view] Cons.prems(3) by simp
  with Cons.IH [OF t(2)] Cons.prems(3) show ?case by simp
qed

end
