(* ===== verification/Payment_Guarantees.thy ===== *)
theory Payment_Guarantees
  imports Payment_Issuing
begin

text \<open>
  What the payment service promises its callers: the payment URI can be read back, a session can be
  followed by its link, addresses come from increasing diversifier indices, and its requests touch the
  database only by steps of the service.
\<close>

section \<open>Reading a payment URI\<close>

text \<open>A reader of the URI: the scheme, the address up to the question mark, then \<^verbatim>\<open>key=value\<close> pairs.\<close>

definition read_param :: "string \<Rightarrow> string \<times> string" where
  "read_param p = (case split_once (CHR ''='') p of Some kv \<Rightarrow> kv | None \<Rightarrow> (p, []))"

definition read_payment_uri :: "string \<Rightarrow> (string \<times> (string \<times> string) list) option" where
  "read_payment_uri uri =
     (if take 6 uri = ''zcash:'' then
        (case split_once (CHR ''?'') (drop 6 uri) of
           None \<Rightarrow> Some (drop 6 uri, [])
         | Some (address, query) \<Rightarrow> Some (address, map read_param (split_char (CHR ''&'') query)))
      else None)"

definition query_pair :: "string \<Rightarrow> (string \<Rightarrow> string) \<Rightarrow> string option \<Rightarrow> (string \<times> string) list" where
  "query_pair key encode field = (case nonblank field of None \<Rightarrow> [] | Some v \<Rightarrow> [(key, encode v)])"

definition show_pair :: "string \<times> string \<Rightarrow> string" where
  "show_pair kv = fst kv @ ''='' @ snd kv"

lemma query_part_pairs: "query_part key encode field = map show_pair (query_pair key encode field)"
  by (simp add: query_part_def query_pair_def nonblank_def show_pair_def split: option.split)

definition query_pairs :: "string option \<Rightarrow> string option \<Rightarrow> string option \<Rightarrow> (string \<times> string) list" where
  "query_pairs amount memo message = query_pair ''amount'' encode_uri_component amount
     @ query_pair ''memo'' (\<lambda>memo. base64url_unpadded (as_bytes memo)) memo
     @ query_pair ''message'' encode_uri_component message"

lemma build_qr_text_pairs:
  "build_qr_text address amount memo message =
     (if query_pairs amount memo message = [] then ''zcash:'' @ address
      else ''zcash:'' @ address @ ''?'' @ join_with ''&'' (map show_pair (query_pairs amount memo message)))"
  by (simp add: build_qr_text_def query_part_pairs query_pairs_def Let_def)

lemma unreserved_not: "\<not> is_unreserved (CHR ''&'')" "\<not> is_unreserved (CHR ''='')" "\<not> is_b64_char (CHR ''&'')"
  by code_simp+

lemma pairs_clean:
  assumes "kv \<in> set (query_pairs amount memo message)"
  shows "CHR ''&'' \<notin> set (show_pair kv)" "CHR ''='' \<notin> set (fst kv)"
proof -
  have uri: "CHR ''&'' \<notin> set (encode_uri_component v)" for v
    using encode_uri_component_chars [of v] unreserved_not(1) by (auto simp: list_all_iff)
  have b64: "CHR ''&'' \<notin> set (base64url_unpadded bs)" for bs
    using base64url_chars [of bs] unreserved_not(3) by (auto simp: list_all_iff)
  show "CHR ''&'' \<notin> set (show_pair kv)" "CHR ''='' \<notin> set (fst kv)"
    using assms uri b64 by (auto simp: query_pairs_def query_pair_def show_pair_def split: option.splits)
qed

lemma read_show_pair: "CHR ''='' \<notin> set (fst kv) \<Longrightarrow> read_param (show_pair kv) = kv"
  by (cases kv) (simp add: read_param_def show_pair_def split_once_append)

lemma read_built:
  assumes "CHR ''?'' \<notin> set address"
  shows "read_payment_uri (build_qr_text address amount memo message) = Some (address, query_pairs amount memo message)"
proof (cases "query_pairs amount memo message = []")
  case True
  have "split_once (CHR ''?'') address = None" using assms by (simp add: split_once_None)
  with True show ?thesis by (simp add: build_qr_text_pairs read_payment_uri_def)
next
  case False
  let ?ps = "query_pairs amount memo message"
  have "split_char (CHR ''&'') (join_with ''&'' (map show_pair ?ps)) = map show_pair ?ps"
    by (rule split_char_join) (use False pairs_clean(1) in auto)
  moreover have "map (\<lambda>kv. read_param (show_pair kv)) ?ps = ?ps"
    by (rule map_idI) (rule read_show_pair, rule pairs_clean(2))
  moreover have "split_once (CHR ''?'') (address @ CHR ''?'' # q) = Some (address, q)" for q
    using assms by (rule split_once_append)
  ultimately show ?thesis using False by (simp add: build_qr_text_pairs read_payment_uri_def comp_def)
qed

lemma pair_lookup:
  "map_of (query_pairs amount memo message) ''amount'' = map_option encode_uri_component (nonblank amount)"
  "map_of (query_pairs amount memo message) ''memo'' = map_option (\<lambda>m. base64url_unpadded (as_bytes m)) (nonblank memo)"
  "map_of (query_pairs amount memo message) ''message'' = map_option encode_uri_component (nonblank message)"
  by (auto simp: query_pairs_def query_pair_def map_add_def split: option.split)

section \<open>A session and its link\<close>

lemma stamped_Inr: "stamped now m db = (Inr x, db') \<longleftrightarrow> (\<exists>t. now = Inr t \<and> m t db = (Inr x, db'))"
  by (auto simp: stamped_def andThen_Inr)

lemma session_run:
  assumes "issue_payment_session lib parse service request allocated_at random_bytes linked_at db = (Inr response, db')"
  obtains url now rec d linked where "accepted_return_url parse service (pq_return_url request) = Inr url"
    "allocate_fresh_address (prepare_allocation lib (ps_wallet_view service) (pq_label request) (pq_memo request)
        (pq_message request) (pq_amount request)) now db = (Inr rec, d)"
    "insert_payment_link (new_payment_id random_bytes) (ir_address_id rec) url linked d = (Inr (), db')"
    "response = \<lparr>pr_address = ir_unified_address rec,
        pr_qr_text = build_qr_text (ir_unified_address rec) (pq_amount request) (pq_memo request) (pq_message request),
        pr_payment_id = new_payment_id random_bytes, pr_pay_url = pay_url service (new_payment_id random_bytes)\<rparr>"
proof -
  from assms obtain url now rec d linked where "Inr url = accepted_return_url parse service (pq_return_url request)"
    "allocate_fresh_address (prepare_allocation lib (ps_wallet_view service) (pq_label request) (pq_memo request)
        (pq_message request) (pq_amount request)) now db = (Inr rec, d)"
    "insert_payment_link (new_payment_id random_bytes) (ir_address_id rec) url linked d = (Inr (), db')"
    "response = \<lparr>pr_address = ir_unified_address rec,
        pr_qr_text = build_qr_text (ir_unified_address rec) (pq_amount request) (pq_memo request) (pq_message request),
        pr_payment_id = new_payment_id random_bytes, pr_pay_url = pay_url service (new_payment_id random_bytes)\<rparr>"
    by (auto simp: issue_payment_session_def mint_address_def andThen_Inr stamped_Inr Let_def split: if_splits prod.splits)
  with that show thesis by metis
qed

lemma prepared_fields:
  assumes "prepare_allocation lib view label memo message amount last_index = Inr alloc"
  shows "na_request_label (fa_issued_address alloc) = label" "na_request_memo (fa_issued_address alloc) = memo"
    "na_request_message (fa_issued_address alloc) = message" "na_requested_amount (fa_issued_address alloc) = amount"
  using assms by (auto simp: prepare_allocation_def bind_result_Inr)

lemma remaining_nothing: "remaining_amount amount 0 = amount"
  by (simp add: remaining_amount_def split: option.split)

lemma build_qr_nonblank: "build_qr_text address (nonblank amount) memo message = build_qr_text address amount memo message"
  by (auto simp: build_qr_text_def query_part_def nonblank_def Let_def split: option.split)

lemma new_payment_id_ok: "length random_bytes = 16 \<Longrightarrow> is_payment_id (new_payment_id random_bytes)"
  by (simp add: is_payment_id_def new_payment_id_def length_hex_string hex_string_lower)

lemma session_status:
  assumes ok: "addresses_ok db" and bytes: "length random_bytes = 16"
    and run: "issue_payment_session lib parse service request allocated_at random_bytes linked_at db = (Inr response, db')"
  obtains status where "payment_status_op ext service (pr_payment_id response) db' = (Inr status, db')"
    "pt_address status = pr_address response" "pt_qr_text status = pr_qr_text response" "pt_pay_url status = pr_pay_url response"
    "pt_label status = pq_label request" "pt_message status = pq_message request" "pt_amount status = nonblank (pq_amount request)"
    "accepted_return_url parse service (pq_return_url request) = Inr (pt_return_url status)"
    "pt_total_received status = format_zat_as_zec 0" "pt_status status = payment_status_for (nonblank (pq_amount request)) 0"
proof (rule session_run [OF run])
  fix url now rec d linked
  assume url: "accepted_return_url parse service (pq_return_url request) = Inr url"
    and alloc: "allocate_fresh_address (prepare_allocation lib (ps_wallet_view service) (pq_label request) (pq_memo request)
        (pq_message request) (pq_amount request)) now db = (Inr rec, d)"
    and link: "insert_payment_link (new_payment_id random_bytes) (ir_address_id rec) url linked d = (Inr (), db')"
    and response: "response = \<lparr>pr_address = ir_unified_address rec,
        pr_qr_text = build_qr_text (ir_unified_address rec) (pq_amount request) (pq_memo request) (pq_message request),
        pr_payment_id = new_payment_id random_bytes, pr_pay_url = pay_url service (new_payment_id random_bytes)\<rparr>"
  from allocate_run [OF ok alloc] obtain a i new where
    prep: "prepare_allocation lib (ps_wallet_view service) (pq_label request) (pq_memo request)
        (pq_message request) (pq_amount request) (latest_diversifier_index_be db) = Inr a"
    and rec: "rec = record_of_row (issued_row i now (fa_issued_address a))"
    and d: "d = add_receivers new (add_address (issued_row i now (fa_issued_address a)) (clean_totals i now) db)"
    and ok': "addresses_ok d" by metis
  from payment_link_found [OF ok' link, of ext] obtain r t where
    r: "r \<in> set (db_issued_addresses d)" "ia_address_id r = ir_address_id rec"
    and t: "t \<in> set (db_totals d)" "at_address_id t = ir_address_id rec"
    and found: "find_payment_link ext (new_payment_id random_bytes) db' = Some (link_record ext
      \<lparr>pl_payment_id = new_payment_id random_bytes, pl_address_id = ir_address_id rec, pl_return_url = url, pl_created_at = linked\<rparr> r t)"
    by metis
  have ids: "distinct (map ia_address_id (db_issued_addresses d))" "distinct (map at_address_id (db_totals d))"
    using ok' unfolding addresses_ok_def by metis+
  have id: "ir_address_id rec = i" by (simp add: rec record_of_row_def issued_row_def)
  have "r = issued_row i now (fa_issued_address a)"
    by (rule key_unique [OF ids(1) r(1)]) (use r(2) id in \<open>simp_all add: d issued_row_def\<close>)
  moreover have "t = clean_totals i now"
    by (rule key_unique [OF ids(2) t(1)]) (use t(2) id in \<open>simp_all add: d clean_totals_def\<close>)
  moreover note fields = prepared_fields [OF prep]
  ultimately show thesis
    using that [of "payment_status_of service (link_record ext
      \<lparr>pl_payment_id = new_payment_id random_bytes, pl_address_id = ir_address_id rec, pl_return_url = url, pl_created_at = linked\<rparr> r t)"]
      found new_payment_id_ok [OF bytes] url
    by (simp add: payment_status_op_def andThen_def reads_def response payment_status_of_def Let_def link_record_def
        clean_totals_def issued_row_def rec record_of_row_def fields remaining_nothing build_qr_nonblank ret_def)
qed

section \<open>Requests as steps of the service\<close>

text \<open>A simulated uid carries its address; a receipt stored under one belongs to that address.\<close>

definition sim_owner :: "string \<Rightarrow> int \<Rightarrow> bool" where
  "sim_owner uid a \<longleftrightarrow> (\<forall>txid b. uid = simulated_uid txid b \<longrightarrow> a = b)"

definition simulated_owned :: "app_db \<Rightarrow> bool" where
  "simulated_owned db \<longleftrightarrow> list_all (\<lambda>r. sim_owner (rr_receipt_uid r) (rr_address_id r)) (db_receipts db)"

lemma colon_not_in_int: "CHR '':'' \<notin> set (show_int i)"
  using show_int_chars [of "CHR '':''" i] by (auto simp: is_ascii_digit_def)

lemma simulated_uid_inject:
  assumes "simulated_uid t a = simulated_uid u b"
  shows "a = b"
proof -
  have suffix: "takeWhile (\<lambda>c. c \<noteq> CHR '':'') (rev (simulated_uid v i)) = rev (show_int i)" for v i
    using colon_not_in_int [of i] by (auto simp: simulated_uid_def takeWhile_append)
  from assms suffix have "rev (show_int a) = rev (show_int b)" by metis
  then show ?thesis by simp
qed

lemma sim_owner_uid: "sim_owner (simulated_uid txid a) b \<longleftrightarrow> b = a"
  unfolding sim_owner_def using simulated_uid_inject by metis

datatype payment_call =
    Session payment_session_request "string result" "byte list" "string result"
  | Simulation simulate_payment_request "string result" "byte list" "string result" "string result" "string result"
  | Status string
  | Health

fun serve :: "externals \<Rightarrow> ('k, 'i) zcash_lib \<Rightarrow> uri_parser \<Rightarrow> 'k payment_service \<Rightarrow> payment_call \<Rightarrow> unit db_op" where
  "serve ext lib parse service (Session request allocated_at random_bytes linked_at) =
     discard (issue_payment_session lib parse service request allocated_at random_bytes linked_at)"
| "serve ext lib parse service (Simulation request marked_at random_bytes now applied_at queued_at) =
     discard (simulate_payment ext service request marked_at random_bytes now applied_at queued_at)"
| "serve ext lib parse service (Status payment_id) = discard (payment_status_op ext service payment_id)"
| "serve ext lib parse service Health = discard health_response_op"

text \<open>What is kept: the database was reached by steps, and the simulated receipts are where their uid says.\<close>

definition stepped :: "externals \<Rightarrow> app_db \<Rightarrow> app_db \<Rightarrow> bool" where
  "stepped ext db0 db \<longleftrightarrow> db_steps ext db0 db \<and> simulated_owned db"

lemma keeps_task:
  assumes "\<And>db. snd (db_task ext act db) = snd (m db)"
    and "\<And>db. simulated_owned db \<Longrightarrow> action_ok db act"
    and "keeps simulated_owned m"
  shows "keeps (stepped ext db0) m"
  unfolding keeps_def
proof (intro allI impI)
  fix db r db'
  assume db: "stepped ext db0 db" and run: "m db = (r, db')"
  then have "db_steps ext db0 db" "simulated_owned db" by (simp_all add: stepped_def)
  then have "db_steps ext db0 (snd (db_task ext act db))" using assms(2) db_steps_one db_steps_trans by blast
  with run have "db_steps ext db0 db'" by (simp add: assms(1))
  moreover have "simulated_owned db'" using keepsD [OF assms(3) _ run] db by (simp add: stepped_def)
  ultimately show "stepped ext db0 db'" by (simp add: stepped_def)
qed

lemma keeps_same_receipts:
  assumes "\<And>R. keeps (\<lambda>s. db_receipts s = R) m"
  shows "keeps simulated_owned m"
  unfolding keeps_def
proof (intro allI impI)
  fix db r db'
  assume db: "simulated_owned db" and run: "m db = (r, db')"
  have "db_receipts db' = db_receipts db" by (rule keepsD [OF assms _ run]) simp
  with db show "simulated_owned db'" by (simp add: simulated_owned_def)
qed

lemma snd_discarded: "snd (discard m db) = snd (m db)"
  by (simp add: discard_def andThen_def ret_def split: prod.split sum.split)

lemma keeps_discard: "keeps P m \<Longrightarrow> keeps P (discard m)"
  unfolding discard_def by (intro keeps_intros)

lemma keeps_stamped: "(\<And>t. keeps P (m t)) \<Longrightarrow> keeps P (stamped now m)"
  unfolding stamped_def by (intro keeps_intros)

lemma stepped_allocate: "keeps (stepped ext db0) (allocate_fresh_address prepare now)"
proof (rule keeps_task [where act = "AllocateAddress prepare now"])
  have row: "keeps (\<lambda>s. db_receipts s = R) (insert_issued_row now n)" for R n
    by (auto simp: keeps_def insert_issued_row_def Let_def split: if_splits)
  have totals: "keeps (\<lambda>s. db_receipts s = R) (insert_totals_row i now)" for R i
    by (auto simp: keeps_def insert_totals_row_def split: if_splits)
  have receiver: "keeps (\<lambda>s. db_receipts s = R) (insert_receiver_row r u)" for R r u
    by (auto simp: keeps_def insert_receiver_row_def split: if_splits)
  show "keeps simulated_owned (allocate_fresh_address prepare now)"
    unfolding allocate_fresh_address_def
    by (rule keeps_same_receipts) (intro keeps_tx keeps_intros keeps_for_each row totals receiver)
qed (simp_all add: snd_discarded)

lemma stepped_link: "keeps (stepped ext db0) (insert_payment_link pid a url now)"
proof (rule keeps_task [where act = "InsertLink pid a url now"])
  show "keeps simulated_owned (insert_payment_link pid a url now)"
    by (rule keeps_same_receipts) (auto simp: keeps_def insert_payment_link_def split: if_splits)
qed simp_all

lemma stepped_mark: "keeps (stepped ext db0) (mark_simulated_data now)"
proof (rule keeps_task [where act = "MarkSimulated now"])
  show "keeps simulated_owned (mark_simulated_data now)"
    by (rule keeps_same_receipts) (auto simp: keeps_def mark_simulated_data_def)
qed simp_all

lemma stepped_queue: "keeps (stepped ext db0) (queue_webhook_deliveries_for_dirty_addresses ext ids now)"
proof (rule keeps_task [where act = "QueueDirty ids now"])
  have "keeps (\<lambda>s. db_receipts s = R) (queue_webhook_deliveries_in_tx ext ids now)" for R
    by (rule queue_keeps) (simp_all add: update_totals_def insert_delivery_def)
  then have "keeps (\<lambda>s. db_receipts s = R) (queue_webhook_deliveries_for_dirty_addresses ext ids now)" for R
    unfolding queue_webhook_deliveries_for_dirty_addresses_def by (intro keeps_if keeps_tx keeps_intros)
  then show "keeps simulated_owned (queue_webhook_deliveries_for_dirty_addresses ext ids now)" by (rule keeps_same_receipts)
qed (simp_all add: snd_discarded)

lemma simulated_receipt_fields:
  "sr_receipt_uid (simulated_receipt service a v txid n now) = simulated_uid txid a"
  "sr_address_id (simulated_receipt service a v txid n now) = a"
  by (simp_all add: simulated_receipt_def split: prod.split)

lemma stepped_simulated:
  "keeps (stepped ext db0) (apply_attributed_receipts [simulated_receipt service a v txid n now] tip fin at)"
proof (rule keeps_task [where act = "ApplyReceipts [simulated_receipt service a v txid n now] tip fin at"])
  let ?rs = "[simulated_receipt service a v txid n now]"
  show "action_ok db (ApplyReceipts ?rs tip fin at)" if "simulated_owned db" for db
    using that by (auto simp: uids_agree_def list_all_iff simulated_owned_def simulated_receipt_fields sim_owner_uid)
  have "admits issued sim_owner ?rs" for issued
    by (simp add: admits_def simulated_receipt_fields sim_owner_uid)
  then have own: "keeps (owned issued receivers sim_owner) (apply_attributed_receipts ?rs tip fin at)" for issued receivers
    by (rule owned_apply)
  show "keeps simulated_owned (apply_attributed_receipts ?rs tip fin at)"
    unfolding keeps_def
  proof (intro allI impI)
    fix db r db'
    assume "simulated_owned db" and run: "apply_attributed_receipts ?rs tip fin at db = (r, db')"
    then have "owned (db_issued_addresses db) (db_receivers db) sim_owner db" by (simp add: owned_def simulated_owned_def)
    from keepsD [OF own this run] show "simulated_owned db'" by (simp add: owned_def simulated_owned_def)
  qed
qed (simp_all add: snd_discarded)

lemma stepped_serve: "keeps (stepped ext db0) (serve ext lib parse service call)"
proof (cases call)
  case (Session request allocated_at random_bytes linked_at)
  show ?thesis unfolding Session serve.simps issue_payment_session_def mint_address_def Let_def
    by (intro keeps_discard keeps_if keeps_intros keeps_split keeps_stamped stepped_allocate stepped_link)
next
  case (Simulation request marked_at random_bytes now applied_at queued_at)
  show ?thesis unfolding Simulation serve.simps simulate_payment_def
    by (intro keeps_discard keeps_if keeps_intros keeps_stamped stepped_mark stepped_simulated stepped_queue)
next
  case (Status payment_id)
  show ?thesis unfolding Status serve.simps payment_status_op_def
    by (intro keeps_discard keeps_if keeps_intros) (simp add: keeps_intros split: option.split)
next
  case Health
  show ?thesis unfolding Health serve.simps health_response_op_def current_service_metadata_def
    by (intro keeps_discard keeps_intros) (simp add: keeps_intros split: option.split)
qed

fun serve_all :: "externals \<Rightarrow> ('k, 'i) zcash_lib \<Rightarrow> uri_parser \<Rightarrow> 'k payment_service \<Rightarrow> payment_call list \<Rightarrow> app_db \<Rightarrow> app_db" where
  "serve_all ext lib parse service [] db = db"
| "serve_all ext lib parse service (c # cs) db = serve_all ext lib parse service cs (snd (serve ext lib parse service c db))"

lemma stepped_serve_all: "stepped ext db0 db \<Longrightarrow> stepped ext db0 (serve_all ext lib parse service cs db)"
  by (induction cs arbitrary: db) (auto intro: keeps_snd [OF stepped_serve])

section \<open>A sample service\<close>

text \<open>Indices below 256 are one byte and ten zeros; an address is the hex of its index.\<close>

definition sample_wallet :: "(unit, unit) zcash_lib" where
  "sample_wallet = sample_zcash\<lparr>
     zl_find_address := (\<lambda>_ start. if start < 256 then Inr (\<lparr>ua_orchard = Some [of_nat start], ua_sapling = Some [of_nat start],
        ua_transparent = None, ua_unknown = []\<rparr>, start) else Inl ''no address''),
     zl_encode_address := (\<lambda>_ a. case ua_orchard a of Some b \<Rightarrow> ''u1'' @ hex_string b | None \<Rightarrow> ''u1''),
     zl_bytes_of_index := (\<lambda>i. if i < 256 then of_nat i # replicate 10 0 else [])\<rparr>"

lemma sample_wallet_documented: "diversifiers_documented sample_wallet"
  by (auto simp: diversifiers_documented_def sample_wallet_def sample_zcash_def unat_of_nat split: if_splits)

definition sample_service :: "unit payment_service" where
  "sample_service = \<lparr>ps_wallet_view = \<lparr>wv_encoded_uivk = ''uivk'', wv_uivk = (), wv_network = TestNetwork\<rparr>,
     ps_public_base_url = Some ''https://pay.example'', ps_dev_simulated_payments = True, ps_return_url_allowed_origins = [],
     ps_required_confirmations = None, ps_webhook_report_confirmations = 1\<rparr>"

definition sample_request :: payment_session_request where
  "sample_request = \<lparr>pq_payment_source = ''zcash'', pq_label = None, pq_memo = Some ''Invoice 7'', pq_message = Some ''Thanks & bye'',
     pq_amount = Some ''0.5'', pq_return_url = None\<rparr>"

definition sample_session :: "app_db \<Rightarrow> payment_session_response result \<times> app_db" where
  "sample_session = issue_payment_session sample_wallet sample_parser sample_service sample_request (Inr ''t1'') (replicate 16 7) (Inr ''t2'')"

definition sample_calls :: "payment_call list" where
  "sample_calls = [Session (sample_request\<lparr>pq_memo := None, pq_message := None\<rparr>) (Inr ''t1'') (replicate 16 7) (Inr ''t2''),
     Simulation \<lparr>sq_address = ''u100'', sq_amount = ''0.5'', sq_confirmations = Some 3, sq_txid = None\<rparr>
       (Inr ''t3'') (replicate 32 1) (Inr ''t4'') (Inr ''t5'') (Inr ''t6'')]"

section \<open>Properties\<close>



text \<open>C28: A session can be followed by its link: right after a session is issued, the status of its payment id exists
  and shows the address, the QR text and the pay URL of the response, the label, message and amount of the
  request, the accepted return URL and a zero total.\<close>
theorem session_link_shows_the_request:
  assumes "addresses_ok db" "length random_bytes = 16"
    and "issue_payment_session lib parse service request allocated_at random_bytes linked_at db = (Inr response, db')"
  shows "\<exists>status. payment_status_op ext service (pr_payment_id response) db' = (Inr status, db')
    \<and> pt_address status = pr_address response \<and> pt_qr_text status = pr_qr_text response \<and> pt_pay_url status = pr_pay_url response
    \<and> pt_label status = pq_label request \<and> pt_message status = pq_message request \<and> pt_amount status = nonblank (pq_amount request)
    \<and> accepted_return_url parse service (pq_return_url request) = Inr (pt_return_url status)
    \<and> pt_total_received status = format_zat_as_zec 0 \<and> pt_status status = payment_status_for (nonblank (pq_amount request)) 0"
  by (rule session_status [OF assms, of ext]) blast

theorem session_link_shows_the_request_witness:
  "\<exists>response db' status. sample_session empty_db = (Inr response, db')
    \<and> payment_status_op sample_ext sample_service (pr_payment_id response) db' = (Inr status, db')
    \<and> pt_qr_text status = pr_qr_text response \<and> pt_amount status = Some ''0.5'' \<and> pt_status status = AwaitingPayment"
proof -
  obtain r db' where eq: "sample_session empty_db = (r, db')" by fastforce
  moreover have "case fst (sample_session empty_db) of Inr _ \<Rightarrow> True | Inl _ \<Rightarrow> False" by code_simp
  ultimately obtain response where run: "sample_session empty_db = (Inr response, db')" by (cases r) auto
  have "addresses_ok empty_db" by code_simp
  from session_link_shows_the_request [OF this _ run [unfolded sample_session_def], of sample_ext] obtain status where
    status: "payment_status_op sample_ext sample_service (pr_payment_id response) db' = (Inr status, db')"
    "pt_qr_text status = pr_qr_text response" "pt_amount status = nonblank (pq_amount sample_request)"
    "pt_status status = payment_status_for (nonblank (pq_amount sample_request)) 0" by auto
  have "nonblank (pq_amount sample_request) = Some ''0.5''" "payment_status_for (Some ''0.5'') 0 = AwaitingPayment" by code_simp+
  with run status show ?thesis by auto
qed

text \<open>C29: No address is issued twice: when sessions are all that issue addresses, then in every reachable state, with
  whatever tasks between and whatever failed, the diversifier indices of the issued addresses strictly increase in the order of issue, and
  the addresses are distinct.\<close>
theorem addresses_use_increasing_indices:
  assumes "diversifiers_documented lib"
    and "run_service ext acts initial_service = Some s" "list_all (minted lib view) acts"
  shows "sorted_wrt (<) (map (index_of lib) (db_issued_addresses (sv_db s)))
    \<and> distinct (map ia_unified_address (db_issued_addresses (sv_db s)))"
proof -
  have "issued_in_order lib (sv_db initial_service)" by (simp add: issued_in_order_def initial_service_def empty_db_def)
  from run_in_order [OF assms(1,2) this assms(3)] have "issued_in_order lib (sv_db s)" .
  moreover have "reachable ext s" using reachable_run [OF assms(2) reachable_init] .
  then have "addresses_ok (sv_db s)" using reachable_ok by (simp add: service_ok_def db_ok_def)
  ultimately show ?thesis unfolding issued_in_order_def addresses_ok_def by blast
qed

definition sample_minting :: "service_action list" where
  "sample_minting = map (\<lambda>now. Db (AllocateAddress (prepare_allocation sample_wallet (ps_wallet_view sample_service)
     None None None (Some ''0.5'')) now)) [''t1'', ''t2'']"

theorem addresses_use_increasing_indices_witness:
  "\<exists>s. run_service sample_ext sample_minting initial_service = Some s
    \<and> map (index_of sample_wallet) (db_issued_addresses (sv_db s)) = [0, 1]
    \<and> sorted_wrt (<) (map (index_of sample_wallet) (db_issued_addresses (sv_db s)))"
proof -
  have "map_option (\<lambda>s. map (index_of sample_wallet) (db_issued_addresses (sv_db s)))
      (run_service sample_ext sample_minting initial_service) = Some [0, 1]" by code_simp
  then obtain s where s: "run_service sample_ext sample_minting initial_service = Some s"
    "map (index_of sample_wallet) (db_issued_addresses (sv_db s)) = [0, 1]" by auto
  have "list_all (minted sample_wallet (ps_wallet_view sample_service)) sample_minting"
    by (auto simp: sample_minting_def minted_def)
  from addresses_use_increasing_indices [OF sample_wallet_documented s(1) this] have
    "sorted_wrt (<) (map (index_of sample_wallet) (db_issued_addresses (sv_db s)))" by (rule conjunct1)
  with s show ?thesis by (intro exI [of _ s] conjI)
qed

text \<open>C30: The requests of the payment service are steps of the service: whatever sessions, simulations and status requests
  are served, in any order and with whatever errors, the database moves by tasks of the service only, so all its
  invariants hold; and a simulated receipt always belongs to the address its uid names, so reusing a transaction
  id never moves a receipt.\<close>
theorem payment_requests_are_service_steps:
  assumes "simulated_owned db"
  shows "(\<exists>acts. run_service ext (map Db acts) \<lparr>sv_db = db, sv_held = held\<rparr>
      = Some \<lparr>sv_db = serve_all ext lib parse service calls db, sv_held = held\<rparr>)
    \<and> simulated_owned (serve_all ext lib parse service calls db)"
proof -
  have "stepped ext db db" using assms by (simp add: stepped_def db_steps_refl)
  from stepped_serve_all [OF this, of lib parse service calls] show ?thesis unfolding stepped_def db_steps_def by blast
qed

theorem payment_requests_are_service_steps_witness:
  "simulated_owned (serve_all sample_ext sample_wallet sample_parser sample_service sample_calls empty_db)
    \<and> map at_current_total_zat (db_totals (serve_all sample_ext sample_wallet sample_parser sample_service sample_calls empty_db)) = [50000000]"
proof -
  have "simulated_owned empty_db" by (simp add: simulated_owned_def empty_db_def)
  from payment_requests_are_service_steps [OF this] have
    "simulated_owned (serve_all sample_ext sample_wallet sample_parser sample_service sample_calls empty_db)" by blast
  moreover have "map at_current_total_zat (db_totals (serve_all sample_ext sample_wallet sample_parser sample_service sample_calls empty_db)) = [50000000]"
    by code_simp
  ultimately show ?thesis ..
qed

end
