(* ===== verification/Startup.thy ===== *)
theory Startup
  imports Payment_Guarantees
begin

text \<open>
  \<^verbatim>\<open>src/lib.rs\<close>: the routes, the recovery of webhook state before the workers start, and the order of the
  startup. Logging, the listener and the shutdown signal are left out.
\<close>

section \<open>Routes\<close>

datatype http_method = GET | POST

datatype route_handler = HealthRoute | PaymentSessionRoute | PaymentStatusRoute | PayPageRoute | SimulatePaymentRoute

definition build_router :: "(string \<times> http_method \<times> route_handler) list" where
  "build_router =
     [(''/health'', GET, HealthRoute),
      (''/payment-session'', POST, PaymentSessionRoute),
      (''/payments/{payment_id}'', GET, PaymentStatusRoute),
      (''/pay/{payment_id}'', GET, PayPageRoute),
      (''/dev/simulate-payment'', POST, SimulatePaymentRoute)]"

section \<open>Recovery\<close>

record startup_webhook_recovery =
  sr_recovered_delivery_ids :: "int list"
  sr_queued_dirty_address_ids :: "int list"

definition recovery_is_empty :: "startup_webhook_recovery \<Rightarrow> bool" where
  "recovery_is_empty r \<longleftrightarrow> sr_recovered_delivery_ids r = [] \<and> sr_queued_dirty_address_ids r = []"

definition recover_startup_webhook_state ::
  "externals \<Rightarrow> string result \<Rightarrow> string result \<Rightarrow> startup_webhook_recovery db_op" where
  "recover_startup_webhook_state ext recovered_at queued_at =
     andThen (stamped recovered_at recover_interrupted_webhook_deliveries) (\<lambda>recovered.
     andThen (stamped queued_at (queue_all_dirty_webhook_deliveries ext)) (\<lambda>queued.
     ret \<lparr>sr_recovered_delivery_ids = recovered, sr_queued_dirty_address_ids = queued\<rparr>))"

text \<open>The startup up to the point where the workers are spawned.\<close>

definition start_service ::
  "externals \<Rightarrow> ('k, 'i) zcash_lib \<Rightarrow> config \<Rightarrow> unit result \<Rightarrow> wallet_db_identity option result \<Rightarrow> string result
    \<Rightarrow> wallet_db_identity option result \<Rightarrow> string result \<Rightarrow> string result
    \<Rightarrow> ('k payment_service \<times> startup_webhook_recovery) db_op" where
  "start_service ext lib cfg wallet_db first_read now second_read recovered_at queued_at =
     andThen (initialize_payment_service lib cfg wallet_db first_read now second_read) (\<lambda>service.
     andThen initialize_schema (\<lambda>_.
     andThen (recover_startup_webhook_state ext recovered_at queued_at) (\<lambda>recovery.
     ret (service, recovery))))"

section \<open>What recovery leaves\<close>

lemma recovered_deliveries:
  "db_deliveries (fold (\<lambda>i. update_delivery i f) ids db) = map (\<lambda>d. fold (\<lambda>i. at_id i f) ids d) (db_deliveries db)"
  by (induction ids arbitrary: db) (simp_all add: update_delivery_map comp_def)

lemma fold_at_id_in:
  assumes "\<And>d. wd_delivery_id (f d) = wd_delivery_id d" "\<And>d. wd_delivery_state (f d) \<noteq> Sending"
  shows "wd_delivery_id d \<in> set ids \<or> wd_delivery_state d \<noteq> Sending \<Longrightarrow> wd_delivery_state (fold (\<lambda>i. at_id i f) ids d) \<noteq> Sending"
proof (induction ids arbitrary: d)
  case Nil
  then show ?case by simp
next
  case (Cons i ids)
  then show ?case by (cases "wd_delivery_id d = i") (auto simp: at_id_def assms intro: Cons.IH)
qed

definition sending_ids :: "app_db \<Rightarrow> int list" where
  "sending_ids db = map wd_delivery_id (filter (\<lambda>d. wd_delivery_state d = Sending) (db_deliveries db))"

lemma sending_none: "sending_ids db = [] \<longleftrightarrow> (\<forall>d \<in> set (db_deliveries db). wd_delivery_state d \<noteq> Sending)"
  by (simp add: sending_ids_def filter_empty_conv)

lemma recover_interrupted_Inr:
  "recover_interrupted_webhook_deliveries now db =
     (Inr (sort (sending_ids db)), fold (\<lambda>i. update_delivery i (interrupted now)) (sort (sending_ids db)) db)"
  by (simp add: recover_interrupted_webhook_deliveries_def sending_ids_def Let_def)

lemma none_sending_after:
  assumes "recover_interrupted_webhook_deliveries now db = (r, db')"
  shows "sending_ids db' = []"
  unfolding sending_none
proof
  fix d' assume "d' \<in> set (db_deliveries db')"
  then obtain d where d: "d \<in> set (db_deliveries db)" "d' = fold (\<lambda>i. at_id i (interrupted now)) (sort (sending_ids db)) d"
    using assms by (auto simp: recover_interrupted_Inr recovered_deliveries)
  have "wd_delivery_id d \<in> set (sort (sending_ids db)) \<or> wd_delivery_state d \<noteq> Sending"
    using d(1) by (auto simp: sending_ids_def)
  then show "wd_delivery_state d' \<noteq> Sending" unfolding d(2)
    by (rule fold_at_id_in [rotated 2]) (simp_all add: interrupted_def)
qed

lemma kept_none_sending:
  assumes "deliveries_kept db db'" "sending_ids db = []"
  shows "sending_ids db' = []"
  using assms unfolding deliveries_kept_def sending_none by (auto simp: list_all_iff untried_def)

lemma no_dirty:
  "dirty_addresses db = [] \<longleftrightarrow> (\<forall>t \<in> set (db_totals db). at_dirty_state t \<noteq> Dirty)"
proof -
  have "dirty_addresses db = [] \<longleftrightarrow> set (dirty_addresses db) = {}" by (metis set_empty)
  then show ?thesis by (auto simp: dirty_addresses_def)
qed

lemma recovery_run:
  assumes "recover_startup_webhook_state ext (Inr t) (Inr u) db = (Inr rec, db')"
  obtains q d where "recover_interrupted_webhook_deliveries t db = (Inr (sort (sending_ids db)), d)"
    "queue_all_dirty_webhook_deliveries ext u d = (Inr q, db')"
    "rec = \<lparr>sr_recovered_delivery_ids = sort (sending_ids db), sr_queued_dirty_address_ids = q\<rparr>"
proof -
  from assms have "\<exists>q d. recover_interrupted_webhook_deliveries t db = (Inr (sort (sending_ids db)), d)
    \<and> queue_all_dirty_webhook_deliveries ext u d = (Inr q, db')
    \<and> rec = \<lparr>sr_recovered_delivery_ids = sort (sending_ids db), sr_queued_dirty_address_ids = q\<rparr>"
    by (auto simp: recover_startup_webhook_state_def andThen_Inr stamped_Inr recover_interrupted_Inr)
  with that show thesis by blast
qed

lemma recovered_rest:
  assumes db: "db_ok db" and run: "recover_startup_webhook_state ext (Inr t) (Inr u) db = (Inr rec, db')"
  shows "sending_ids db' = []" "dirty_addresses db' = []"
proof -
  from recovery_run [OF run] obtain q d where
    1: "recover_interrupted_webhook_deliveries t db = (Inr (sort (sending_ids db)), d)"
    and 2: "queue_all_dirty_webhook_deliveries ext u d = (Inr q, db')" by metis
  have d: "db_ok d" by (rule recover_case [OF db 1])
  have "deliveries_kept d db'" using queue_all_case [OF d 2] by simp
  then show "sending_ids db' = []" using none_sending_after [OF 1] by (rule kept_none_sending)
  show "dirty_addresses db' = []" unfolding no_dirty using queue_all_clean [OF d 2] by blast
qed

lemma recover_at_rest:
  assumes "sending_ids db = []" "dirty_addresses db = []"
  shows "recover_startup_webhook_state ext (Inr t) (Inr u) db
    = (Inr \<lparr>sr_recovered_delivery_ids = [], sr_queued_dirty_address_ids = []\<rparr>, db)"
  using assms by (simp add: recover_startup_webhook_state_def stamped_def andThen_def lift_result_def recover_interrupted_Inr
      queue_all_dirty_webhook_deliveries_def reads_def ret_def queue_webhook_deliveries_for_dirty_addresses_def)

section \<open>What startup checked\<close>

lemma initialize_run:
  assumes "initialize_payment_service lib cfg wallet_db first_read now second_read db = (Inr service, db')"
  obtains d0 t identity d metadata view simulated w where
    "ensure_wallet_identity (\<lambda>d. d) cfg first_read t d0 = (Inr identity, d)"
    "ensure_service_metadata (\<lambda>d. d) cfg d = (Inr metadata, db')"
    "decode_wallet_view lib (wi_network identity) (canonical_uivk identity) = Inr view"
    "\<not> (dev_simulated_payments cfg \<and> lightwalletd_url cfg \<noteq> None)" "\<not> (lightwalletd_url cfg \<noteq> None \<and> has_simulated_data db')"
    "second_read = Inr w" "case w of Some x \<Rightarrow> wd_uivk x = wv_encoded_uivk view | None \<Rightarrow> True"
    "service = \<lparr>ps_wallet_view = view, ps_public_base_url = public_base_url cfg,
            ps_dev_simulated_payments = (dev_simulated_payments cfg \<and> wi_network identity = ''testnet''),
            ps_return_url_allowed_origins = return_url_allowed_origins cfg,
            ps_required_confirmations = required_confirmations cfg,
            ps_webhook_report_confirmations = md_webhook_report_confirmations metadata\<rparr>"
proof -
  from assms have "\<exists>d0 t identity d metadata view w.
    ensure_wallet_identity (\<lambda>d. d) cfg first_read t d0 = (Inr identity, d)
    \<and> ensure_service_metadata (\<lambda>d. d) cfg d = (Inr metadata, db')
    \<and> Inr view = decode_wallet_view lib (wi_network identity) (canonical_uivk identity)
    \<and> \<not> (dev_simulated_payments cfg \<and> lightwalletd_url cfg \<noteq> None) \<and> \<not> (lightwalletd_url cfg \<noteq> None \<and> has_simulated_data db')
    \<and> second_read = Inr w \<and> \<not> (case w of Some x \<Rightarrow> wd_uivk x \<noteq> wv_encoded_uivk view | None \<Rightarrow> False)
    \<and> service = \<lparr>ps_wallet_view = view, ps_public_base_url = public_base_url cfg,
            ps_dev_simulated_payments = (dev_simulated_payments cfg \<and> wi_network identity = ''testnet''),
            ps_return_url_allowed_origins = return_url_allowed_origins cfg,
            ps_required_confirmations = required_confirmations cfg,
            ps_webhook_report_confirmations = md_webhook_report_confirmations metadata\<rparr>"
    unfolding initialize_payment_service_def andThen_Inr stamped_Inr integrity_def
    by (auto simp: andThen_Inr split: if_splits) blast+
  then show thesis using that by (auto split: option.splits)
qed

lemma metadata_row_keeps:
  "ensure_service_metadata_row (\<lambda>d. d) cfg db = (Inr m, db') \<Longrightarrow>
   db_wallet_identity db' = db_wallet_identity db \<and> md_webhook_report_confirmations m = int (webhook_report_confirmations cfg)"
  by (auto simp: ensure_service_metadata_row_def andThen_Inr integrity_def confirmations_match_def store_fresh_metadata_def
      insert_service_metadata_def fresh_metadata_def split: option.splits if_splits sum.splits prod.splits app_error.splits)

lemma metadata_keeps:
  assumes "ensure_service_metadata (\<lambda>d. d) cfg db = (Inr m, db')"
  shows "db_wallet_identity db' = db_wallet_identity db \<and> md_webhook_report_confirmations m = int (webhook_report_confirmations cfg)"
proof -
  from assms obtain d where d: "ensure_service_metadata_row (\<lambda>d. d) cfg db = (Inr m, d)"
    "apply_required_confirmations (required_confirmations cfg) d = (Inr (), db')"
    by (auto simp: ensure_service_metadata_def andThen_Inr)
  from d(2) have "db_wallet_identity db' = db_wallet_identity d" by (auto simp: apply_required_confirmations_def Let_def)
  with metadata_row_keeps [OF d(1)] show ?thesis by simp
qed

lemma ensured_identity:
  assumes "ensure_wallet_identity (\<lambda>d. d) cfg w t d0 = (Inr i, d)"
  shows "\<exists>wallet_db. w = Inr wallet_db \<and> identity_fits cfg wallet_db i \<and> db_wallet_identity d = Some i"
proof (cases "db_wallet_identity d0")
  case None
  from ensure_identity_first [OF assms None] show ?thesis .
next
  case (Some j)
  from ensure_identity_again [OF assms Some] show ?thesis by auto
qed

lemma decoded_uivk: "decode_wallet_view lib name uivk = Inr view \<Longrightarrow> wv_encoded_uivk view = uivk"
  by (auto simp: decode_wallet_view_def bind_result_Inr)

section \<open>Properties\<close>

text \<open>C31: Startup accepts only a consistent database: a service that has started serves the identity stored in the
  database, which has the network and, where given, the UIVK of the configuration; it reports at the configured
  depth; simulation is on only on testnet; and a database with simulated payments is never scanned.\<close>
theorem startup_accepts_only_a_consistent_database:
  assumes "initialize_payment_service lib cfg wallet_db first_read now second_read db = (Inr service, db')"
  shows "(\<exists>i. db_wallet_identity db' = Some i \<and> wi_network i = network cfg
      \<and> (startup_uivk cfg = None \<or> startup_uivk cfg = Some (canonical_uivk i))
      \<and> wv_encoded_uivk (ps_wallet_view service) = canonical_uivk i)
    \<and> ps_webhook_report_confirmations service = int (webhook_report_confirmations cfg)
    \<and> (ps_dev_simulated_payments service \<longrightarrow> network cfg = ''testnet'' \<and> lightwalletd_url cfg = None)
    \<and> (lightwalletd_url cfg \<noteq> None \<longrightarrow> \<not> has_simulated_data db')"
proof (rule initialize_run [OF assms])
  fix d0 t i d metadata view and w :: "wallet_db_identity option"
  assume run: "ensure_wallet_identity (\<lambda>d. d) cfg first_read t d0 = (Inr i, d)" "ensure_service_metadata (\<lambda>d. d) cfg d = (Inr metadata, db')"
    "decode_wallet_view lib (wi_network i) (canonical_uivk i) = Inr view"
    and off: "\<not> (dev_simulated_payments cfg \<and> lightwalletd_url cfg \<noteq> None)" "\<not> (lightwalletd_url cfg \<noteq> None \<and> has_simulated_data db')"
    and service: "service = \<lparr>ps_wallet_view = view, ps_public_base_url = public_base_url cfg,
            ps_dev_simulated_payments = (dev_simulated_payments cfg \<and> wi_network i = ''testnet''),
            ps_return_url_allowed_origins = return_url_allowed_origins cfg,
            ps_required_confirmations = required_confirmations cfg,
            ps_webhook_report_confirmations = md_webhook_report_confirmations metadata\<rparr>"
  from ensured_identity [OF run(1)] obtain wallet_db where i: "identity_fits cfg wallet_db i" "db_wallet_identity d = Some i" by blast
  have "startup_uivk cfg = None \<or> startup_uivk cfg = Some (canonical_uivk i)" "wi_network i = network cfg"
    using i(1) by (auto simp: identity_fits_def split: option.splits)
  with i(2) metadata_keeps [OF run(2)] decoded_uivk [OF run(3)] off service show ?thesis by auto
qed

definition sample_start_config :: config where
  "sample_start_config = sample_config\<lparr>network := ''testnet'', startup_uivk := Some ''uivk'', birthday_height := Some 100,
     lightwalletd_url := None, dev_simulated_payments := True\<rparr>"

definition sample_start :: "unit payment_service result \<times> app_db" where
  "sample_start = initialize_payment_service sample_wallet sample_start_config (Inr ()) (Inr None) (Inr ''t0'') (Inr None) empty_db"

theorem startup_accepts_only_a_consistent_database_witness:
  "\<exists>service db' i. sample_start = (Inr service, db') \<and> db_wallet_identity db' = Some i
    \<and> wv_encoded_uivk (ps_wallet_view service) = canonical_uivk i \<and> ps_webhook_report_confirmations service = 0"
proof -
  obtain r db' where eq: "sample_start = (r, db')" by fastforce
  have "case fst sample_start of Inr _ \<Rightarrow> True | Inl _ \<Rightarrow> False" by code_simp
  hence "case r of Inr _ \<Rightarrow> True | Inl _ \<Rightarrow> False" by (metis eq fst_conv)
  then obtain service where "r = Inr service" by (cases r) auto
  with eq have run: "sample_start = (Inr service, db')" by metis
  note checked = startup_accepts_only_a_consistent_database [OF run [unfolded sample_start_def]]
  have "int (webhook_report_confirmations sample_start_config) = 0" by code_simp
  with run checked show ?thesis by auto
qed

text \<open>C32: The recovery of webhook state is complete and idempotent: after it no delivery is left in sending and no address
  dirty, so the same recovery on the next start, if nothing happened in between, finds nothing and changes
  nothing.\<close>
theorem startup_recovery_is_complete_and_idempotent:
  assumes "reachable ext s" "recover_startup_webhook_state ext (Inr t) (Inr u) (sv_db s) = (Inr rec, db')"
  shows "sending_ids db' = [] \<and> dirty_addresses db' = []
    \<and> recover_startup_webhook_state ext (Inr t') (Inr u') db'
        = (Inr \<lparr>sr_recovered_delivery_ids = [], sr_queued_dirty_address_ids = []\<rparr>, db')"
proof -
  have "db_ok (sv_db s)" using reachable_ok [OF assms(1)] by (simp add: service_ok_def)
  note rest = recovered_rest [OF this assms(2)]
  from rest recover_at_rest [OF rest] show ?thesis by simp
qed

definition recovered_sample :: "startup_webhook_recovery result \<times> app_db" where
  "recovered_sample = recover_startup_webhook_state sample_ext (Inr ''t1'') (Inr ''t2'') (sv_db sample_queued)"

theorem startup_recovery_is_complete_and_idempotent_witness:
  "(\<exists>db'. recovered_sample = (Inr \<lparr>sr_recovered_delivery_ids = [1], sr_queued_dirty_address_ids = []\<rparr>, db')
    \<and> recover_startup_webhook_state sample_ext (Inr ''t3'') (Inr ''t4'') db'
        = (Inr \<lparr>sr_recovered_delivery_ids = [], sr_queued_dirty_address_ids = []\<rparr>, db'))"
proof -
  obtain db' where "recovered_sample = (fst recovered_sample, db')" by (metis prod.collapse)
  moreover have "fst recovered_sample = Inr \<lparr>sr_recovered_delivery_ids = [1], sr_queued_dirty_address_ids = []\<rparr>" by code_simp
  ultimately have run: "recovered_sample = (Inr \<lparr>sr_recovered_delivery_ids = [1], sr_queued_dirty_address_ids = []\<rparr>, db')" by metis
  from startup_recovery_is_complete_and_idempotent [OF sample_reachable(1) run [unfolded recovered_sample_def], of "''t3''" "''t4''"] run
  show ?thesis by blast
qed

end
