(* ===== verification/Delivery_Drain.thy ===== *)
theory Delivery_Drain
  imports Startup
begin

text \<open>
  The queue runs empty when the far end answers: from the state a start leaves, with every address queued and no
  delivery marked as being sent, each iteration of the worker whose request is answered with success finishes one
  delivery for good.
\<close>

section \<open>What is left to send\<close>

definition event_due :: "string set \<Rightarrow> totals_row \<Rightarrow> bool" where
  "event_due events t \<longleftrightarrow> event_text (at_address_id t) (at_state_version t) \<notin> events"

text \<open>The deliveries that are not finished, and the addresses whose current version has no event yet.\<close>

definition backlog :: "app_db \<Rightarrow> nat" where
  "backlog db = length (filter is_outstanding (db_deliveries db))
     + length (filter (event_due (wd_event_id ` set (db_deliveries db))) (db_totals db))"

lemma shorter_filter:
  assumes "\<And>x. x \<in> set xs \<Longrightarrow> Q x \<Longrightarrow> P x" "x \<in> set xs" "P x" "\<not> Q x"
  shows "length (filter Q xs) < length (filter P xs)"
proof -
  have "filter Q xs = filter Q (filter P xs)" unfolding filter_filter using assms(1) by (intro filter_cong) auto
  then show ?thesis using length_filter_less [of x "filter P xs" Q] assms(2-4) by simp
qed

lemma fewer_filter: "(\<And>x. x \<in> set xs \<Longrightarrow> Q x \<Longrightarrow> P x) \<Longrightarrow> length (filter Q xs) \<le> length (filter P xs)"
  by (induction xs) auto

lemma due_same_money:
  "list_all2 same_money ts ts' \<Longrightarrow> length (filter (event_due E) ts') = length (filter (event_due E) ts)"
  by (induction rule: list_all2_induct) (auto simp: event_due_def same_money_def)

text \<open>Queueing one address adds at most one event, the one of its current version.\<close>

definition one_event_more :: "app_db \<Rightarrow> app_db \<Rightarrow> bool" where
  "one_event_more db db' \<longleftrightarrow> db_deliveries db' = db_deliveries db
     \<or> (\<exists>new t. db_deliveries db' = db_deliveries db @ [new] \<and> wd_delivery_state new = Queued \<and> t \<in> set (db_totals db)
          \<and> wd_event_id new = event_text (at_address_id t) (at_state_version t) \<and> event_due (wd_event_id ` set (db_deliveries db)) t)"

lemma queue_address_adds:
  assumes "queue_address ext now a q db = (Inr q', db')"
  shows "one_event_more db db'"
proof (cases "db_deliveries db' = db_deliveries db")
  case False
  with assms have "\<exists>t address. find_key at_address_id a (db_totals db) = Some t
      \<and> queue_event ext now address t db = (Inr (), db')"
    by (auto simp: queue_address_def andThen_Inr split: option.splits if_splits)
  then obtain t address where t: "find_key at_address_id a (db_totals db) = Some t"
    and run: "queue_event ext now address t db = (Inr (), db')" by blast
  from run obtain body where db': "db_deliveries db' = db_deliveries (insert_delivery (at_address_id t)
      (event_text (at_address_id t) (at_state_version t)) (at_current_total_zat t) now body (at_received_by_confirmations t) db)"
    by (auto simp: queue_event_def Let_def andThen_Inr)
  have "t \<in> set (db_totals db)" using find_key_Some [OF t] by simp
  with False db' show ?thesis
    by (auto simp: one_event_more_def event_due_def insert_delivery_def new_delivery_def split: if_splits)
qed (simp add: one_event_more_def)

lemma queue_address_runs:
  assumes "\<And>j. \<exists>text. ext_print_json ext j = Inr text"
  shows "\<exists>q' db'. queue_address ext now a q db = (Inr q', db')"
proof -
  have event: "\<exists>d. queue_event ext now address t db = (Inr (), d)" for address t
    using assms [of "webhook_body (event_text (at_address_id t) (at_state_version t)) address (at_current_total_zat t) now
        (decode_zat_array ext (at_received_by_confirmations t))"]
    by (auto simp: queue_event_def Let_def andThen_def lift_result_def writes_def)
  have "\<exists>q' db'. andThen (queue_event ext now address t) (\<lambda>_. ret (bset_insert a q)) db = (Inr q', db')" for address t
    using event [of address t] by (auto simp: andThen_Inr)
  then show ?thesis by (simp add: queue_address_def split: option.split)
qed

lemma queue_address_cleans:
  assumes ok: "addresses_ok db" and run: "queue_address ext now a q db = (Inr q', db')" and u: "u \<in> set (db_totals db')"
  shows "if at_address_id u = a then at_dirty_state u \<noteq> Dirty else u \<in> set (db_totals db)"
proof (cases "find_key at_address_id a (db_totals db)")
  case None
  with run u show ?thesis by (auto simp: queue_address_def find_key_None)
next
  case (Some t)
  from find_key_Some [OF Some] have t: "t \<in> set (db_totals db)" "at_address_id t = a" by auto
  have "at_address_id ` set (db_totals db) = ia_address_id ` set (db_issued_addresses db)"
    using ok unfolding addresses_ok_def by (metis set_map)
  with t obtain i where i: "find_key ia_address_id a (db_issued_addresses db) = Some i"
    by (cases "find_key ia_address_id a (db_issued_addresses db)") (auto simp: find_key_None)
  consider (still) "at_dirty_state t \<noteq> Dirty" "db' = db"
    | (marked) h d where "\<And>v. at_dirty_state (h v) \<noteq> Dirty" "\<And>v. at_address_id (h v) = at_address_id v"
        "db_totals d = db_totals db" "db' = update_totals a h d"
  proof (cases "at_dirty_state t = Dirty")
    case True
    have "\<exists>h d. (\<forall>v. at_dirty_state (h v) \<noteq> Dirty \<and> at_address_id (h v) = at_address_id v) \<and> db_totals d = db_totals db
      \<and> db' = update_totals a h d"
    proof (cases "(at_current_total_zat t, at_received_by_confirmations t) = last_word db t")
      case told: True
      define h where "h = (if outstanding db a = None then mark_clean else mark_queued)"
      from run True Some i told have "db' = update_totals a h db" by (auto simp: queue_address_def h_def split: if_splits)
      then show ?thesis by (intro exI [of _ h] exI [of _ db]) (simp add: h_def mark_clean_def mark_queued_def)
    next
      case False
      define h where "h = (\<lambda>u. (mark_queued u)\<lparr>at_last_changed_at := now\<rparr>)"
      from run True Some i False have "andThen (queue_event ext now (ia_unified_address i) t) (\<lambda>_. ret (bset_insert a q)) db = (Inr q', db')"
        by (simp add: queue_address_def)
      then have "queue_event ext now (ia_unified_address i) t db = (Inr (), db')" by (auto simp: andThen_Inr)
      then obtain body where db': "db' = update_totals a h
        (insert_delivery a (event_text a (at_state_version t)) (at_current_total_zat t) now body (at_received_by_confirmations t) db)"
        by (auto simp: queue_event_def Let_def andThen_Inr h_def t(2))
      define d where "d = insert_delivery a (event_text a (at_state_version t)) (at_current_total_zat t) now body (at_received_by_confirmations t) db"
      have "db_totals d = db_totals db" by (simp add: d_def insert_delivery_def)
      with db' show ?thesis by (intro exI [of _ h] exI [of _ d]) (simp add: d_def h_def mark_queued_def)
    qed
    with that(2) show thesis by blast
  next
    case False
    with run Some i that(1) show thesis by (simp add: queue_address_def)
  qed
  then show ?thesis
  proof cases
    case still
    then have in_db: "u \<in> set (db_totals db)" using u by simp
    have "u = t" if "at_address_id u = a" by (rule find_row [OF addresses_ok_totals_keys [OF ok] Some in_db that])
    with in_db still(1) show ?thesis by (cases "at_address_id u = a") simp_all
  next
    case (marked h d)
    from u [unfolded marked(4)] obtain w where "w \<in> set (db_totals d)" "u = (if at_address_id w = a then h w else w)"
      by (rule in_update_totals)
    with marked(1-3) show ?thesis by auto
  qed
qed

section \<open>Recording a success\<close>

lemma queue_one: "queue_webhook_deliveries_in_tx ext [a] now = (\<lambda>db. andThen (queue_address ext now a []) ret db)"
proof -
  have "for_each (queue_address ext now) [] = ret" by (simp add: fun_eq_iff)
  then show ?thesis by (intro HOL.ext) (simp add: queue_webhook_deliveries_in_tx_def bset_of_def bset_insert_def insort_insert_key_def)
qed

text \<open>What a recorded success does to the database.\<close>

definition finished :: "string \<Rightarrow> int \<Rightarrow> string \<Rightarrow> delivery_row \<Rightarrow> delivery_row" where
  "finished at st body = finish_row Succeeded None (Some st) (Some body) at"

lemma success_runs:
  assumes json: "\<And>j. \<exists>text. ext_print_json ext j = Inr text" and d: "find_key wd_delivery_id i (db_deliveries db) = Some d"
  shows "\<exists>db'. record_webhook_delivery_success ext i at st body dur now db = (Inr (), db')"
proof -
  have "\<exists>q' d'. queue_address ext now (wd_address_id d) [] e = (Inr q', d')" for e
    by (rule queue_address_runs [OF json])
  then have "\<exists>q' d'. queue_webhook_deliveries_in_tx ext [wd_address_id d] now e = (Inr q', d')" for e
    by (auto simp: queue_one andThen_Inr)
  then have queue: "(case queue_webhook_deliveries_in_tx ext [wd_address_id d] now e of (Inl x, t) \<Rightarrow> (Inl x, t) | (Inr x, t) \<Rightarrow> ret () t)
      = (Inr (), snd (queue_webhook_deliveries_in_tx ext [wd_address_id d] now e))" for e
    by (metis (mono_tags, lifting) case_prod_conv old.sum.simps(6) ret_def snd_conv)
  have "i \<in> set (map wd_delivery_id (db_deliveries (update_delivery i f db)))" if "\<And>x. wd_delivery_id (f x) = wd_delivery_id x" for f
    using find_key_Some [OF d] that by (force simp: update_delivery_map at_id_def)
  then show ?thesis using d queue
    by (simp add: record_webhook_delivery_success_def in_tx_def andThen_def writes_def reads_def insert_attempt_def finish_row_def ret_def
        split: option.split)
qed

lemma success_effect:
  assumes ok: "addresses_ok db" and d: "find_key wd_delivery_id i (db_deliveries db) = Some d"
    and run: "record_webhook_delivery_success ext i at st body dur now db = (Inr u, db')"
  obtains mid where "db_deliveries mid = map (at_id i (finished at st body)) (db_deliveries db)"
    "webhook_step db mid" "one_event_more mid db'"
    "\<And>t. t \<in> set (db_totals db') \<Longrightarrow> at_dirty_state t = Dirty \<Longrightarrow> t \<in> set (db_totals db)"
proof -
  define a where "a = wd_address_id d"
  from run d obtain d2 x where att: "insert_attempt i at (Some st) (Some body) None dur (update_delivery i (finished at st body) db) = (Inr x, d2)"
    and rest: "db' = d2 \<or> (\<exists>q. queue_webhook_deliveries_in_tx ext [a] now (update_totals a (acknowledge d at) d2) = (Inr q, db'))"
    by (auto simp: record_webhook_delivery_success_def in_tx_Inr andThen_Inr finished_def a_def split: if_splits)
  from att obtain z where d2: "d2 = update_delivery i (finished at st body) db\<lparr>db_attempts := z\<rparr>"
    by (auto simp: insert_attempt_def split: if_splits)
  have dels: "db_deliveries d2 = map (at_id i (finished at st body)) (db_deliveries db)" by (simp add: d2 update_delivery_map)
  have step: "webhook_step db d2" unfolding d2 by (rule webhook_step_trans [OF webhook_step_deliveries(1,3)])
  have tot: "db_totals d2 = db_totals db" by (simp add: d2 update_delivery_def)
  from rest show thesis
  proof
    assume "db' = d2"
    with that [of d2] dels step tot show thesis by (simp add: one_event_more_def)
  next
    let ?mid = "update_totals a (acknowledge d at) d2"
    assume "\<exists>q. queue_webhook_deliveries_in_tx ext [a] now ?mid = (Inr q, db')"
    then obtain q where q: "queue_address ext now a [] ?mid = (Inr q, db')" by (auto simp: queue_one andThen_Inr)
    have mid: "webhook_step db ?mid" by (rule webhook_step_trans [OF step webhook_step_update_totals]) simp
    have "addresses_ok ?mid" by (rule webhook_step_keeps(1) [OF mid ok])
    note clean = queue_address_cleans [OF this q]
    have "t \<in> set (db_totals db)" if t: "t \<in> set (db_totals db')" "at_dirty_state t = Dirty" for t
    proof -
      from clean [OF t(1)] t(2) have "t \<in> set (db_totals ?mid)" "at_address_id t \<noteq> a" by (auto split: if_splits)
      then show ?thesis by (auto elim!: in_update_totals simp: tot acknowledge_def split: if_splits)
    qed
    with that [of ?mid] dels mid queue_address_adds [OF q] show thesis by simp
  qed
qed

lemma one_event_more_due:
  assumes "one_event_more mid db'" "webhook_step db mid" "webhook_step db db'"
    and events: "wd_event_id ` set (db_deliveries mid) = wd_event_id ` set (db_deliveries db)"
  shows "length (filter is_outstanding (db_deliveries db')) + length (filter (event_due (wd_event_id ` set (db_deliveries db'))) (db_totals db'))
    \<le> length (filter is_outstanding (db_deliveries mid)) + length (filter (event_due (wd_event_id ` set (db_deliveries db))) (db_totals db))"
proof -
  let ?E = "wd_event_id ` set (db_deliveries db)" and ?E' = "wd_event_id ` set (db_deliveries db')"
  have totals: "list_all2 same_money (db_totals db) (db_totals db')" "list_all2 same_money (db_totals db) (db_totals mid)"
    using assms(2,3) by (simp_all add: webhook_step_def)
  note same = due_same_money [OF totals(1), of ?E]
  show ?thesis
  proof (cases "db_deliveries db' = db_deliveries mid")
    case True
    with same events show ?thesis by simp
  next
    case False
    with assms(1) obtain new t where new: "db_deliveries db' = db_deliveries mid @ [new]" "wd_delivery_state new = Queued"
      "t \<in> set (db_totals mid)" "wd_event_id new = event_text (at_address_id t) (at_state_version t)" "event_due ?E t"
      by (auto simp: one_event_more_def events)
    from list_all2_right [OF totals(2) new(3)] obtain t0 where t0: "t0 \<in> set (db_totals db)" "same_money t0 t" by blast
    have "list_all2 (\<lambda>y x. same_money x y) (db_totals db') (db_totals db)" using totals(1) by (simp add: list_all2_conv_all_nth)
    from list_all2_right [OF this t0(1)] obtain t1 where t1: "t1 \<in> set (db_totals db')" "same_money t0 t1" by blast
    have E': "?E' = insert (wd_event_id new) ?E" using new(1) events by auto
    have "length (filter (event_due ?E') (db_totals db')) < length (filter (event_due ?E) (db_totals db'))"
    proof (rule shorter_filter [OF _ t1(1)])
      show "event_due ?E t1" "\<not> event_due ?E' t1" using new(4,5) t0(2) t1(2) by (auto simp: event_due_def same_money_def E')
    qed (auto simp: event_due_def E')
    with same new(1,2) show ?thesis by (simp add: is_outstanding_def)
  qed
qed

lemma backlog_shrinks:
  assumes d: "d \<in> set (db_deliveries db)" "wd_delivery_id d = i" "is_outstanding d"
    and mid: "db_deliveries mid = map (at_id i (finished at st body)) (db_deliveries db)" "webhook_step db mid"
    and rest: "one_event_more mid db'" "webhook_step db db'"
  shows "backlog db' < backlog db"
proof -
  have kept: "wd_event_id (at_id i (finished at st body) x) = wd_event_id x" for x by (simp add: at_id_def finished_def finish_row_def)
  have "length (filter is_outstanding (db_deliveries mid)) = length (filter (is_outstanding \<circ> at_id i (finished at st body)) (db_deliveries db))"
    by (simp add: mid(1) filter_map)
  also have "\<dots> < length (filter is_outstanding (db_deliveries db))"
    by (rule shorter_filter [OF _ d(1)]) (use d in \<open>auto simp: at_id_def finished_def finish_row_def is_outstanding_def split: if_splits\<close>)
  finally have "length (filter is_outstanding (db_deliveries mid)) < length (filter is_outstanding (db_deliveries db))" .
  moreover have "wd_event_id ` set (db_deliveries mid) = wd_event_id ` set (db_deliveries db)" by (simp add: mid(1) image_image kept)
  ultimately show ?thesis using one_event_more_due [OF rest(1) mid(2) rest(2)] unfolding backlog_def by linarith
qed

section \<open>An iteration that is answered\<close>

text \<open>A far end that takes every request, for a worker that is configured.\<close>

definition receptive :: "worker_world \<Rightarrow> config \<Rightarrow> bool" where
  "receptive w cfg \<longleftrightarrow> worker_enabled cfg \<and> (\<forall>secret body. \<exists>mac. ww_hmac w secret body = Inr mac)
     \<and> (\<forall>rq. \<exists>status body. ww_post w rq = Response status body \<and> is_success status)"

text \<open>Every delivery that is not finished may be sent at this time.\<close>

definition all_ready :: "string \<Rightarrow> app_db \<Rightarrow> bool" where
  "all_ready now db \<longleftrightarrow> (\<forall>d \<in> set (db_deliveries db). is_outstanding d \<longrightarrow> is_ready now d)"

definition nothing_dirty :: "app_db \<Rightarrow> bool" where
  "nothing_dirty db \<longleftrightarrow> (\<forall>t \<in> set (db_totals db). at_dirty_state t \<noteq> Dirty)"

definition given_up :: "app_db \<Rightarrow> int set" where
  "given_up db = wd_address_id ` {d \<in> set (db_deliveries db). wd_delivery_state d = PermanentFailure}"

lemma receptive_outcome:
  assumes "receptive w cfg"
  obtains rq st body dur where "delivery_request w cfg q = Inr rq"
    "reply_outcome w cfg q (ww_post w rq) = Inr (Delivered st body dur (ww_recorded_at w))"
proof -
  from assms obtain url secret where cfg: "webhook_url cfg = Some url" "webhook_secret cfg = Some secret"
    by (auto simp: receptive_def worker_enabled_def)
  obtain mac where "ww_hmac w (as_bytes secret) (as_bytes (qd_request_body_json q)) = Inr mac"
    using assms unfolding receptive_def by blast
  with cfg obtain rq where rq: "delivery_request w cfg q = Inr rq"
    by (simp add: delivery_request_def sign_body_def bind_result_Inr)
  obtain status body where "ww_post w rq = Response status body" "is_success status"
    using assms unfolding receptive_def by blast
  with rq that show thesis by (simp add: reply_outcome_def Let_def)
qed

lemma claimed_rows:
  assumes "claim_ready_webhook_delivery now db = (Inr (Some q), db1)" "notify_ok db"
  obtains d where "d \<in> set (db_deliveries db)" "is_outstanding d" "db1 = update_delivery (wd_delivery_id d) claim_row db"
    "qd_delivery_id q = wd_delivery_id d"
    "find_key wd_delivery_id (wd_delivery_id d) (db_deliveries db1) = Some (claim_row d)"
proof -
  from assms(1) obtain d where d: "first_by (\<lambda>d. (wd_observed_at d, wd_delivery_id d)) (filter (is_ready now) (db_deliveries db)) = Some d"
    "q = queued_of d" "db1 = update_delivery (wd_delivery_id d) claim_row db"
    by (auto simp: claim_ready_webhook_delivery_def split: option.splits)
  have in_db: "d \<in> set (db_deliveries db)" "is_ready now d" using first_by_Some(1) [OF d(1)] by auto
  have "find_key wd_delivery_id (wd_delivery_id d) (db_deliveries db1) = Some (claim_row d)"
    unfolding d(3) using find_delivery [OF assms(2) in_db(1)]
    by (subst find_updated) (simp_all add: at_id_def claim_row_def)
  with in_db d(2,3) show thesis
    by (intro that [of d]) (auto simp: queued_of_def is_ready_def is_outstanding_def)
qed

lemma nothing_claimed:
  assumes "all_ready now db" "claim_ready_webhook_delivery now db = (Inr None, db1)"
  shows "\<forall>d \<in> set (db_deliveries db). \<not> is_outstanding d" "db1 = db"
proof -
  from assms(2) have "filter (is_ready now) (db_deliveries db) = []" "db1 = db"
    by (auto simp: claim_ready_webhook_delivery_def first_by_None split: option.splits)
  with assms(1) show "\<forall>d \<in> set (db_deliveries db). \<not> is_outstanding d" "db1 = db"
    by (auto simp: all_ready_def filter_empty_conv)
qed

text \<open>What stays true from one answered iteration to the next.\<close>

definition drains :: "app_db \<Rightarrow> app_db \<Rightarrow> bool" where
  "drains db db' \<longleftrightarrow> db_ok db' \<and> nothing_dirty db' \<and> (\<forall>now. all_ready now db \<longrightarrow> all_ready now db') \<and> given_up db' \<subseteq> given_up db
     \<and> db_receipts db' = db_receipts db"

lemma drains_refl: "db_ok db \<Longrightarrow> nothing_dirty db \<Longrightarrow> drains db db"
  by (simp add: drains_def)

lemma drains_trans: "drains db d1 \<Longrightarrow> drains d1 d2 \<Longrightarrow> drains db d2"
  by (auto simp: drains_def)

lemma finished_claimed: "at_id i (finished at st body) (at_id i claim_row x) = at_id i (\<lambda>x. finished at st body (claim_row x)) x"
  by (simp add: at_id_def claim_row_def)

lemma delivered_drains:
  assumes db: "db_ok db" "nothing_dirty db" and d: "d \<in> set (db_deliveries db)" "is_outstanding d"
    and claim: "db1 = update_delivery (wd_delivery_id d) claim_row db" "db_ok db1"
      "find_key wd_delivery_id (wd_delivery_id d) (db_deliveries db1) = Some (claim_row d)"
    and run: "record_webhook_delivery_success ext (wd_delivery_id d) at st body dur now db1 = (Inr u, db')" and ok: "db_ok db'"
  shows "drains db db' \<and> backlog db' < backlog db"
proof -
  let ?i = "wd_delivery_id d"
  from claim(2) have ok1: "notify_ok db1" "addresses_ok db1" by (simp_all add: db_ok_def)
  have out: "is_outstanding (claim_row d)" by (simp add: is_outstanding_def claim_row_def)
  from find_key_Some [OF claim(3)] have d1: "claim_row d \<in> set (db_deliveries db1)" "wd_delivery_id (claim_row d) = ?i" by auto
  obtain mid where mid: "db_deliveries mid = map (at_id ?i (finished at st body)) (db_deliveries db1)"
    "webhook_step db1 mid" "one_event_more mid db'"
    "\<And>t. t \<in> set (db_totals db') \<Longrightarrow> at_dirty_state t = Dirty \<Longrightarrow> t \<in> set (db_totals db1)"
    using success_effect [OF ok1(2) claim(3) run] by metis
  have step: "webhook_step db1 db'" using success_ok [OF ok1 claim(3) out run] by simp
  have "backlog db' < backlog db1" by (rule backlog_shrinks [OF d1 out mid(1,2,3) step])
  moreover have "backlog db1 = backlog db"
  proof -
    have "is_outstanding (at_id ?i claim_row x) = is_outstanding x" if "x \<in> set (db_deliveries db)" for x
      using that d delivery_unique [of db x d] db(1) by (auto simp: at_id_def claim_row_def is_outstanding_def db_ok_def)
    then have "filter (is_outstanding \<circ> at_id ?i claim_row) (db_deliveries db) = filter is_outstanding (db_deliveries db)"
      by (intro filter_cong) auto
    moreover have "wd_event_id (at_id ?i claim_row x) = wd_event_id x" for x by (simp add: at_id_def claim_row_def)
    moreover have "db_totals db1 = db_totals db" by (simp add: claim(1) update_delivery_def)
    ultimately show ?thesis by (simp add: backlog_def claim(1) update_delivery_map filter_map image_image)
  qed
  moreover have "x \<in> set (db_deliveries db) \<and> wd_delivery_id x \<noteq> ?i \<or> wd_delivery_state x = Succeeded \<or> wd_delivery_state x = Queued"
    if x: "x \<in> set (db_deliveries db')" for x
  proof -
    have "db_deliveries mid = map (at_id ?i (\<lambda>x. finished at st body (claim_row x))) (db_deliveries db)"
      by (simp add: mid(1) claim(1) update_delivery_map finished_claimed comp_def)
    with mid(3) x show ?thesis by (auto simp: one_event_more_def at_id_def finished_def finish_row_def claim_row_def)
  qed
  then have "(\<forall>now. all_ready now db \<longrightarrow> all_ready now db') \<and> given_up db' \<subseteq> given_up db"
    by (fastforce simp: all_ready_def given_up_def is_outstanding_def is_ready_def)
  moreover have "nothing_dirty db'"
    using mid(4) db(2) by (auto simp: nothing_dirty_def claim(1) update_delivery_def)
  moreover have "db_receipts db' = db_receipts db" using webhook_step_tables(1) [OF step] by (simp add: claim(1) update_delivery_def)
  ultimately show ?thesis using ok by (simp add: drains_def)
qed

lemma answered_iteration:
  assumes json: "\<And>j. \<exists>text. ext_print_json ext j = Inr text" and w: "receptive w cfg"
    and db: "db_ok (wk_db s)" "nothing_dirty (wk_db s)" "all_ready (ww_now w) (wk_db s)"
  obtains (empty) "deliver_ready_once ext w cfg s = (Inr False, s)" "\<forall>d \<in> set (db_deliveries (wk_db s)). \<not> is_outstanding d"
    | (sent) s' where "deliver_ready_once ext w cfg s = (Inr True, s')" "drains (wk_db s) (wk_db s')" "backlog (wk_db s') < backlog (wk_db s)"
proof -
  have n: "notify_ok (wk_db s)" using db(1) by (simp add: db_ok_def)
  obtain c db1 where c: "claim_ready_webhook_delivery (ww_now w) (wk_db s) = (Inr c, db1)" using claim_total by blast
  show thesis
  proof (cases c)
    case None
    from nothing_claimed [OF db(3) c [unfolded None]] have rest: "\<forall>d \<in> set (db_deliveries (wk_db s)). \<not> is_outstanding d" "db1 = wk_db s" by blast+
    with c None have "deliver_ready_once ext w cfg s = (Inr False, s)"
      by (simp add: deliver_ready_once_def andThen_def on_db_def ret_def)
    with rest(1) empty show thesis by blast
  next
    case (Some q)
    obtain d where d: "d \<in> set (db_deliveries (wk_db s))" "is_outstanding d" "db1 = update_delivery (wd_delivery_id d) claim_row (wk_db s)"
      "qd_delivery_id q = wd_delivery_id d" "find_key wd_delivery_id (wd_delivery_id d) (db_deliveries db1) = Some (claim_row d)"
      using claimed_rows [OF c [unfolded Some] n] by metis
    obtain rq st body dur where answer: "delivery_request w cfg q = Inr rq"
      "reply_outcome w cfg q (ww_post w rq) = Inr (Delivered st body dur (ww_recorded_at w))"
      using receptive_outcome [OF w] by metis
    obtain db' where rec: "record_webhook_delivery_success ext (wd_delivery_id d) (ww_attempted_at w) st body dur (ww_recorded_at w) db1 = (Inr (), db')"
      using success_runs [OF json d(5)] by blast
    define s' where "s' = s\<lparr>wk_db := db', wk_sent := wk_sent s @ [rq]\<rparr>"
    have run: "deliver_ready_once ext w cfg s = (Inr True, s')"
      using c Some answer rec d(4) by (simp add: deliver_ready_once_def andThen_def on_db_def lift_result_def post_request_def ret_def s'_def)
    have "db_ok db1" using claim_case [OF db(1) c] by simp
    moreover have "db_ok db'" using iteration_ok [OF db(1) run] by (simp add: s'_def)
    ultimately have "drains (wk_db s) db' \<and> backlog db' < backlog (wk_db s)"
      using delivered_drains [OF db(1,2) d(1,2,3) _ d(5) rec] by blast
    with run sent show thesis by (simp add: s'_def)
  qed
qed

text \<open>The loop, and what it leaves.\<close>

definition all_finished :: "app_db \<Rightarrow> bool" where
  "all_finished db \<longleftrightarrow> (\<forall>d \<in> set (db_deliveries db). \<not> is_outstanding d)"

lemma no_backlog: "backlog db = 0 \<Longrightarrow> all_finished db"
  by (auto simp: backlog_def all_finished_def filter_empty_conv)

lemma nothing_to_send:
  assumes "all_finished (wk_db s)"
  shows "deliver_ready_once ext w cfg s = (Inr False, s)"
proof -
  have "filter (is_ready (ww_now w)) (db_deliveries (wk_db s)) = []"
    using assms by (auto simp: all_finished_def filter_empty_conv is_ready_def is_outstanding_def)
  then have "first_by (\<lambda>d. (wd_observed_at d, wd_delivery_id d)) (filter (is_ready (ww_now w)) (db_deliveries (wk_db s))) = None" by simp
  then have "claim_ready_webhook_delivery (ww_now w) (wk_db s) = (Inr None, wk_db s)"
    by (simp only: claim_ready_webhook_delivery_def option.case)
  then show ?thesis by (simp add: deliver_ready_once_def andThen_def on_db_def ret_def)
qed

lemma finished_loop: "all_finished (wk_db s) \<Longrightarrow> snd (delivery_loop ext cfg ws s) = s"
  by (induction ws) (simp_all add: nothing_to_send split_beta)

lemma delivery_loop_drains:
  assumes json: "\<And>j. \<exists>text. ext_print_json ext j = Inr text"
  shows "list_all (\<lambda>w. receptive w cfg \<and> all_ready (ww_now w) (wk_db s)) ws \<Longrightarrow> db_ok (wk_db s) \<Longrightarrow> nothing_dirty (wk_db s) \<Longrightarrow>
    backlog (wk_db s) \<le> length ws \<Longrightarrow>
    drains (wk_db s) (wk_db (snd (delivery_loop ext cfg ws s))) \<and> all_finished (wk_db (snd (delivery_loop ext cfg ws s)))"
proof (induction ws arbitrary: s)
  case Nil
  then show ?case by (simp add: drains_refl no_backlog)
next
  case (Cons w ws)
  have w: "receptive w cfg" "all_ready (ww_now w) (wk_db s)" using Cons.prems(1) by simp_all
  show ?case
  proof (cases rule: answered_iteration [OF json w(1) Cons.prems(2,3) w(2), case_names empty sent])
    case empty
    then have "all_finished (wk_db s)" by (simp add: all_finished_def)
    with finished_loop [OF this, of ext cfg "w # ws"] Cons.prems(2,3) show ?thesis by (simp only: drains_refl simp_thms)
  next
    case (sent s')
    have rest: "drains (wk_db s') (wk_db (snd (delivery_loop ext cfg ws s'))) \<and> all_finished (wk_db (snd (delivery_loop ext cfg ws s')))"
    proof (rule Cons.IH)
      show "list_all (\<lambda>w. receptive w cfg \<and> all_ready (ww_now w) (wk_db s')) ws"
        using Cons.prems(1) sent(2) by (auto simp: list_all_iff drains_def)
    qed (use sent Cons.prems(4) in \<open>auto simp: drains_def\<close>)
    show ?thesis using sent(1) rest drains_trans [OF sent(2)] by simp
  qed
qed

text \<open>Once all is finished, an address of which no event was given up has been told its total.\<close>

lemma finished_told:
  assumes "db_ok db" "nothing_dirty db" "all_finished db" "t \<in> set (db_totals db)" "at_address_id t \<notin> given_up db"
  shows "at_last_notified_total_zat t = eligible_total db (at_address_id t)"
proof -
  have "wd_delivery_state d = Succeeded" if "d \<in> set (db_deliveries db)" "wd_address_id d = at_address_id t" for d
    using that assms(3,5) by (cases "wd_delivery_state d") (auto simp: all_finished_def is_outstanding_def given_up_def image_iff)
  then have "at_rest db t" using assms(2,4) by (auto simp: at_rest_def nothing_dirty_def list_all_iff)
  moreover have "row_ok t (deliveries_of db (at_address_id t))" using assms(1,4) by (auto simp: db_ok_def notify_ok_def)
  ultimately have "at_last_notified_total_zat t = at_current_total_zat t" by (intro at_rest_told)
  moreover have "at_current_total_zat t = eligible_total db (at_address_id t)"
    using assms(1,4) by (auto simp: db_ok_def ledger_ok_def totals_current_def list_all_iff total_current_def)
  ultimately show ?thesis by simp
qed

end
