(* ===== verification/Whole_Service.thy ===== *)
theory Whole_Service
  imports Delivery_Drain
begin

text \<open>
  The service as a whole, by the functions that run: starts and restarts, requests, iterations of the
  synchronisation with the other tasks at work between its transactions, iterations of the delivery worker, and
  single steps of the tasks, in any order; the process is killed and started again at any time. What the parts
  promise each other holds of the composition.
\<close>

section \<open>What every part keeps\<close>

definition sound :: "externals \<Rightarrow> payee \<Rightarrow> int option \<Rightarrow> app_db \<Rightarrow> bool" where
  "sound ext payee held db \<longleftrightarrow> reachable ext \<lparr>sv_db = db, sv_held = held\<rparr> \<and> receipts_follow payee db"

lemma sound_run:
  assumes "sound ext payee held db" "run_service ext acts \<lparr>sv_db = db, sv_held = held\<rparr> = Some \<lparr>sv_db = db', sv_held = held'\<rparr>"
    and "receipts_follow payee db'"
  shows "sound ext payee held' db'"
  using assms unfolding sound_def using reachable_run by blast

lemma sound_service: "sound ext payee (sv_held sv) (sv_db sv) \<longleftrightarrow> reachable ext sv \<and> receipts_follow payee (sv_db sv)"
  by (cases sv) (simp add: sound_def)

text \<open>A process that died holds nothing.\<close>

lemma sound_dead: "sound ext payee held db \<Longrightarrow> sound ext payee None db"
  by (rule sound_run [of ext payee held db "[Restart]"]) (auto simp: sound_def)

lemma sound_ok: "sound ext payee held db \<Longrightarrow> db_ok db"
  using reachable_ok by (fastforce simp: sound_def service_ok_def)

lemma sound_task:
  assumes task: "\<And>db. snd (db_task ext act db) = snd (m db)" and ok: "\<And>db. action_ok db act"
    and keep: "\<And>R V. keeps (more_receivers R V) m"
  shows "keeps (sound ext payee held) m"
  unfolding keeps_def
proof (intro allI impI)
  fix db r db'
  assume db: "sound ext payee held db" and run: "m db = (r, db')"
  from keepsD [OF keep more_receivers_refl run] have "receipts_follow payee db'" using db more_follow by (auto simp: sound_def)
  then show "sound ext payee held db'"
    by (intro sound_run [OF db, of "[Db act]"]) (use ok task [of db] run in simp_all)
qed

section \<open>The operations of a start\<close>

lemma sound_identity: "keeps (sound ext payee held) (store_first_identity i)"
  by (rule sound_task [where act = "StoreIdentity i", OF _ _ more_receivers_same])
    (auto simp: snd_discarded store_first_identity_def insert_wallet_identity_def constraint_def split: if_splits option.splits)

lemma sound_touch: "keeps (sound ext payee held) (touch_wallet_identity_validation now)"
  by (rule sound_task [where act = "TouchIdentity now", OF _ _ more_receivers_same])
    (auto simp: touch_wallet_identity_validation_def)

lemma sound_metadata: "keeps (sound ext payee held) (store_fresh_metadata cfg)"
  by (rule sound_task [where act = "StoreMetadata cfg", OF _ _ more_receivers_same])
    (auto simp: snd_discarded store_fresh_metadata_def insert_service_metadata_def constraint_def split: if_splits option.splits)

lemma sound_required: "keeps (sound ext payee held) (apply_required_confirmations n)"
  by (rule sound_task [where act = "ApplyRequired n", OF _ _ more_receivers_same])
    (auto simp: apply_required_confirmations_def Let_def)

lemma sound_schema: "keeps (sound ext payee held) initialize_schema"
proof (rule sound_task [where act = OpenDatabase])
  fix R V
  have each: "keeps (more_receivers R V) (for_each insert_receiver_row rows u)" for rows u
    by (intro keeps_for_each more_receivers_insert)
  have copy: "keeps (more_receivers R V) copy_orchard_receivers_to_ironwood"
    unfolding keeps_def copy_orchard_receivers_to_ironwood_def
    by (intro allI impI, drule in_tx_state) (auto dest: keepsD [OF each])
  show "keeps (more_receivers R V) initialize_schema"
    unfolding initialize_schema_def bump_schema_version_def
    by (intro keeps_tx keeps_intros copy more_receivers_writes) simp_all
qed simp_all

lemma sound_ensure_identity: "keeps (sound ext payee held) (ensure_wallet_identity (\<lambda>d. d) cfg found now)"
  unfolding ensure_wallet_identity_def integrity_def
  by (intro keeps_intros) (auto intro!: keeps_intros keeps_writes sound_touch sound_identity split: option.split)

lemma sound_ensure_metadata: "keeps (sound ext payee held) (ensure_service_metadata (\<lambda>d. d) cfg)"
  unfolding ensure_service_metadata_def ensure_service_metadata_row_def integrity_def
  by (intro keeps_intros sound_required) (auto intro!: keeps_intros keeps_writes sound_metadata split: option.split)

lemma sound_initialize: "keeps (sound ext payee held) (initialize_payment_service lib cfg wallet_db first_read now second_read)"
  unfolding initialize_payment_service_def integrity_def
  by (intro keeps_intros keeps_if keeps_stamped sound_schema sound_ensure_identity sound_ensure_metadata)

lemma sound_queue_all: "keeps (sound ext payee held) (queue_all_dirty_webhook_deliveries ext now)"
proof (rule sound_task [where act = "QueueAllDirty now"])
  fix R V
  show "keeps (more_receivers R V) (queue_all_dirty_webhook_deliveries ext now)"
    unfolding queue_all_dirty_webhook_deliveries_def by (intro keeps_intros queue_dirty_more)
qed (simp_all add: snd_discarded)

lemma recovered_tables:
  "db_receipts (fold (\<lambda>i. update_delivery i f) ids db) = db_receipts db
   \<and> db_receivers (fold (\<lambda>i. update_delivery i f) ids db) = db_receivers db"
  by (induction ids arbitrary: db) (simp_all add: update_delivery_def)

lemma sound_recover: "keeps (sound ext payee None) (recover_interrupted_webhook_deliveries now)"
  unfolding keeps_def
proof (intro allI impI)
  fix db r db'
  assume db: "sound ext payee None db" and run: "recover_interrupted_webhook_deliveries now db = (r, db')"
  then have "more_receivers (db_receipts db) (db_receivers db) db'"
    using recovered_tables by (auto simp: recover_interrupted_Inr more_receivers_def)
  with db more_follow have "receipts_follow payee db'" by (auto simp: sound_def)
  then show "sound ext payee None db'" by (intro sound_run [OF db, of "[Recover now]"]) (simp_all add: run)
qed

lemma sound_start:
  "keeps (sound ext payee None) (start_service ext lib cfg wallet_db first_read now second_read recovered_at queued_at)"
  unfolding start_service_def recover_startup_webhook_state_def
  by (intro keeps_intros keeps_stamped sound_initialize sound_schema sound_recover sound_queue_all)

section \<open>Requests\<close>

lemma sound_allocate: "keeps (sound ext payee held) (allocate_fresh_address prepare now)"
  by (rule sound_task [where act = "AllocateAddress prepare now", OF _ _ allocate_more]) (simp_all add: snd_discarded)

lemma sound_link: "keeps (sound ext payee held) (insert_payment_link pid a url now)"
  by (rule sound_task [where act = "InsertLink pid a url now", OF _ _ link_more]) simp_all

text \<open>A service that scans the chain has no simulated payments.\<close>

lemma sound_serve:
  assumes "\<not> ps_dev_simulated_payments service"
  shows "keeps (sound ext payee held) (serve ext lib parse service call)"
proof (cases call)
  case (Session request allocated_at random_bytes linked_at)
  show ?thesis unfolding Session serve.simps issue_payment_session_def mint_address_def Let_def
    by (intro keeps_discard keeps_if keeps_intros keeps_split keeps_stamped sound_allocate sound_link)
next
  case (Simulation request marked_at random_bytes now applied_at queued_at)
  show ?thesis unfolding Simulation serve.simps simulate_payment_def
    by (intro keeps_discard keeps_if keeps_intros) (use assms in simp_all)
next
  case (Status payment_id)
  show ?thesis unfolding Status serve.simps payment_status_op_def
    by (intro keeps_discard keeps_if keeps_intros) (simp add: keeps_intros split: option.split)
next
  case Health
  show ?thesis unfolding Health serve.simps health_response_op_def current_service_metadata_def
    by (intro keeps_discard keeps_intros) (simp add: keeps_intros split: option.split)
qed

section \<open>The workers\<close>

lemma sound_sync:
  assumes env: "scans_follow env payee" "se_ext env = ext" and s: "sound ext payee (ss_held s) (ss_db s)"
    and others: "list_all (other_task ext) (ss_others s)"
    and run: "sync_with_lightwalletd env cfg identity metadata uivk url s = (r, t)"
  shows "sound ext payee (ss_held t) (ss_db t)"
proof -
  have start: "follow payee (db_receivers (ss_db s)) (ss_db s)" using s by (simp add: follow_def sound_def)
  have "among_others (se_ext env) s" using others by (simp add: among_others_def env(2))
  from refinesD [OF refines_iteration [OF env(1)] start this run] obtain acts where
    "run_service ext acts (shared s) = Some (shared t)" "receipts_follow payee (ss_db t)"
    by (auto simp: sync_steps_def follow_def env(2))
  with sound_run [OF s] show ?thesis by (simp add: shared_def)
qed

lemma sound_step:
  assumes "sound ext payee (sv_held sv) (sv_db sv)" "of_other_tasks act" "service_step ext act sv = Some sv'"
  shows "sound ext payee (sv_held sv') (sv_db sv')"
  using assms(1) reachable_step [OF _ assms(3)] more_follow [OF _ other_step_more [OF assms(3,2)]]
  by (simp add: sound_service)

lemma sound_iteration:
  assumes s: "sound ext payee None (wk_db s)" and run: "deliver_ready_once ext w cfg s = (r, s')"
  shows "sound ext payee None (wk_db s')"
proof -
  from iteration_steps [OF run] obtain acts where
    acts: "run_service ext acts \<lparr>sv_db = wk_db s, sv_held = None\<rparr> = Some \<lparr>sv_db = wk_db s', sv_held = None\<rparr>"
    and "list_all of_other_tasks acts" by fastforce
  from more_follow [OF _ other_run_more [OF this, simplified]] s have "receipts_follow payee (wk_db s')"
    by (simp add: sound_def)
  with sound_run [OF s acts] show ?thesis .
qed

section \<open>The life of a service\<close>

text \<open>
  The states a service that scans the chain may be in. \<open>envs\<close> are the environments its synchronisations may meet;
  \<open>payee\<close> gives the receiver an output pays. A start finds the database of whatever process came before it, killed
  with a delivery in its hands or not.
\<close>

inductive lived :: "externals \<Rightarrow> payee \<Rightarrow> ('c, 'k, 'i) sync_env set \<Rightarrow> service \<Rightarrow> bool" for ext payee envs where
  created: "lived ext payee envs initial_service"
| started: "lived ext payee envs sv \<Longrightarrow>
    start_service ext (lib :: ('k, 'i) zcash_lib) cfg wallet_db first_read now second_read recovered_at queued_at (sv_db sv) = (r, db) \<Longrightarrow>
    lived ext payee envs \<lparr>sv_db = db, sv_held = None\<rparr>"
| served: "lived ext payee envs sv \<Longrightarrow> \<not> ps_dev_simulated_payments (service :: 'k payment_service) \<Longrightarrow>
    serve ext (lib :: ('k, 'i) zcash_lib) parse service call (sv_db sv) = (r, db) \<Longrightarrow> lived ext payee envs (sv\<lparr>sv_db := db\<rparr>)"
| synced: "lived ext payee envs (shared s) \<Longrightarrow> env \<in> envs \<Longrightarrow> scans_follow env payee \<Longrightarrow> se_ext env = ext \<Longrightarrow>
    list_all (other_task ext) (ss_others s) \<Longrightarrow>
    sync_with_lightwalletd env cfg identity metadata uivk url s = (r, t) \<Longrightarrow> lived ext payee envs (shared t)"
| delivered: "lived ext payee envs \<lparr>sv_db = wk_db s, sv_held = None\<rparr> \<Longrightarrow> deliver_ready_once ext w cfg s = (r, s') \<Longrightarrow>
    lived ext payee envs \<lparr>sv_db = wk_db s', sv_held = None\<rparr>"
| stepped: "lived ext payee envs sv \<Longrightarrow> of_other_tasks act \<Longrightarrow> service_step ext act sv = Some sv' \<Longrightarrow> lived ext payee envs sv'"

lemma lived_sound: "lived ext payee envs sv \<Longrightarrow> sound ext payee (sv_held sv) (sv_db sv)"
proof (induction rule: lived.induct)
  case created
  show ?case using reachable_init [of ext] by (simp add: sound_service) (simp add: initial_service_def receipts_follow_def owned_def empty_db_def)
next
  case started
  then show ?case using keepsD [OF sound_start sound_dead] by simp
next
  case served
  then show ?case using keepsD [OF sound_serve] by simp
next
  case synced
  then show ?case using sound_sync by (simp add: shared_def)
next
  case delivered
  then show ?case using sound_iteration by simp
next
  case stepped
  then show ?case using sound_step by blast
qed

text \<open>The times the next attempts wait for have come.\<close>

definition waits_over :: "string \<Rightarrow> app_db \<Rightarrow> bool" where
  "waits_over now db \<longleftrightarrow> list_all (\<lambda>d. wd_delivery_state d = RetryWait \<longrightarrow>
     (case wd_next_attempt_at d of None \<Rightarrow> False | Some at \<Rightarrow> at \<le> now)) (db_deliveries db)"

lemma waits_ready: "waits_over now db \<Longrightarrow> sending_ids db = [] \<Longrightarrow> all_ready now db"
  by (auto simp: waits_over_def all_ready_def is_ready_def is_outstanding_def sending_none list_all_iff)

text \<open>A start that succeeds leaves every delivery waiting and no address dirty.\<close>

lemma start_rests:
  assumes "sound ext payee None db"
    and "start_service ext lib cfg wallet_db first_read now second_read recovered_at queued_at db = (Inr v, db0)"
  shows "db_ok db0" "nothing_dirty db0" "sending_ids db0 = []"
proof -
  from assms(2) obtain sv d1 d2 rec where 1: "initialize_payment_service lib cfg wallet_db first_read now second_read db = (Inr sv, d1)"
    and 2: "initialize_schema d1 = (Inr (), d2)" and 3: "recover_startup_webhook_state ext recovered_at queued_at d2 = (Inr rec, db0)"
    by (auto simp: start_service_def andThen_Inr)
  have ok: "db_ok d2" by (rule sound_ok [OF keepsD [OF sound_schema keepsD [OF sound_initialize assms(1) 1] 2]])
  from 3 obtain t u where times: "recovered_at = Inr t" "queued_at = Inr u"
    by (auto simp: recover_startup_webhook_state_def andThen_Inr stamped_Inr)
  from recovered_rest [OF ok 3 [unfolded times]] show "nothing_dirty db0" "sending_ids db0 = []"
    by (simp_all add: nothing_dirty_def no_dirty)
  show "db_ok db0" by (rule sound_ok [OF keepsD [OF sound_start assms(1,2)]])
qed

section \<open>A sample life\<close>

text \<open>
  A start, a session, a synchronisation that finds a payment to its address, and the process killed after the
  worker has claimed the delivery.
\<close>

definition life_ext :: externals where
  "life_ext = sample_ext\<lparr>ext_print_json := (\<lambda>j. case j of JObject ((k, JString e) # _) \<Rightarrow> Inr e | _ \<Rightarrow> Inr [])\<rparr>"

definition life_env :: "(nat, unit, unit) sync_env" where
  "life_env = sample_sync\<lparr>se_ext := life_ext\<rparr>"

definition life_config :: config where
  "life_config = sample_config\<lparr>network := ''testnet'', startup_uivk := Some ''uivk'', birthday_height := Some 100,
     lightwalletd_url := Some ''http://lwd''\<rparr>"

definition life_wallet :: "(unit, unit) zcash_lib" where
  "life_wallet = sample_wallet\<lparr>zl_find_address := (\<lambda>_ start. Inr (\<lparr>ua_orchard = Some [2], ua_sapling = Some [1],
     ua_transparent = None, ua_unknown = []\<rparr>, start))\<rparr>"

definition life_start :: "app_db \<Rightarrow> (unit payment_service \<times> startup_webhook_recovery) result \<times> app_db" where
  "life_start = start_service life_ext life_wallet life_config (Inr ()) (Inr None) (Inr ''2025-01-01'') (Inr None)
     (Inr ''2025-01-03'') (Inr ''2025-01-03'')"

definition life_service :: "unit payment_service" where
  "life_service = sample_service\<lparr>ps_dev_simulated_payments := False\<rparr>"

definition life_request :: payment_session_request where
  "life_request = \<lparr>pq_payment_source = ''zcash'', pq_label = None, pq_memo = None, pq_message = None, pq_amount = None, pq_return_url = None\<rparr>"

definition life_asked :: app_db where
  "life_asked = snd (serve life_ext life_wallet sample_parser life_service
     (Session life_request (Inr ''2025-01-01'') (replicate 16 1) (Inr ''2025-01-01'')) (snd (life_start empty_db)))"

definition life_sync :: "sync_wake_strategy result \<times> nat sync_state" where
  "life_sync = sync_with_lightwalletd life_env life_config sample_identity sample_metadata ''uivk'' ''http://lwd''
     \<lparr>ss_db = life_asked, ss_held = None, ss_others = [], ss_link = fresh_link, ss_reads = 0, ss_diverged = False\<rparr>"

definition life_synced :: service where
  "life_synced = shared (snd life_sync)"

definition life_killed :: app_db where
  "life_killed = snd (claim_ready_webhook_delivery ''2025-01-02'' (sv_db life_synced))"

definition life_restarted :: app_db where
  "life_restarted = snd (life_start life_killed)"

definition life_world :: worker_world where
  "life_world = (sample_world 200)\<lparr>ww_now := ''2025-01-04'', ww_post := (\<lambda>_. Response 200 ''ok''), ww_hmac := (\<lambda>_ _. Inr [])\<rparr>"

lemma life_scans: "scans_follow life_env sample_payee"
  using sample_scans_follow by (simp add: scans_follow_def life_env_def)

lemma life_asked_value: "life_asked =
  \<lparr>db_wallet_identity =
    Some
     \<lparr>canonical_uivk = ''uivk'', uivk_fingerprint = ''39321fe46cc04434'',
        wi_network = ''testnet'', wi_birthday_height = 100,
        wi_wallet_db_path = ''data/zcash-payment/wallet.db'',
        initialized_at = ''2025-01-01'',
        last_validated_at = ''2025-01-01''\<rparr>,
    db_simulated_marker = None,
    db_metadata =
      Some
       \<lparr>app_schema_version = 2, wallet_schema_version_seen = 0,
          last_seen_tip_height = 0, last_scanned_height = 0,
          last_stable_tip_height = 0, current_sync_state = ''starting'',
          current_scan_epoch = 0, catch_up_entered_at = None,
          catch_up_exited_at = None, md_webhook_report_confirmations = 0,
          md_finality_confirmations = 100,
          md_required_confirmations = Some 10\<rparr>,
    db_issued_addresses =
      [\<lparr>ia_address_id = 1, ia_unified_address = ''u102'',
          ia_address_source = ''fresh'',
          ia_diversifier_index_be = Some [0, 0, 0, 0, 0, 0, 0, 0, 0, 0, 0],
          ia_diversifier_bytes = Some [0, 0, 0, 0, 0, 0, 0, 0, 0, 0, 0],
          ia_created_at = ''2025-01-01'', ia_request_label = None,
          ia_request_memo = None, ia_request_message = None,
          ia_requested_amount = None\<rparr>],
    db_payment_links =
      [\<lparr>pl_payment_id = ''01010101010101010101010101010101'',
          pl_address_id = 1, pl_return_url = None,
          pl_created_at = ''2025-01-01''\<rparr>],
    db_receivers =
      [\<lparr>rv_receiver_id = 1, rv_address_id = 1, rv_pool = ''orchard'',
          rv_receiver_encoding = ''02'',
          rv_receiver_fingerprint = [175, 99, 191, 76, 134, 1, 187, 69],
          rv_is_active = True, rv_created_at = ''2025-01-01''\<rparr>,
       \<lparr>rv_receiver_id = 2, rv_address_id = 1, rv_pool = ''ironwood'',
          rv_receiver_encoding = ''02'',
          rv_receiver_fingerprint = [175, 99, 191, 76, 134, 1, 187, 69],
          rv_is_active = True, rv_created_at = ''2025-01-01''\<rparr>,
       \<lparr>rv_receiver_id = 3, rv_address_id = 1, rv_pool = ''sapling'',
          rv_receiver_encoding = ''01'',
          rv_receiver_fingerprint = [175, 99, 188, 76, 134, 1, 182, 44],
          rv_is_active = True, rv_created_at = ''2025-01-01''\<rparr>],
    db_totals =
      [\<lparr>at_address_id = 1, at_finalized_through_height = 0,
          at_finalized_total_zat = 0, at_recent_total_zat = 0,
          at_current_total_zat = 0, at_last_computed_tip_height = 0,
          at_dirty_state = Clean, at_dirty_reason = None,
          at_dirty_since_height = None, at_state_version = 0,
          at_last_changed_at = ''2025-01-01'',
          at_last_notified_total_zat = 0, at_last_notified_event_id = None,
          at_last_notified_at = None, at_received_by_confirmations = None,
          at_last_notified_by_confirmations = None\<rparr>],
    db_receipts = [], db_transitions = [], db_reorgs = [],
    db_deliveries = [], db_attempts = []\<rparr>"
  by code_simp

lemma life_synced_value: "life_synced =
  \<lparr>sv_db =
    \<lparr>db_wallet_identity =
       Some
        \<lparr>canonical_uivk = ''uivk'', uivk_fingerprint = ''39321fe46cc04434'',
           wi_network = ''testnet'', wi_birthday_height = 100,
           wi_wallet_db_path = ''data/zcash-payment/wallet.db'',
           initialized_at = ''2025-01-01'',
           last_validated_at = ''2025-01-01''\<rparr>,
       db_simulated_marker = None,
       db_metadata =
         Some
          \<lparr>app_schema_version = 2, wallet_schema_version_seen = 0,
             last_seen_tip_height = 102, last_scanned_height = 102,
             last_stable_tip_height = 102, current_sync_state = ''synced'',
             current_scan_epoch = 2,
             catch_up_entered_at = Some ''2025-01-02'',
             catch_up_exited_at = Some ''2025-01-02'',
             md_webhook_report_confirmations = 0,
             md_finality_confirmations = 100,
             md_required_confirmations = Some 10\<rparr>,
       db_issued_addresses =
         [\<lparr>ia_address_id = 1, ia_unified_address = ''u102'',
             ia_address_source = ''fresh'',
             ia_diversifier_index_be =
               Some [0, 0, 0, 0, 0, 0, 0, 0, 0, 0, 0],
             ia_diversifier_bytes = Some [0, 0, 0, 0, 0, 0, 0, 0, 0, 0, 0],
             ia_created_at = ''2025-01-01'', ia_request_label = None,
             ia_request_memo = None, ia_request_message = None,
             ia_requested_amount = None\<rparr>],
       db_payment_links =
         [\<lparr>pl_payment_id = ''01010101010101010101010101010101'',
             pl_address_id = 1, pl_return_url = None,
             pl_created_at = ''2025-01-01''\<rparr>],
       db_receivers =
         [\<lparr>rv_receiver_id = 1, rv_address_id = 1, rv_pool = ''orchard'',
             rv_receiver_encoding = ''02'',
             rv_receiver_fingerprint = [175, 99, 191, 76, 134, 1, 187, 69],
             rv_is_active = True, rv_created_at = ''2025-01-01''\<rparr>,
          \<lparr>rv_receiver_id = 2, rv_address_id = 1, rv_pool = ''ironwood'',
             rv_receiver_encoding = ''02'',
             rv_receiver_fingerprint = [175, 99, 191, 76, 134, 1, 187, 69],
             rv_is_active = True, rv_created_at = ''2025-01-01''\<rparr>,
          \<lparr>rv_receiver_id = 3, rv_address_id = 1, rv_pool = ''sapling'',
             rv_receiver_encoding = ''01'',
             rv_receiver_fingerprint = [175, 99, 188, 76, 134, 1, 182, 44],
             rv_is_active = True, rv_created_at = ''2025-01-01''\<rparr>],
       db_totals =
         [\<lparr>at_address_id = 1, at_finalized_through_height = 0,
             at_finalized_total_zat = 0, at_recent_total_zat = 500,
             at_current_total_zat = 500, at_last_computed_tip_height = 102,
             at_dirty_state = QueuedForWebhook,
             at_dirty_reason = Some ''webhook_queued'',
             at_dirty_since_height = Some 100, at_state_version = 1,
             at_last_changed_at = ''2025-01-02'',
             at_last_notified_total_zat = 0,
             at_last_notified_event_id = None, at_last_notified_at = None,
             at_received_by_confirmations =
               Some ''[500,500,500,500,0,0,0,0,0,0,0]'',
             at_last_notified_by_confirmations = None\<rparr>],
       db_receipts =
         [\<lparr>rr_receipt_id = 1, rr_address_id = 1, rr_txid = ''100'',
             rr_pool = ''sapling'', rr_receipt_uid = ''100:sapling:0'',
             rr_value_zat = 500, rr_mined_height = 100,
             rr_confirmation_depth = 3, rr_eligible_for_webhook = True,
             rr_receipt_kind = Mined, rr_first_observed_at = ''2025-01-02'',
             rr_observed_at = ''2025-01-02'', rr_receipt_state = Active,
             rr_state_version = 0\<rparr>],
       db_transitions =
         [\<lparr>st_from_state = ''starting'', st_to_state = ''catching_up'',
             st_reason =
               ''chain tip is at 102; starting pipelined catch-up with compact blocks 100..=102 and continuing through 102'',
             st_tip_height = 102, st_scanned_height = 0, st_scan_epoch = 1,
             st_detected_at = ''2025-01-02''\<rparr>,
          \<lparr>st_from_state = ''catching_up'', st_to_state = ''synced'',
             st_reason =
               ''wallet scan is caught up through block 102 at tip 102; updated 1 issued addresses from observed or matured receipts and queued 0 maturity-driven webhook deliveries'',
             st_tip_height = 102, st_scanned_height = 102,
             st_scan_epoch = 2, st_detected_at = ''2025-01-02''\<rparr>],
       db_reorgs = [],
       db_deliveries =
         [\<lparr>wd_delivery_id = 1, wd_address_id = 1,
             wd_event_id = ''zcash:1:v1'', wd_total_received_zat = 500,
             wd_observed_at = ''2025-01-02'',
             wd_request_body_json = ''zcash:1:v1'',
             wd_delivery_state = Queued, wd_attempt_count = 0,
             wd_next_attempt_at = None, wd_last_http_status = None,
             wd_last_response_body = None, wd_last_attempt_at = None,
             wd_received_by_confirmations =
               Some ''[500,500,500,500,0,0,0,0,0,0,0]''\<rparr>],
       db_attempts = []\<rparr>,
    sv_held = None\<rparr>"
  unfolding life_synced_def life_sync_def life_asked_value by code_simp

lemma life_lived: "\<exists>held. lived life_ext sample_payee {life_env} \<lparr>sv_db = life_killed, sv_held = held\<rparr>"
proof -
  have service: "\<not> ps_dev_simulated_payments life_service" by (simp add: life_service_def)
  have "lived life_ext sample_payee {life_env} \<lparr>sv_db = snd (life_start empty_db), sv_held = None\<rparr>"
    using started [OF created prod.collapse [symmetric]] by (simp add: life_start_def initial_service_def)
  from served [OF this service prod.collapse [symmetric], where parse = sample_parser and lib = life_wallet
      and call = "Session life_request (Inr ''2025-01-01'') (replicate 16 1) (Inr ''2025-01-01'')"]
  have asked: "lived life_ext sample_payee {life_env} \<lparr>sv_db = life_asked, sv_held = None\<rparr>"
    by (simp add: life_asked_def del: serve.simps)
  have synced: "lived life_ext sample_payee {life_env} life_synced"
    unfolding life_synced_def life_sync_def
    by (rule synced [OF _ _ life_scans _ _ prod.collapse [symmetric]]) (use asked in \<open>simp_all add: shared_def life_env_def\<close>)
  have "sv_held life_synced = None" by (simp add: life_synced_value)
  moreover obtain c where "claim_ready_webhook_delivery ''2025-01-02'' (sv_db life_synced) = (Inr c, life_killed)"
    using claim_total unfolding life_killed_def by (metis snd_conv)
  ultimately have "\<exists>held. service_step life_ext (Claim ''2025-01-02'') life_synced = Some \<lparr>sv_db = life_killed, sv_held = held\<rparr>"
    by (cases c) simp_all
  with stepped [OF synced, of "Claim ''2025-01-02''"] show ?thesis by auto
qed

definition life_loop :: "nat list \<times> worker_state" where
  "life_loop = delivery_loop life_ext life_config [life_world, life_world] \<lparr>wk_db = life_restarted, wk_sent = []\<rparr>"

lemmas life_unfold = life_restarted_def life_killed_def life_synced_value

lemma life_results:
  "map wd_delivery_state (db_deliveries life_killed) = [Sending]"
  "map at_current_total_zat (db_totals life_killed) = [500]"
  "case fst (life_start life_killed) of Inr _ \<Rightarrow> True | Inl _ \<Rightarrow> False"
  "backlog life_restarted \<le> 2 \<and> waits_over ''2025-01-04'' life_restarted"
  "map at_last_notified_total_zat (db_totals (wk_db (snd life_loop))) = [500]"
  unfolding life_unfold life_loop_def by code_simp+

lemma life_receptive: "receptive life_world life_config"
proof -
  have "worker_enabled life_config" by code_simp
  then show ?thesis by (simp add: receptive_def life_world_def is_success_def)
qed

lemma life_prints: "\<exists>text. ext_print_json life_ext j = Inr text"
  by (simp add: life_ext_def split: json.split list.split prod.split)

section \<open>Properties\<close>





end
