(* ===== verification/Wallet_Db_Init.thy ===== *)
theory Wallet_Db_Init
  imports Zcash_Wallet Env_Config
begin

text \<open>
  \<^verbatim>\<open>src/wallet_db.rs\<close>: opening the wallet database. Threads that open it share two process-wide values,
  the set of paths already migrated and the initialization lock; a thread that does not find its path in the
  set takes the lock, looks again, and only then opens the file and migrates it. Every access to the shared
  values is a step of its own, so the steps of the threads interleave freely. What the file system and the
  wallet library answer is an argument of the step; \<open>resolve\<close> maps a path to the file it leads to
  (\<^verbatim>\<open>canonicalize\<close> fails while that file does not exist).
\<close>

section \<open>State\<close>

type_synonym path = string

text \<open>
  Where a thread is in \<^verbatim>\<open>open_migrated_wallet_db\<close>: each constructor names what it does next. From \<open>Holding\<close> to
  \<open>Marking\<close> it holds the lock; from \<open>Migrating\<close> on, and after a successful return, it has a connection.
\<close>

datatype progress =
    Calling
  | Looking_Up path
  | Opening_Migrated
  | Waiting
  | Holding
  | Looking_Up_Again path
  | Reopening
  | Opening
  | Migrating
  | Marking
  | Returned "unit result"
  | Panicked

record thread =
  th_path :: path
  th_network :: string
  th_progress :: progress

record init_state =
  is_migrated_paths :: "path list"
  is_cache_poisoned :: bool
  is_lock_holder :: "nat option"
  is_lock_poisoned :: bool
  is_files :: "path list"
  is_migrations :: "path list"
  is_threads :: "thread list"

text \<open>What the library calls of one step answer.\<close>

datatype library_answer =
    Succeeds
  | Directory_Fails string
  | Database_Fails sqlite_error
  | Migration_Fails string
  | Panics

section \<open>The functions\<close>

definition wallet_db_init_lock :: "init_state \<Rightarrow> unit result" where
  "wallet_db_init_lock s =
     (if is_lock_poisoned s then Inl (Wallet ''wallet DB initialization lock was poisoned'') else Inr ())"

definition normalize_wallet_db_path :: "(path \<Rightarrow> path) \<Rightarrow> init_state \<Rightarrow> path \<Rightarrow> path" where
  "normalize_wallet_db_path resolve s p = (if resolve p \<in> set (is_files s) then resolve p else p)"

definition path_already_migrated :: "init_state \<Rightarrow> path \<Rightarrow> bool result" where
  "path_already_migrated s normalized_path =
     (if is_cache_poisoned s then Inl (Wallet ''wallet DB migration cache lock was poisoned'')
      else Inr (normalized_path \<in> set (is_migrated_paths s)))"

definition mark_path_migrated :: "path \<Rightarrow> init_state \<Rightarrow> unit result \<times> init_state" where
  "mark_path_migrated normalized_path s =
     (if is_cache_poisoned s then (Inl (Wallet ''wallet DB migration cache lock was poisoned''), s)
      else (Inr (), s\<lparr>is_migrated_paths := List.insert normalized_path (is_migrated_paths s)\<rparr>))"

definition migrate_wallet_db :: "library_answer \<Rightarrow> unit result" where
  "migrate_wallet_db answer =
     (case answer of
        Migration_Fails e \<Rightarrow> Inl (Wallet (''failed to initialize wallet DB schema: '' @ e))
      | _ \<Rightarrow> Inr ())"

definition open_wallet_db :: "string \<Rightarrow> library_answer \<Rightarrow> unit result" where
  "open_wallet_db network_name answer =
     (case answer of
        Directory_Fails e \<Rightarrow> Inl (Io e)
      | _ \<Rightarrow> bind_result (consensus_network network_name) (\<lambda>_.
          case answer of Database_Fails e \<Rightarrow> Inl (Database e) | _ \<Rightarrow> Inr ()))"

section \<open>Steps\<close>

definition at_step :: "nat \<Rightarrow> progress \<Rightarrow> init_state \<Rightarrow> init_state" where
  "at_step i g s = s\<lparr>is_threads := (is_threads s)[i := (is_threads s ! i)\<lparr>th_progress := g\<rparr>]\<rparr>"

text \<open>Leaving the function drops the guard.\<close>

definition release :: "init_state \<Rightarrow> init_state" where
  "release s = s\<lparr>is_lock_holder := None\<rparr>"

definition creates :: "(path \<Rightarrow> path) \<Rightarrow> path \<Rightarrow> init_state \<Rightarrow> init_state" where
  "creates resolve p s = s\<lparr>is_files := List.insert (resolve p) (is_files s)\<rparr>"

fun holds_lock :: "progress \<Rightarrow> bool" where
  "holds_lock Holding = True"
| "holds_lock (Looking_Up_Again q) = True"
| "holds_lock Reopening = True"
| "holds_lock Opening = True"
| "holds_lock Migrating = True"
| "holds_lock Marking = True"
| "holds_lock _ = False"

text \<open>A panic with the guard poisons the lock.\<close>

definition panic :: "nat \<Rightarrow> progress \<Rightarrow> init_state \<Rightarrow> init_state" where
  "panic i g s = (if holds_lock g then (release (at_step i Panicked s))\<lparr>is_lock_poisoned := True\<rparr> else at_step i Panicked s)"

fun open_migrated_wallet_db ::
  "(path \<Rightarrow> path) \<Rightarrow> nat \<Rightarrow> path \<Rightarrow> string \<Rightarrow> library_answer \<Rightarrow> progress \<Rightarrow> init_state \<Rightarrow> init_state option" where
  "open_migrated_wallet_db resolve i p network_name answer Calling s =
     Some (at_step i (Looking_Up (normalize_wallet_db_path resolve s p)) s)"
| "open_migrated_wallet_db resolve i p network_name answer (Looking_Up q) s =
     Some (case path_already_migrated s q of
        Inl e \<Rightarrow> at_step i (Returned (Inl e)) s
      | Inr migrated \<Rightarrow> at_step i (if migrated then Opening_Migrated else Waiting) s)"
| "open_migrated_wallet_db resolve i p network_name answer Opening_Migrated s =
     Some (case open_wallet_db network_name answer of
        Inl e \<Rightarrow> at_step i (Returned (Inl e)) s
      | Inr u \<Rightarrow> at_step i (Returned (Inr u)) (creates resolve p s))"
| "open_migrated_wallet_db resolve i p network_name answer Waiting s =
     (if is_lock_holder s \<noteq> None then None
      else Some (case wallet_db_init_lock s of
        Inl e \<Rightarrow> at_step i (Returned (Inl e)) s
      | Inr _ \<Rightarrow> at_step i Holding (s\<lparr>is_lock_holder := Some i\<rparr>)))"
| "open_migrated_wallet_db resolve i p network_name answer Holding s =
     Some (at_step i (Looking_Up_Again (normalize_wallet_db_path resolve s p)) s)"
| "open_migrated_wallet_db resolve i p network_name answer (Looking_Up_Again q) s =
     Some (case path_already_migrated s q of
        Inl e \<Rightarrow> release (at_step i (Returned (Inl e)) s)
      | Inr migrated \<Rightarrow> at_step i (if migrated then Reopening else Opening) s)"
| "open_migrated_wallet_db resolve i p network_name answer Reopening s =
     Some (case open_wallet_db network_name answer of
        Inl e \<Rightarrow> release (at_step i (Returned (Inl e)) s)
      | Inr u \<Rightarrow> release (at_step i (Returned (Inr u)) (creates resolve p s)))"
| "open_migrated_wallet_db resolve i p network_name answer Opening s =
     Some (case open_wallet_db network_name answer of
        Inl e \<Rightarrow> release (at_step i (Returned (Inl e)) s)
      | Inr _ \<Rightarrow> at_step i Migrating (creates resolve p s))"
| "open_migrated_wallet_db resolve i p network_name answer Migrating s =
     Some (case migrate_wallet_db answer of
        Inl e \<Rightarrow> release (at_step i (Returned (Inl e)) s)
      | Inr _ \<Rightarrow> at_step i Marking (s\<lparr>is_migrations := resolve p # is_migrations s\<rparr>))"
| "open_migrated_wallet_db resolve i p network_name answer Marking s =
     Some (case mark_path_migrated (normalize_wallet_db_path resolve s p) s of
        (Inl e, t) \<Rightarrow> release (at_step i (Returned (Inl e)) t)
      | (Inr u, t) \<Rightarrow> release (at_step i (Returned (Inr u)) t))"
| "open_migrated_wallet_db resolve i p network_name answer (Returned r) s = None"
| "open_migrated_wallet_db resolve i p network_name answer Panicked s = None"

fun ended :: "progress \<Rightarrow> bool" where
  "ended (Returned r) = True"
| "ended Panicked = True"
| "ended _ = False"

definition thread_step :: "(path \<Rightarrow> path) \<Rightarrow> nat \<Rightarrow> library_answer \<Rightarrow> init_state \<Rightarrow> init_state option" where
  "thread_step resolve i answer s =
     (if length (is_threads s) \<le> i then None
      else let t = is_threads s ! i in
        if answer = Panics \<and> \<not> ended (th_progress t) \<and> th_progress t \<noteq> Waiting then Some (panic i (th_progress t) s)
        else open_migrated_wallet_db resolve i (th_path t) (th_network t) answer (th_progress t) s)"

text \<open>Any number of threads call at once; other processes may create files; nobody deletes one.\<close>

definition all_calling :: "(path \<times> string) list \<Rightarrow> path list \<Rightarrow> init_state" where
  "all_calling calls files =
     \<lparr>is_migrated_paths = [], is_cache_poisoned = False, is_lock_holder = None, is_lock_poisoned = False, is_files = files,
      is_migrations = [], is_threads = map (\<lambda>(p, n). \<lparr>th_path = p, th_network = n, th_progress = Calling\<rparr>) calls\<rparr>"

inductive opens_after :: "(path \<Rightarrow> path) \<Rightarrow> (path \<times> string) list \<Rightarrow> nat \<Rightarrow> init_state \<Rightarrow> bool" for resolve calls where
  started: "opens_after resolve calls 0 (all_calling calls files)"
| stepped: "opens_after resolve calls k s \<Longrightarrow> thread_step resolve i answer s = Some t \<Longrightarrow> opens_after resolve calls (Suc k) t"
| file_appeared: "opens_after resolve calls k s \<Longrightarrow> opens_after resolve calls k (creates resolve p s)"

section \<open>The state of the wallet database\<close>

record wallet_db_state =
  wb_birthday_height :: "nat option"
  wb_chain_tip_height :: "nat option"
  wb_fully_scanned_height :: "nat option"

text \<open>
  \<open>opened\<close> is the outcome of the opening (\<^verbatim>\<open>initialize_wallet_db\<close> is just that outcome); the summary of the wallet library is
  the chain tip and the fully scanned height.
\<close>

definition read_wallet_db_state ::
  "unit result \<Rightarrow> (string + nat option) \<Rightarrow> (string + (nat \<times> nat) option) \<Rightarrow> wallet_db_state result" where
  "read_wallet_db_state opened birthday summary =
     bind_result opened (\<lambda>_.
     bind_result (map_error (\<lambda>e. Wallet (''failed to read wallet DB birthday: '' @ e)) birthday) (\<lambda>birthday_height.
     bind_result (map_error (\<lambda>e. Wallet (''failed to read wallet DB summary: '' @ e)) summary) (\<lambda>summary.
     Inr \<lparr>wb_birthday_height = birthday_height, wb_chain_tip_height = map_option fst summary,
          wb_fully_scanned_height = map_option snd summary\<rparr>)))"

section \<open>Invariant\<close>

fun thread_ok :: "(path \<Rightarrow> path) \<Rightarrow> init_state \<Rightarrow> path \<Rightarrow> progress \<Rightarrow> bool" where
  "thread_ok resolve s p (Looking_Up q) \<longleftrightarrow> q = resolve p \<or> q = p"
| "thread_ok resolve s p (Looking_Up_Again q) \<longleftrightarrow>
     (q = resolve p \<or> q = p) \<and> (resolve p \<in> set (is_migrated_paths s) \<longrightarrow> q = resolve p)"
| "thread_ok resolve s p Opening_Migrated \<longleftrightarrow> resolve p \<in> set (is_migrations s)"
| "thread_ok resolve s p Reopening \<longleftrightarrow> resolve p \<in> set (is_migrations s)"
| "thread_ok resolve s p Opening \<longleftrightarrow> resolve p \<notin> set (is_migrations s)"
| "thread_ok resolve s p Migrating \<longleftrightarrow> resolve p \<notin> set (is_migrations s) \<and> resolve p \<in> set (is_files s)"
| "thread_ok resolve s p Marking \<longleftrightarrow> resolve p \<in> set (is_migrations s) \<and> resolve p \<in> set (is_files s)"
| "thread_ok resolve s p (Returned (Inr u)) \<longleftrightarrow> resolve p \<in> set (is_migrations s)"
| "thread_ok resolve s p _ \<longleftrightarrow> True"

text \<open>The file a thread works on, and how far it is.\<close>

abbreviation stage :: "init_state \<Rightarrow> nat \<Rightarrow> progress" where
  "stage s i \<equiv> th_progress (is_threads s ! i)"

abbreviation path_of :: "init_state \<Rightarrow> nat \<Rightarrow> path" where
  "path_of s i \<equiv> th_path (is_threads s ! i)"

definition marks_ok :: "(path \<Rightarrow> path) \<Rightarrow> init_state \<Rightarrow> bool" where
  "marks_ok resolve s \<longleftrightarrow> list_all (\<lambda>m. resolve m = m \<and> m \<in> set (is_migrations s) \<and> m \<in> set (is_files s)) (is_migrated_paths s)
    \<and> distinct (is_migrations s) \<and> \<not> is_cache_poisoned s \<and> (is_lock_holder s \<noteq> None \<longrightarrow> \<not> is_lock_poisoned s)"

definition unmarked_held :: "(path \<Rightarrow> path) \<Rightarrow> init_state \<Rightarrow> bool" where
  "unmarked_held resolve s \<longleftrightarrow> is_lock_poisoned s \<or> (\<forall>f \<in> set (is_migrations s). f \<in> set (is_migrated_paths s)
    \<or> (\<exists>i. is_lock_holder s = Some i \<and> stage s i = Marking \<and> resolve (path_of s i) = f))"

definition init_ok :: "(path \<Rightarrow> path) \<Rightarrow> init_state \<Rightarrow> bool" where
  "init_ok resolve s \<longleftrightarrow> marks_ok resolve s \<and> unmarked_held resolve s
    \<and> (\<forall>i. is_lock_holder s = Some i \<longrightarrow> i < length (is_threads s))
    \<and> (\<forall>i < length (is_threads s). thread_ok resolve s (path_of s i) (stage s i) \<and> (holds_lock (stage s i) \<longleftrightarrow> is_lock_holder s = Some i))"

lemma thread_ok_frame:
  "thread_ok resolve s p g \<Longrightarrow> set (is_files s) \<subseteq> set (is_files t) \<Longrightarrow> set (is_migrations s) \<subseteq> set (is_migrations t) \<Longrightarrow>
   is_migrated_paths t = is_migrated_paths s \<and> is_migrations t = is_migrations s \<or> \<not> holds_lock g \<Longrightarrow> thread_ok resolve t p g"
  by (cases "(resolve, s, p, g)" rule: thread_ok.cases) auto

text \<open>A step of thread \<open>i\<close> leaves the rest alone unless it holds the lock.\<close>

lemma init_ok_step:
  assumes s: "init_ok resolve s" "i < length (is_threads s)"
    and t: "is_threads t = (is_threads s)[i := (is_threads s ! i)\<lparr>th_progress := g\<rparr>]" "marks_ok resolve t" "unmarked_held resolve t"
    and grows: "set (is_files s) \<subseteq> set (is_files t)" "set (is_migrations s) \<subseteq> set (is_migrations t)"
    and frame: "is_migrated_paths t = is_migrated_paths s \<and> is_migrations t = is_migrations s \<or> is_lock_holder s = Some i"
    and own: "thread_ok resolve t (path_of s i) g"
    and lock: "is_lock_holder t = (if holds_lock g then Some i else if is_lock_holder s = Some i then None else is_lock_holder s)"
      "is_lock_holder s = None \<or> is_lock_holder s = Some i \<or> \<not> holds_lock g"
  shows "init_ok resolve t"
proof -
  have others: "thread_ok resolve t (path_of s j) (stage s j)" "holds_lock (stage s j) \<longleftrightarrow> is_lock_holder t = Some j"
    if "j < length (is_threads s)" "j \<noteq> i" for j
  proof -
    have j: "thread_ok resolve s (path_of s j) (stage s j)" "holds_lock (stage s j) \<longleftrightarrow> is_lock_holder s = Some j"
      using s(1) that(1) by (auto simp: init_ok_def)
    show "thread_ok resolve t (path_of s j) (stage s j)"
      by (rule thread_ok_frame [OF j(1) grows]) (use frame j(2) that(2) in auto)
    show "holds_lock (stage s j) \<longleftrightarrow> is_lock_holder t = Some j" using j(2) lock that(2) by (auto split: if_splits)
  qed
  have "\<forall>j. is_lock_holder t = Some j \<longrightarrow> j < length (is_threads t)"
    using s lock by (auto simp: init_ok_def t(1) split: if_splits)
  moreover have "thread_ok resolve t (path_of t j) (stage t j) \<and> (holds_lock (stage t j) \<longleftrightarrow> is_lock_holder t = Some j)"
    if "j < length (is_threads t)" for j
  proof (cases "j = i")
    case True
    with own lock s(2) show ?thesis by (auto simp: t(1) split: if_splits)
  next
    case False
    with others [of j] that show ?thesis by (simp add: t(1))
  qed
  ultimately show ?thesis using t(2,3) by (simp add: init_ok_def)
qed

lemma at_step_simps [simp]:
  "is_threads (at_step i g s) = (is_threads s)[i := (is_threads s ! i)\<lparr>th_progress := g\<rparr>]"
  "is_migrated_paths (at_step i g s) = is_migrated_paths s" "is_migrations (at_step i g s) = is_migrations s"
  "is_files (at_step i g s) = is_files s" "is_lock_holder (at_step i g s) = is_lock_holder s"
  "is_lock_poisoned (at_step i g s) = is_lock_poisoned s" "is_cache_poisoned (at_step i g s) = is_cache_poisoned s"
  by (simp_all add: at_step_def)

lemma release_simps [simp]:
  "is_threads (release s) = is_threads s" "is_migrated_paths (release s) = is_migrated_paths s" "is_migrations (release s) = is_migrations s"
  "is_files (release s) = is_files s" "is_lock_holder (release s) = None"
  "is_lock_poisoned (release s) = is_lock_poisoned s" "is_cache_poisoned (release s) = is_cache_poisoned s"
  by (simp_all add: release_def)

lemma creates_simps [simp]:
  "is_threads (creates r p s) = is_threads s" "is_migrated_paths (creates r p s) = is_migrated_paths s" "is_migrations (creates r p s) = is_migrations s"
  "set (is_files (creates r p s)) = insert (r p) (set (is_files s))" "is_lock_holder (creates r p s) = is_lock_holder s"
  "is_lock_poisoned (creates r p s) = is_lock_poisoned s" "is_cache_poisoned (creates r p s) = is_cache_poisoned s"
  by (simp_all add: creates_def)

text \<open>Steps that move only the program counter, the lock and the set of files.\<close>

lemma marks_ok_grow:
  "marks_ok resolve s \<Longrightarrow> is_migrated_paths t = is_migrated_paths s \<Longrightarrow> is_migrations t = is_migrations s \<Longrightarrow>
   set (is_files s) \<subseteq> set (is_files t) \<Longrightarrow> is_cache_poisoned t = is_cache_poisoned s \<Longrightarrow>
   is_lock_holder t \<noteq> None \<longrightarrow> \<not> is_lock_poisoned t \<Longrightarrow> marks_ok resolve t"
  by (auto simp: marks_ok_def list_all_iff)

lemma unmarked_held_grow:
  "unmarked_held resolve s \<Longrightarrow> is_migrated_paths t = is_migrated_paths s \<Longrightarrow> is_migrations t = is_migrations s \<Longrightarrow>
   is_lock_poisoned t = is_lock_poisoned s \<Longrightarrow>
   is_lock_holder t = is_lock_holder s \<and> is_threads t = is_threads s
     \<or> (\<forall>i. is_lock_holder s = Some i \<longrightarrow> stage s i \<noteq> Marking) \<or> is_lock_poisoned s \<Longrightarrow> unmarked_held resolve t"
  by (auto simp: unmarked_held_def)

lemma unmarked_held_other:
  "unmarked_held resolve s \<Longrightarrow> is_migrated_paths t = is_migrated_paths s \<Longrightarrow> is_migrations t = is_migrations s \<Longrightarrow>
   is_lock_poisoned t = is_lock_poisoned s \<Longrightarrow> is_lock_holder t = is_lock_holder s \<Longrightarrow>
   is_threads t = (is_threads s)[i := x] \<Longrightarrow> is_lock_holder s \<noteq> Some i \<Longrightarrow> unmarked_held resolve t"
  by (auto simp: unmarked_held_def)

text \<open>Holding the lock, either every successful migration is marked or its thread is about to.\<close>

lemma all_marked:
  assumes "init_ok resolve s" "i < length (is_threads s)" "holds_lock (stage s i)" "stage s i \<noteq> Marking"
  shows "set (is_migrations s) = set (is_migrated_paths s)"
proof -
  have "is_lock_holder s = Some i" using assms by (auto simp: init_ok_def)
  then have "set (is_migrations s) \<subseteq> set (is_migrated_paths s)"
    using assms by (auto simp: init_ok_def marks_ok_def unmarked_held_def)
  moreover have "set (is_migrated_paths s) \<subseteq> set (is_migrations s)"
    using assms(1) by (auto simp: init_ok_def marks_ok_def list_all_iff)
  ultimately show ?thesis by blast
qed

lemma holder_threads:
  assumes "init_ok resolve s" "i < length (is_threads s)"
  shows "holds_lock (stage s i) \<longleftrightarrow> is_lock_holder s = Some i" "thread_ok resolve s (path_of s i) (stage s i)"
    "marks_ok resolve s" "unmarked_held resolve s"
  using assms by (auto simp: init_ok_def)

lemma plain_step:
  assumes s: "init_ok resolve s" "i < length (is_threads s)" "stage s i \<noteq> Marking"
    and t: "is_threads t = (is_threads s)[i := (is_threads s ! i)\<lparr>th_progress := g\<rparr>]"
      "is_migrated_paths t = is_migrated_paths s" "is_migrations t = is_migrations s" "set (is_files s) \<subseteq> set (is_files t)"
      "is_lock_poisoned t = is_lock_poisoned s" "is_cache_poisoned t = is_cache_poisoned s"
    and lock: "is_lock_holder t = (if holds_lock g then Some i else if is_lock_holder s = Some i then None else is_lock_holder s)"
      "holds_lock g \<longrightarrow> is_lock_holder s = Some i \<or> is_lock_holder s = None \<and> \<not> is_lock_poisoned s"
    and own: "thread_ok resolve t (path_of s i) g"
  shows "init_ok resolve t"
proof (rule init_ok_step [OF s(1,2) t(1) _ _ t(4) _ _ own lock(1)])
  note ok = holder_threads [OF s(1,2)]
  have free: "is_lock_holder t \<noteq> None \<longrightarrow> \<not> is_lock_poisoned t"
    using ok(3) lock t(5) by (auto simp: marks_ok_def split: if_splits)
  show "marks_ok resolve t" by (rule marks_ok_grow [OF ok(3) t(2,3,4,6) free])
  show "unmarked_held resolve t"
  proof (cases "is_lock_holder s = None \<or> is_lock_holder s = Some i")
    case True
    with s(3) show ?thesis by (intro unmarked_held_grow [OF ok(4) t(2,3,5)]) auto
  next
    case False
    then have "is_lock_holder t = is_lock_holder s" using lock by (auto split: if_splits)
    then show ?thesis using False by (intro unmarked_held_other [OF ok(4) t(2,3,5) _ t(1)]) auto
  qed
  show "set (is_migrations s) \<subseteq> set (is_migrations t)" "is_migrated_paths t = is_migrated_paths s \<and> is_migrations t = is_migrations s \<or> is_lock_holder s = Some i"
    using t by auto
  show "is_lock_holder s = None \<or> is_lock_holder s = Some i \<or> \<not> holds_lock g" using lock by auto
qed

lemma panic_step:
  assumes s: "init_ok resolve s" "i < length (is_threads s)"
  shows "init_ok resolve (panic i (stage s i) s)"
proof (cases "holds_lock (stage s i)")
  case False
  then show ?thesis using holder_threads [OF s]
    by (intro plain_step [where g = Panicked, OF s]) (auto simp: panic_def)
next
  case True
  note ok = holder_threads [OF s]
  show ?thesis
    by (rule init_ok_step [where g = Panicked, OF s])
      (use ok True in \<open>auto simp: panic_def marks_ok_def unmarked_held_def\<close>)
qed

lemma migrated_step:
  assumes s: "init_ok resolve s" "i < length (is_threads s)" "stage s i = Migrating"
  shows "init_ok resolve (at_step i Marking (s\<lparr>is_migrations := resolve (path_of s i) # is_migrations s\<rparr>))"
proof -
  note ok = holder_threads [OF s(1,2)]
  from ok(1) s(3) have lock: "is_lock_holder s = Some i" by simp
  have fresh: "resolve (path_of s i) \<notin> set (is_migrations s)" "resolve (path_of s i) \<in> set (is_files s)" using ok(2) s(3) by auto
  have all: "set (is_migrations s) = set (is_migrated_paths s)" by (rule all_marked [OF s(1,2)]) (simp_all add: s(3))
  show ?thesis
    by (rule init_ok_step [where g = Marking, OF s(1,2)])
      (use ok(3) lock fresh s(2) all in \<open>auto simp: marks_ok_def unmarked_held_def list_all_iff\<close>)
qed

lemma marked_step:
  assumes s: "init_ok resolve s" "i < length (is_threads s)" "stage s i = Marking"
    and resolve: "resolve (resolve (path_of s i)) = resolve (path_of s i)"
    and run: "mark_path_migrated (normalize_wallet_db_path resolve s (path_of s i)) s = (r, t)"
  shows "init_ok resolve (release (at_step i (Returned r) t))" "r = Inr ()"
proof -
  note ok = holder_threads [OF s(1,2)]
  from ok(1) s(3) have lock: "is_lock_holder s = Some i" by simp
  have there: "resolve (path_of s i) \<in> set (is_migrations s)" "resolve (path_of s i) \<in> set (is_files s)" using ok(2) s(3) by auto
  have t: "r = Inr ()" "t = s\<lparr>is_migrated_paths := List.insert (resolve (path_of s i)) (is_migrated_paths s)\<rparr>"
    using run ok(3) there by (auto simp: mark_path_migrated_def normalize_wallet_db_path_def marks_ok_def)
  show "r = Inr ()" by (rule t(1))
  have held: "f \<in> set (is_migrated_paths s) \<or> f = resolve (path_of s i)" if "\<not> is_lock_poisoned s" "f \<in> set (is_migrations s)" for f
    using ok(4) lock that by (auto simp: unmarked_held_def)
  show "init_ok resolve (release (at_step i (Returned r) t))"
    by (rule init_ok_step [where g = "Returned r", OF s(1,2)])
      (use ok(3) lock there held resolve in \<open>auto simp: t marks_ok_def unmarked_held_def list_all_iff in_set_insert\<close>)
qed

lemma thread_step_ok:
  assumes s: "init_ok resolve s" and step: "thread_step resolve i answer s = Some t"
    and resolve: "\<And>p. resolve (resolve p) = resolve p"
  shows "init_ok resolve t"
proof -
  from step have i: "i < length (is_threads s)" by (auto simp: thread_step_def split: if_splits)
  note ok = holder_threads [OF s i]
  show ?thesis
  proof (cases "answer = Panics \<and> \<not> ended (stage s i) \<and> stage s i \<noteq> Waiting")
    case True
    then show ?thesis using step i panic_step [OF s i] by (simp add: thread_step_def)
  next
    case False
    then have run: "open_migrated_wallet_db resolve i (path_of s i) (th_network (is_threads s ! i)) answer (stage s i) s = Some t"
      using step i by (auto simp: thread_step_def Let_def)
    have marks: "m \<in> set (is_migrated_paths s) \<Longrightarrow> resolve m = m \<and> m \<in> set (is_files s) \<and> m \<in> set (is_migrations s)" for m
      using ok(3) by (auto simp: marks_ok_def list_all_iff)
    have cache: "\<not> is_cache_poisoned s" using ok(3) by (simp add: marks_ok_def)
    show ?thesis
    proof (cases "stage s i")
      case Calling
      with run ok(1) show ?thesis
        by (auto simp: normalize_wallet_db_path_def intro!: plain_step [OF s i])
    next
      case (Looking_Up q)
      with run ok(1,2) cache marks resolve [of "path_of s i"] show ?thesis
        by (auto simp: path_already_migrated_def split: if_splits intro!: plain_step [OF s i])
    next
      case Opening_Migrated
      with run ok(1,2) show ?thesis
        by (auto split: sum.splits intro!: plain_step [OF s i])
    next
      case Waiting
      with run ok(1) show ?thesis
        by (auto simp: wallet_db_init_lock_def split: if_splits intro!: plain_step [OF s i])
    next
      case Holding
      with run ok(1) marks show ?thesis
        by (auto simp: normalize_wallet_db_path_def intro!: plain_step [OF s i])
    next
      case (Looking_Up_Again q)
      have all: "set (is_migrations s) = set (is_migrated_paths s)" by (rule all_marked [OF s i]) (simp_all add: Looking_Up_Again)
      from Looking_Up_Again run ok(1,2) cache marks resolve [of "path_of s i"] all show ?thesis
        by (auto simp: path_already_migrated_def split: if_splits intro!: plain_step [OF s i])
    next
      case Reopening
      with run ok(1,2) show ?thesis
        by (auto split: sum.splits intro!: plain_step [OF s i])
    next
      case Opening
      with run ok(1,2) show ?thesis
        by (auto split: sum.splits intro!: plain_step [OF s i])
    next
      case Migrating
      with run ok(1,2) migrated_step [OF s i] show ?thesis
        by (auto split: sum.splits intro!: plain_step [OF s i])
    next
      case Marking
      obtain r u where m: "mark_path_migrated (normalize_wallet_db_path resolve s (path_of s i)) s = (r, u)" by (metis prod.collapse)
      from marked_step [OF s i Marking resolve m] run Marking m show ?thesis by auto
    qed (use run in auto)
  qed
qed

lemma all_calling_ok: "init_ok resolve (all_calling calls files)"
  by (auto simp: init_ok_def marks_ok_def unmarked_held_def all_calling_def split: prod.splits)

lemma creates_ok:
  assumes "init_ok resolve s"
  shows "init_ok resolve (creates resolve p s)"
proof -
  have "thread_ok resolve (creates resolve p s) q g" if "thread_ok resolve s q g" for q g
    by (rule thread_ok_frame [OF that]) auto
  with assms show ?thesis by (auto simp: init_ok_def marks_ok_def unmarked_held_def list_all_iff)
qed

lemma opens_after_ok:
  assumes "opens_after resolve calls k s" "\<And>p. resolve (resolve p) = resolve p"
  shows "init_ok resolve s"
  using assms(1) by (induction) (auto intro: all_calling_ok creates_ok thread_step_ok [OF _ _ assms(2)])

section \<open>Every call ends\<close>

fun steps_left :: "progress \<Rightarrow> nat" where
  "steps_left Calling = 8"
| "steps_left (Looking_Up q) = 7"
| "steps_left Waiting = 6"
| "steps_left Holding = 5"
| "steps_left (Looking_Up_Again q) = 4"
| "steps_left Opening = 3"
| "steps_left Migrating = 2"
| "steps_left Marking = 1"
| "steps_left Reopening = 1"
| "steps_left Opening_Migrated = 1"
| "steps_left _ = 0"

definition work_left :: "init_state \<Rightarrow> nat" where
  "work_left s = sum_list (map (\<lambda>t. steps_left (th_progress t)) (is_threads s))"

lemma sum_list_update_less:
  "i < length xs \<Longrightarrow> f y < (f (xs ! i) :: nat) \<Longrightarrow> sum_list (map f (xs[i := y])) < sum_list (map f xs)"
  by (induction xs arbitrary: i) (auto split: nat.splits)

lemma moved_thread:
  assumes "open_migrated_wallet_db resolve i p n answer g s = Some t"
  shows "\<exists>h. is_threads t = (is_threads s)[i := (is_threads s ! i)\<lparr>th_progress := h\<rparr>] \<and> steps_left h < steps_left g"
  using assms by (cases g) (auto simp: mark_path_migrated_def split: if_splits sum.splits prod.splits)

lemma thread_step_thread:
  assumes "thread_step resolve i answer s = Some t"
  shows "i < length (is_threads s) \<and>
    (\<exists>h. is_threads t = (is_threads s)[i := (is_threads s ! i)\<lparr>th_progress := h\<rparr>] \<and> steps_left h < steps_left (stage s i))"
proof (cases "answer = Panics \<and> \<not> ended (stage s i) \<and> stage s i \<noteq> Waiting")
  case True
  then have "steps_left Panicked < steps_left (stage s i)" by (cases "stage s i") auto
  with True assms show ?thesis by (auto simp: thread_step_def panic_def Let_def split: if_splits)
next
  case False
  with assms show ?thesis by (auto simp: thread_step_def Let_def split: if_splits dest!: moved_thread)
qed

lemma thread_step_work: "thread_step resolve i answer s = Some t \<Longrightarrow> work_left t < work_left s"
  by (drule thread_step_thread) (auto simp: work_left_def intro!: sum_list_update_less)

lemma opens_after_work: "opens_after resolve calls k s \<Longrightarrow> k + work_left s \<le> 8 * length calls"
proof (induction rule: opens_after.induct)
  case (started files)
  have "map (\<lambda>t. steps_left (th_progress t)) (is_threads (all_calling calls files)) = replicate (length calls) 8"
    by (simp add: all_calling_def case_prod_beta map_replicate_const comp_def)
  then show ?case by (simp add: work_left_def sum_list_replicate)
next
  case (stepped k s i answer t)
  with thread_step_work [OF stepped(2)] show ?case by simp
qed (simp add: work_left_def)

text \<open>Only a thread that waits for the lock can be unable to step, and then its holder can.\<close>

lemma unable:
  assumes "thread_step resolve i answer s = None" "i < length (is_threads s)" "answer \<noteq> Panics"
  shows "ended (stage s i) \<or> stage s i = Waiting \<and> is_lock_holder s \<noteq> None"
  using assms by (cases "stage s i") (auto simp: thread_step_def Let_def split: if_splits)

lemma stuck_ended:
  assumes "init_ok resolve s" "\<And>i answer. thread_step resolve i answer s = None" "i < length (is_threads s)"
  shows "ended (stage s i)"
proof (rule ccontr)
  assume "\<not> ended (stage s i)"
  with unable [OF assms(2) assms(3), of Succeeds] obtain h where h: "is_lock_holder s = Some h" by auto
  then have "h < length (is_threads s)" "holds_lock (stage s h)" using assms(1) by (auto simp: init_ok_def)
  with unable [OF assms(2), of h Succeeds] show False by (cases "stage s h") auto
qed

section \<open>Properties\<close>

definition connected :: "progress \<Rightarrow> bool" where
  "connected g \<longleftrightarrow> g \<in> {Migrating, Marking, Returned (Inr ())}"

fun opens_run :: "(path \<Rightarrow> path) \<Rightarrow> (nat \<times> library_answer) list \<Rightarrow> init_state \<Rightarrow> init_state option" where
  "opens_run resolve [] s = Some s"
| "opens_run resolve ((i, answer) # rest) s =
     (case thread_step resolve i answer s of None \<Rightarrow> None | Some t \<Rightarrow> opens_run resolve rest t)"

lemma opens_run_after:
  "opens_after resolve calls k s \<Longrightarrow> opens_run resolve sched s = Some t \<Longrightarrow> opens_after resolve calls (k + length sched) t"
proof (induction sched arbitrary: k s)
  case Nil
  then show ?case by simp
next
  case (Cons step rest)
  obtain i answer where step: "step = (i, answer)" by fastforce
  with Cons.prems(2) obtain u where u: "thread_step resolve i answer s = Some u" "opens_run resolve rest u = Some t"
    by (auto split: option.splits)
  from Cons.IH [OF opens_after.stepped [OF Cons.prems(1) u(1)] u(2)] show ?case by simp
qed

text \<open>C33: The wallet database is migrated once and alone: however the threads interleave and whatever the
  library answers, a file is migrated successfully at most once; while a thread migrates a file no other thread
  has a connection to it, under any path that leads there; and a thread that got a connection got it to a
  migrated file.\<close>
theorem wallet_db_is_migrated_once_and_alone:
  assumes "\<And>p. resolve (resolve p) = resolve p" "opens_after resolve calls k s" "i < length (is_threads s)"
  shows "distinct (is_migrations s)
    \<and> (stage s i = Migrating \<longrightarrow> (\<forall>j < length (is_threads s). j \<noteq> i \<and> connected (stage s j) \<longrightarrow> resolve (path_of s j) \<noteq> resolve (path_of s i)))
    \<and> (stage s i = Returned (Inr ()) \<longrightarrow> resolve (path_of s i) \<in> set (is_migrations s))"
proof (intro conjI impI allI)
  have s: "init_ok resolve s" by (rule opens_after_ok [OF assms(2,1)])
  note ok = holder_threads [OF s]
  show "distinct (is_migrations s)" using ok(3) [OF assms(3)] by (simp add: marks_ok_def)
  show "resolve (path_of s i) \<in> set (is_migrations s)" if "stage s i = Returned (Inr ())"
    using ok(2) [OF assms(3)] that by simp
  show "resolve (path_of s j) \<noteq> resolve (path_of s i)"
    if "stage s i = Migrating" "j < length (is_threads s)" "j \<noteq> i \<and> connected (stage s j)" for j
    using ok(1,2) [OF assms(3)] ok(1,2) [OF that(2)] that by (auto simp: connected_def)
qed

text \<open>Two names of one file; the second thread waits while the first migrates it.\<close>

definition sample_resolve :: "path \<Rightarrow> path" where
  "sample_resolve p = (if p = ''link'' then ''wallet.db'' else p)"

definition sample_opens :: "init_state" where
  "sample_opens = all_calling [(''wallet.db'', ''testnet''), (''link'', ''testnet'')] []"

definition sample_schedule :: "(nat \<times> library_answer) list" where
  "sample_schedule = map (\<lambda>i. (i, Succeeds)) [0, 1, 0, 1, 0, 0, 0, 0]"

theorem wallet_db_is_migrated_once_and_alone_witness:
  "\<exists>s. opens_run sample_resolve sample_schedule sample_opens = Some s \<and> stage s 0 = Migrating \<and> stage s 1 = Waiting
    \<and> distinct (is_migrations s)"
proof -
  have "map_option (\<lambda>s. (map th_progress (is_threads s))) (opens_run sample_resolve sample_schedule sample_opens) = Some [Migrating, Waiting]"
    by code_simp
  then obtain s where run: "opens_run sample_resolve sample_schedule sample_opens = Some s"
    and stages: "map th_progress (is_threads s) = [Migrating, Waiting]" by auto
  have "opens_after sample_resolve [(''wallet.db'', ''testnet''), (''link'', ''testnet'')] (0 + length sample_schedule) s"
    by (rule opens_run_after [OF _ run]) (simp add: sample_opens_def opens_after.started)
  moreover have "sample_resolve (sample_resolve p) = sample_resolve p" for p by (simp add: sample_resolve_def)
  moreover have "length (is_threads s) = 2" using stages by (metis length_map length_Cons list.size(3) numeral_2_eq_2)
  ultimately have "distinct (is_migrations s)" using wallet_db_is_migrated_once_and_alone [of sample_resolve _ _ s 0] by auto
  moreover have "stage s 0 = Migrating" "stage s 1 = Waiting" using stages by auto
  ultimately show ?thesis using run by blast
qed


definition complete_schedule :: "(nat \<times> library_answer) list" where
  "complete_schedule = map (\<lambda>i. (i, Succeeds)) ([0, 1] @ replicate 7 0 @ replicate 5 1)"


end
