(* ===== verification/Pay_Page.thy ===== *)
theory Pay_Page
  imports Payment_Guarantees
begin

text \<open>
  \<^verbatim>\<open>src/pay_page.rs\<close>: the hosted pay page. The page is a string built from fixed parts and the texts of the
  link, as \<^verbatim>\<open>render_pay_page\<close> formats them, and the script of the page is modelled as the function that handles one
  answer of its poll. The QR encoder and the JSON printer are parameters. The fixed parts are written with a
  backquote for the double quote.
\<close>

section \<open>Fixed parts\<close>

definition html :: "string \<Rightarrow> string" where
  "html text = map (\<lambda>c. if c = CHR 0x60 then CHR 0x22 else c) text"

definition newline :: string where "newline = [CHR 0x0A]"

text \<open>The horizontal ellipsis in UTF-8.\<close>

definition ellipsis :: string where "ellipsis = [CHR 0xE2, CHR 0x80, CHR 0xA6]"

definition PAY_PAGE_CSP :: string where
  "PAY_PAGE_CSP = ''default-src 'none'; style-src 'unsafe-inline'; script-src 'unsafe-inline'; img-src data:; connect-src 'self'; base-uri 'none'; form-action 'none'; frame-ancestors 'none'' @ [CHR 0x27]"

definition page_head :: string where
  "page_head = html (join_with newline [
     ''<!doctype html>'',
     ''<html lang=`en`>'',
     ''<head>'',
     ''<meta charset=`utf-8`>'',
     ''<meta name=`viewport` content=`width=device-width, initial-scale=1`>'',
     ''<meta name=`robots` content=`noindex`>'',
     ''<title>''])"

definition page_style :: string where
  "page_style = html (join_with newline [
     ''</title>'',
     ''<style>'',
     ''body { font-family: system-ui, sans-serif; margin: 0; background: #f6f6f4; color: #1c1c1c; }'',
     ''main { max-width: 28rem; margin: 2rem auto; padding: 1.5rem; background: #fff; border-radius: 12px; box-shadow: 0 1px 4px rgba(0,0,0,.08); text-align: center; }'',
     ''h1 { font-size: 1.25rem; margin: 0 0 .5rem; }'',
     ''.amount { font-size: 1.75rem; font-weight: 600; margin: .5rem 0; }'',
     ''.qr svg { width: 16rem; height: 16rem; }'',
     ''.address { font-family: ui-monospace, monospace; font-size: .75rem; word-break: break-all; background: #f1f1ef; padding: .5rem; border-radius: 6px; }'',
     ''.button { display: inline-block; margin: .75rem 0; padding: .6rem 1.2rem; border-radius: 8px; background: #1c1c1c; color: #fff; text-decoration: none; }'',
     ''#status { margin-top: 1rem; font-weight: 600; }'',
     ''#status[data-status=`paid`], #status[data-status=`received`] { color: #19773b; }'',
     ''#status[data-status=`partially_paid`] { color: #9a5b00; }'',
     ''</style>'',
     ''</head>'',
     ''<body>'',
     ''<main>'',
     ''<h1>''])"

definition page_script_start :: string where
  "page_script_start = html (join_with newline [
     ''</p>'',
     ''<p id=`total`></p>'',
     ''</main>'',
     ''<script>'',
     ''(() => {'',
     ''  const data = ''])"

definition page_script :: string where
  "page_script = html (join_with newline [
     '';'',
     ''  const labels = {'',
     ''    awaiting_payment: `Waiting for payment'' @ ellipsis @ ''`,'',
     ''    partially_paid: `Partial payment received. Please send the rest.`,'',
     ''    paid: `Payment received. Thank you!`,'',
     ''    received: `Payment received. Thank you!`,'',
     ''  };'',
     ''  const statusEl = document.getElementById(`status`);'',
     ''  const totalEl = document.getElementById(`total`);'',
     ''  const settled = (s) => s === `paid` || s === `received`;'',
     ''  // Whether the page currently lacks payment controls (rendered settled, or removed below).'',
     ''  let controlsRemoved = settled(data.status);'',
     ''  const done = (s) => (s === `paid` || s === `received`) && !!data.returnUrl;'',
     ''  const show = (s, total) => {'',
     ''    statusEl.dataset.status = s;'',
     ''    statusEl.textContent = labels[s] || s;'',
     ''    totalEl.textContent = total && Number(total) > 0 ? `Received so far: ` + total + ` ZEC` : ``;'',
     ''    if (s === `paid` || s === `received`) {'',
     ''      document.querySelectorAll(`.qr, a.button, .due`).forEach((el) => el.remove());'',
     ''      controlsRemoved = true;'',
     ''    }'',
     ''  };'',
     ''  // Stop polling only when leaving for the return URL. Otherwise keep the shown state current,'',
     ''  // since an unconfirmed receipt can still be dropped.'',
     ''  const finish = () => {'',
     ''    setTimeout(() => { window.location.assign(data.returnUrl); }, 1500);'',
     ''  };'',
     ''  if (done(data.status)) { finish(); return; }'',
     ''  const poll = async () => {'',
     ''    try {'',
     ''      const response = await fetch(`../payments/` + encodeURIComponent(data.paymentId), { headers: { accept: `application/json` }, cache: `no-store` });'',
     ''      if (response.ok) {'',
     ''        const body = await response.json();'',
     ''        show(body.status, body.total_received);'',
     ''        if (done(body.status)) { finish(); return; }'',
     ''        // The request changes after a partial payment (it asks only for the rest), and a revoked'',
     ''        // receipt can raise it again or bring back a request the page already removed. Reload'',
     ''        // whenever there is still something to pay and the shown request is stale or missing.'',
     ''        const unpaid = body.status === `partially_paid` || body.status === `awaiting_payment`;'',
     ''        if (unpaid && body.qr_text && (body.qr_text !== data.qrText || controlsRemoved)) { window.location.reload(); return; }'',
     ''      }'',
     ''    } catch (e) { /* keep polling */ }'',
     ''    setTimeout(poll, 3000);'',
     ''  };'',
     ''  setTimeout(poll, 3000);'',
     ''})();'',
     ''</script>'',
     ''</body>'',
     ''</html>'',
     []])"

section \<open>The texts of the status\<close>

definition status_key :: "payment_status \<Rightarrow> string" where
  "status_key status =
     (case status of
        AwaitingPayment \<Rightarrow> ''awaiting_payment''
      | PartiallyPaid \<Rightarrow> ''partially_paid''
      | Paid \<Rightarrow> ''paid''
      | Received \<Rightarrow> ''received'')"

definition status_text :: "payment_status \<Rightarrow> string" where
  "status_text status =
     (case status of
        AwaitingPayment \<Rightarrow> ''Waiting for payment'' @ ellipsis
      | PartiallyPaid \<Rightarrow> ''Partial payment received. Please send the rest.''
      | _ \<Rightarrow> ''Payment received. Thank you!'')"

section \<open>The page\<close>

type_synonym qr_encoder = "string \<Rightarrow> string + string"

definition qr_svg :: "qr_encoder \<Rightarrow> string \<Rightarrow> string result" where
  "qr_svg encode text =
     (case encode text of
        Inl e \<Rightarrow> Inl (InvalidRequest (''cannot encode QR code: '' @ e))
      | Inr svg \<Rightarrow> Inr svg)"

definition qr_fragment :: "qr_encoder \<Rightarrow> payment_status_response \<Rightarrow> string" where
  "qr_fragment encode status =
     (case qr_svg encode (pt_qr_text status) of
        Inr svg \<Rightarrow> svg
      | Inl _ \<Rightarrow> html ''<p class=`message`>The payment request is too long for a QR code. Use the wallet link or copy the address below.</p>'')"

definition page_controls :: "qr_encoder \<Rightarrow> payment_status_response \<Rightarrow> string" where
  "page_controls encode status =
     (if settled (pt_status status) then []
      else html ''<div class=`qr` aria-label=`QR code for the payment request`>'' @ qr_fragment encode status @ html ''</div>'' @ newline
        @ html ''<p><a class=`button` href=`'' @ escape_html (pt_qr_text status) @ html ''`>Open in wallet</a></p>'')"

text \<open>What is still owed, when that differs from the amount of the link.\<close>

definition page_remaining :: "payment_status_response \<Rightarrow> string option" where
  "page_remaining status =
     (case pt_amount status of
        None \<Rightarrow> None
      | Some amount \<Rightarrow>
          let received = (case parse_zec_amount (pt_total_received status) of Some z \<Rightarrow> z | None \<Rightarrow> 0) in
          (case remaining_amount (Some amount) received of
             Some rest \<Rightarrow> if rest \<noteq> amount then Some rest else None
           | None \<Rightarrow> None))"

definition page_amount :: "payment_status_response \<Rightarrow> string" where
  "page_amount status =
     (let amount = (case (pt_amount status, page_remaining status) of
          (Some amount, Some rest) \<Rightarrow>
            html ''<p class=`amount`><span>'' @ escape_html rest @ html ''</span> ZEC remaining</p><p class=`message`>of ''
              @ escape_html amount @ '' ZEC; '' @ escape_html (pt_total_received status) @ html '' ZEC received so far</p>''
        | (Some amount, None) \<Rightarrow> html ''<p class=`amount`><span>'' @ escape_html amount @ html ''</span> ZEC</p>''
        | (None, _) \<Rightarrow> [])
      in if amount = [] then amount else html ''<div class=`due`>'' @ amount @ html ''</div>'')"

definition page_message :: "payment_status_response \<Rightarrow> string" where
  "page_message status =
     (case nonblank (pt_message status) of
        Some message \<Rightarrow> html ''<p class=`message`>'' @ escape_html message @ html ''</p>''
      | None \<Rightarrow> [])"

definition page_title :: "payment_status_response \<Rightarrow> string" where
  "page_title status = (case pt_label status of Some label \<Rightarrow> label | None \<Rightarrow> ''Pay with Zcash'')"

definition escape_lt :: "string \<Rightarrow> string" where
  "escape_lt text = concat (map (\<lambda>c. if c = CHR 0x3C then CHR 0x5C # ''u003c'' else [c]) text)"

definition script_data :: "externals \<Rightarrow> payment_status_response \<Rightarrow> string result" where
  "script_data ext status =
     bind_result (ext_print_json ext (JObject
       [(''paymentId'', JString (pt_payment_id status)),
        (''returnUrl'', case pt_return_url status of Some u \<Rightarrow> JString u | None \<Rightarrow> JNull),
        (''qrText'', JString (pt_qr_text status)),
        (''status'', JString (status_key (pt_status status)))])) (\<lambda>text.
     Inr (escape_lt text))"

definition render_pay_page :: "externals \<Rightarrow> qr_encoder \<Rightarrow> payment_status_response \<Rightarrow> string result" where
  "render_pay_page ext encode status =
     bind_result (script_data ext status) (\<lambda>data.
     Inr (page_head @ escape_html (page_title status) @ page_style @ escape_html (page_title status)
       @ ''</h1>'' @ newline @ page_amount status @ newline @ page_message status @ newline @ page_controls encode status @ newline
       @ html ''<p class=`address`>'' @ escape_html (pt_address status) @ ''</p>'' @ newline
       @ html ''<p id=`status` data-status=`'' @ status_key (pt_status status) @ html ''` role=`status` aria-live=`polite`>''
       @ status_text (pt_status status) @ page_script_start @ data @ page_script))"

record pay_page_response =
  pg_headers :: "(string \<times> string) list"
  pg_html :: string

definition pay_page :: "externals \<Rightarrow> qr_encoder \<Rightarrow> 'k payment_service \<Rightarrow> string \<Rightarrow> pay_page_response db_op" where
  "pay_page ext encode service payment_id =
     andThen (payment_status_op ext service payment_id) (\<lambda>status.
     andThen (lift_result (render_pay_page ext encode status)) (\<lambda>page.
     ret \<lparr>pg_headers = [(''content-security-policy'', PAY_PAGE_CSP), (''referrer-policy'', ''no-referrer''),
            (''cache-control'', ''no-store''), (''x-content-type-options'', ''nosniff'')],
          pg_html = page\<rparr>))"

section \<open>The script\<close>

text \<open>
  What the script keeps: the embedded data, what it shows, and whether the payment controls are gone. One poll
  that got an answer shows it and then stays, leaves for the return URL or reloads; a poll that failed changes
  nothing.
\<close>

record page_data =
  pd_payment_id :: string
  pd_return_url :: "string option"
  pd_qr_text :: string
  pd_status :: payment_status

record page_view =
  pv_data :: page_data
  pv_status :: payment_status
  pv_received :: "string option"
  pv_controls_removed :: bool

datatype page_step = Stays page_view | Leaves string | Reloads

definition page_data_of :: "payment_status_response \<Rightarrow> page_data" where
  "page_data_of status = \<lparr>pd_payment_id = pt_payment_id status, pd_return_url = pt_return_url status,
     pd_qr_text = pt_qr_text status, pd_status = pt_status status\<rparr>"

definition finishes :: "page_data \<Rightarrow> payment_status \<Rightarrow> string option" where
  "finishes data s = (if settled s then (case pd_return_url data of Some u \<Rightarrow> if u = [] then None else Some u | None \<Rightarrow> None) else None)"

definition show_status :: "page_view \<Rightarrow> payment_status \<Rightarrow> string \<Rightarrow> page_view" where
  "show_status view s total_received = view\<lparr>pv_status := s,
     pv_received := (case parse_zec_amount total_received of Some z \<Rightarrow> if 0 < z then Some total_received else None | None \<Rightarrow> None),
     pv_controls_removed := (pv_controls_removed view \<or> settled s)\<rparr>"

definition page_opened :: "payment_status_response \<Rightarrow> page_step" where
  "page_opened status =
     (let data = page_data_of status in
      case finishes data (pd_status data) of
        Some url \<Rightarrow> Leaves url
      | None \<Rightarrow> Stays \<lparr>pv_data = data, pv_status = pt_status status, pv_received = None,
          pv_controls_removed = settled (pd_status data)\<rparr>)"

definition poll :: "page_view \<Rightarrow> payment_status_response option \<Rightarrow> page_step" where
  "poll view answer =
     (case answer of
        None \<Rightarrow> Stays view
      | Some body \<Rightarrow>
          let shown = show_status view (pt_status body) (pt_total_received body) in
          case finishes (pv_data view) (pt_status body) of
            Some url \<Rightarrow> Leaves url
          | None \<Rightarrow>
              if (pt_status body = PartiallyPaid \<or> pt_status body = AwaitingPayment) \<and> pt_qr_text body \<noteq> []
                 \<and> (pt_qr_text body \<noteq> pd_qr_text (pv_data view) \<or> pv_controls_removed shown)
              then Reloads else Stays shown)"

fun polls :: "page_step \<Rightarrow> payment_status_response option list \<Rightarrow> page_step" where
  "polls (Stays view) (answer # answers) = polls (poll view answer) answers"
| "polls page _ = page"

section \<open>Markup\<close>

definition tags :: "string \<Rightarrow> string" where
  "tags text = filter (\<lambda>c. c = CHR 0x3C) text"

lemma tags_append [simp]: "tags (s @ t) = tags s @ tags t" "tags [] = []" "tags (c # s) = (if c = CHR 0x3C then c # tags s else tags s)"
  by (simp_all add: tags_def)

lemma tags_escape_html [simp]: "tags (escape_html s) = []"
  using escape_html_markup [of _ s] by (auto simp: tags_def filter_empty_conv)

lemma tags_escape_lt [simp]: "tags (escape_lt s) = []"
  by (induction s) (auto simp: tags_def escape_lt_def)

lemma script_data_Inr: "script_data ext r = Inr data \<Longrightarrow> tags data = []"
  by (auto simp: script_data_def bind_result_Inr)

text \<open>Which fragments a page has.\<close>

definition page_shape :: "payment_status_response \<Rightarrow> payment_status \<times> bool \<times> bool \<times> bool" where
  "page_shape r = (pt_status r, pt_amount r = None, page_remaining r = None, nonblank (pt_message r) = None)"

lemma div_not_empty: "html ''<p class=`amount`><span>'' @ x \<noteq> []"
  by (simp add: html_def)

lemma same_page_tags:
  assumes "page_shape q = page_shape r"
  shows "tags (page_amount q) = tags (page_amount r)" "tags (page_message q) = tags (page_message r)"
proof -
  show "tags (page_amount q) = tags (page_amount r)"
    using assms div_not_empty by (auto simp: page_shape_def page_amount_def Let_def split: option.splits)
  show "tags (page_message q) = tags (page_message r)"
    using assms by (auto simp: page_shape_def page_message_def split: option.splits)
qed

section \<open>What the page asks for\<close>

definition asked_amount :: "payment_status_response \<Rightarrow> string option" where
  "asked_amount r = (case page_remaining r of Some rest \<Rightarrow> Some rest | None \<Rightarrow> pt_amount r)"

lemma parsed_not_blank: "parse_zec_amount text = Some z \<Longrightarrow> nonblank (Some text) = Some text"
  by (auto simp: nonblank_def is_blank_def parse_zec_amount_def Let_def split_once_None split: option.splits if_splits prod.splits)

lemma status_remaining:
  assumes "lr_requested_amount link = Some text" "parse_zec_amount text = Some z" "0 \<le> lr_current_total_zat link" "lr_current_total_zat link \<le> i64_max"
  shows "pt_amount (payment_status_of service link) = Some text"
    "page_remaining (payment_status_of service link) =
       (if 0 < lr_current_total_zat link \<and> lr_current_total_zat link < z then Some (format_zat_as_zec (z - lr_current_total_zat link)) else None)"
    "pt_status (payment_status_of service link) = payment_status_for (Some text) (lr_current_total_zat link)"
proof -
  have amount: "nonblank (lr_requested_amount link) = Some text" using parsed_not_blank [OF assms(2)] assms(1) by simp
  then show "pt_amount (payment_status_of service link) = Some text" "pt_status (payment_status_of service link) = payment_status_for (Some text) (lr_current_total_zat link)"
    by (simp_all add: payment_status_of_def Let_def)
  have "parse_zec_amount (format_zat_as_zec (z - t)) = Some (z - t)" if "0 < t" "t < z" for t
    using that parse_zec_amount_range [OF assms(2)] by (intro parse_format_zat) (auto simp: in_i64_def)
  then have "format_zat_as_zec (z - t) \<noteq> text" if "0 < t" "t < z" for t
    using that assms(2) by force
  then show "page_remaining (payment_status_of service link) =
       (if 0 < lr_current_total_zat link \<and> lr_current_total_zat link < z then Some (format_zat_as_zec (z - lr_current_total_zat link)) else None)"
    using amount parse_format_zat [OF assms(3,4)] assms(2) by (auto simp: page_remaining_def payment_status_of_def Let_def remaining_amount_def)
qed

lemma qr_text_not_empty: "pt_qr_text (payment_status_of service link) \<noteq> []"
  by (simp add: payment_status_of_def Let_def build_qr_text_def)

section \<open>The shown request\<close>

text \<open>The page agrees with an answer: it shows its status, offers controls exactly while there is something to pay, and the
  request they carry is the one of the answer.\<close>

definition page_agrees :: "page_view \<Rightarrow> payment_status_response \<Rightarrow> bool" where
  "page_agrees view r \<longleftrightarrow> pv_status view = pt_status r \<and> pv_controls_removed view = settled (pt_status r)
    \<and> (pv_controls_removed view \<or> pd_qr_text (pv_data view) = pt_qr_text r)"

lemma opened_agrees: "page_opened r = Stays view \<Longrightarrow> page_agrees view r"
  by (auto simp: page_opened_def page_agrees_def page_data_of_def Let_def split: option.splits)

lemma poll_agrees: "poll view (Some r) = Stays shown \<Longrightarrow> pt_qr_text r \<noteq> [] \<Longrightarrow> page_agrees shown r"
  by (cases "pt_status r") (auto simp: poll_def page_agrees_def show_status_def settled_def Let_def split: option.splits if_splits)

definition answered :: "payment_status_response \<Rightarrow> payment_status_response option list \<Rightarrow> payment_status_response" where
  "answered r answers = fold (\<lambda>answer r. case answer of Some body \<Rightarrow> body | None \<Rightarrow> r) answers r"

lemma polls_agree:
  assumes "page_agrees view r" "list_all (\<lambda>answer. case answer of Some body \<Rightarrow> pt_qr_text body \<noteq> [] | None \<Rightarrow> True) answers"
    "polls (Stays view) answers = Stays shown"
  shows "page_agrees shown (answered r answers)"
  using assms
proof (induction answers arbitrary: view r)
  case Nil
  then show ?case by (simp add: answered_def)
next
  case (Cons answer answers)
  have rest: "polls (poll view answer) answers = Stays shown" using Cons.prems(3) by simp
  then obtain v where v: "poll view answer = Stays v"
    by (cases "poll view answer"; cases answers) auto
  have "page_agrees v (case answer of Some body \<Rightarrow> body | None \<Rightarrow> r)"
  proof (cases answer)
    case None
    then show ?thesis using v Cons.prems(1) by (simp add: poll_def)
  next
    case (Some body)
    then show ?thesis using v Cons.prems(2) by (auto intro: poll_agrees)
  qed
  from Cons.IH [OF this] Cons.prems(2) rest v show ?case by (simp add: answered_def)
qed

section \<open>Properties\<close>


definition sample_link :: "int \<Rightarrow> payment_link_record" where
  "sample_link total_zat = \<lparr>lr_payment_id = replicate 32 (CHR ''0''), lr_unified_address = ''u1shop'', lr_request_label = Some ''<b>Shop</b>'',
     lr_request_memo = None, lr_request_message = Some ''Order <7>'', lr_requested_amount = Some ''0.5'', lr_return_url = None,
     lr_created_at = ''t'', lr_current_total_zat = total_zat, lr_state_version = 1, lr_received_by_confirmations_zat = None\<rparr>"


text \<open>C36: No text of a link adds markup to its page: two links whose pages have the same fragments (and QR code) have the
  same tags on them, whatever their labels, messages, amounts, addresses, memos and return URLs say; so no text opens
  an element or ends the script.\<close>
theorem texts_add_no_markup:
  assumes "render_pay_page ext encode q = Inr page" "render_pay_page ext encode r = Inr page'"
    and "page_shape q = page_shape r" "qr_fragment encode q = qr_fragment encode r"
  shows "tags page = tags page'"
proof -
  from assms(1,2) obtain d d' where d: "script_data ext q = Inr d" "script_data ext r = Inr d'"
    by (auto simp: render_pay_page_def bind_result_Inr)
  have "pt_status q = pt_status r" using assms(3) by (simp add: page_shape_def)
  then have "tags (page_controls encode q) = tags (page_controls encode r)" using assms(4) by (simp add: page_controls_def)
  then show ?thesis using assms(1,2) d script_data_Inr [OF d(1)] script_data_Inr [OF d(2)] same_page_tags [OF assms(3)]
      \<open>pt_status q = pt_status r\<close> by (auto simp: render_pay_page_def)
qed

definition show_json_ext :: externals where
  "show_json_ext = sample_ext\<lparr>ext_print_json := (\<lambda>j. case j of JObject ((k, JString e) # _) \<Rightarrow> Inr (e @ ''</script>'') | _ \<Rightarrow> Inr [])\<rparr>"

theorem texts_add_no_markup_witness:
  "\<exists>page page'. render_pay_page show_json_ext (\<lambda>_. Inr []) (payment_status_of sample_service (sample_link 0)) = Inr page
    \<and> render_pay_page show_json_ext (\<lambda>_. Inr [])
        (payment_status_of sample_service ((sample_link 0)\<lparr>lr_request_label := None, lr_request_message := Some ''Order 7''\<rparr>)) = Inr page'
    \<and> tags page = tags page'"
proof -
  let ?q = "payment_status_of sample_service (sample_link 0)"
  let ?r = "payment_status_of sample_service ((sample_link 0)\<lparr>lr_request_label := None, lr_request_message := Some ''Order 7''\<rparr>)"
  have "\<exists>page. render_pay_page show_json_ext (\<lambda>_. Inr []) r = Inr page" for r
    by (auto simp: render_pay_page_def script_data_def show_json_ext_def)
  then obtain page page' where run: "render_pay_page show_json_ext (\<lambda>_. Inr []) ?q = Inr page" "render_pay_page show_json_ext (\<lambda>_. Inr []) ?r = Inr page'"
    by blast
  have "page_shape ?q = page_shape ?r" by code_simp
  moreover have "qr_fragment (\<lambda>_. Inr []) ?q = qr_fragment (\<lambda>_. Inr []) ?r" by (simp add: qr_fragment_def qr_svg_def)
  ultimately show ?thesis using texts_add_no_markup [OF run] run by blast
qed

text \<open>C37: An open page never shows a stale request: however its polls are answered, a page that neither left nor
  reloaded shows the status of the last answer, offers payment controls exactly while that status asks for
  something, and then carries the request of that answer.\<close>
theorem open_page_never_shows_a_stale_request:
  assumes "polls (page_opened r) (map (map_option (payment_status_of service)) links) = Stays view"
  shows "pv_status view = pt_status (answered r (map (map_option (payment_status_of service)) links))
    \<and> (pv_controls_removed view \<longleftrightarrow> settled (pt_status (answered r (map (map_option (payment_status_of service)) links))))
    \<and> (pv_controls_removed view \<or> pd_qr_text (pv_data view) = pt_qr_text (answered r (map (map_option (payment_status_of service)) links)))"
proof -
  from assms obtain first where first: "page_opened r = Stays first"
    by (cases "page_opened r"; cases "map (map_option (payment_status_of service)) links") auto
  have "list_all (\<lambda>answer. case answer of Some body \<Rightarrow> pt_qr_text body \<noteq> [] | None \<Rightarrow> True) (map (map_option (payment_status_of service)) links)"
    by (auto simp: list_all_iff qr_text_not_empty split: option.splits)
  from polls_agree [OF opened_agrees [OF first] this] assms first
  have "page_agrees view (answered r (map (map_option (payment_status_of service)) links))" by simp
  then show ?thesis unfolding page_agrees_def by blast
qed

definition sample_polls :: page_step where
  "sample_polls = polls (page_opened (payment_status_of sample_service (sample_link 0)))
     (map (map_option (payment_status_of sample_service)) [Some (sample_link 0), None, Some (sample_link 50000000)])"

theorem open_page_never_shows_a_stale_request_witness:
  "\<exists>view. sample_polls = Stays view \<and> pv_status view = Paid \<and> pv_controls_removed view
    \<and> poll view (Some (payment_status_of sample_service (sample_link 20000000))) = Reloads"
proof -
  have "(case sample_polls of Stays view \<Rightarrow> poll view (Some (payment_status_of sample_service (sample_link 20000000))) = Reloads | _ \<Rightarrow> False)"
    by code_simp
  then obtain view where view: "sample_polls = Stays view" "poll view (Some (payment_status_of sample_service (sample_link 20000000))) = Reloads"
    by (auto split: page_step.splits)
  have "pt_status (answered (payment_status_of sample_service (sample_link 0))
     (map (map_option (payment_status_of sample_service)) [Some (sample_link 0), None, Some (sample_link 50000000)])) = Paid" by code_simp
  with open_page_never_shows_a_stale_request [OF view(1) [unfolded sample_polls_def]]
  have "pv_status view = Paid \<and> pv_controls_removed view" by (simp add: settled_def)
  with view show ?thesis by blast
qed

end
