(* ===== verification/Schema_Upgrade.thy ===== *)
theory Schema_Upgrade
  imports Db_Identity Db_Addresses
begin

text \<open>
  The schema of the application database (\<^verbatim>\<open>AppDb::initialize_schema\<close> in \<^verbatim>\<open>src/db.rs\<close>): the statements that create
  its tables and indexes, and the upgrades of a file an older version wrote. Here the database is what SQLite
  keeps, the catalog: tables by name, each with the text of its definition, its columns and its rows, and
  indexes by name. The definition text of a table that this code creates is printed from its columns, so that the
  test for the Ironwood pool in that text runs as it does in the code. The other theories take the tables as
  typed rows; they start from the state in which this theory leaves the file.
\<close>

section \<open>Tables\<close>

datatype sql_value = SNull | SInt int | SText string | SBlob "byte list"

datatype column_option =
    PrimaryKey
  | NotNull
  | Unique
  | DefaultTo sql_value
  | OneOf "string list"
  | EqualTo int
  | References string string

record column =
  cl_name :: string
  cl_type :: string
  cl_options :: "column_option list"

abbreviation col :: "string \<Rightarrow> string \<Rightarrow> column_option list \<Rightarrow> column" where
  "col name type options \<equiv> \<lparr>cl_name = name, cl_type = type, cl_options = options\<rparr>"

record table_def =
  td_name :: string
  td_columns :: "column list"
  td_unique :: "string list list"

type_synonym sql_row = "(string \<times> sql_value) list"

record sql_table =
  sd_sql :: string
  sd_columns :: "column list"
  sd_unique :: "string list list"
  sd_rows :: "sql_row list"

record catalog =
  ct_tables :: "string \<Rightarrow> sql_table option"
  ct_indexes :: "string \<Rightarrow> (string \<times> string list) option"
  ct_foreign_keys :: bool

type_synonym 'a sql_op = "(catalog, app_error, 'a) prog"

definition column_names :: "sql_table \<Rightarrow> string list" where
  "column_names t = map cl_name (sd_columns t)"

text \<open>The text of a definition, as \<^verbatim>\<open>sqlite_master\<close> keeps it (line breaks apart).\<close>

definition quoted :: "string \<Rightarrow> string" where
  "quoted text = [CHR 0x27] @ text @ [CHR 0x27]"

fun value_sql :: "sql_value \<Rightarrow> string" where
  "value_sql (SInt n) = show_int n"
| "value_sql (SText text) = quoted text"
| "value_sql _ = ''NULL''"

fun option_sql :: "string \<Rightarrow> column_option \<Rightarrow> string" where
  "option_sql name PrimaryKey = ''PRIMARY KEY''"
| "option_sql name NotNull = ''NOT NULL''"
| "option_sql name Unique = ''UNIQUE''"
| "option_sql name (DefaultTo v) = ''DEFAULT '' @ value_sql v"
| "option_sql name (OneOf vs) = ''CHECK ('' @ name @ '' IN ('' @ join_with '', '' (map quoted vs) @ ''))''"
| "option_sql name (EqualTo n) = ''CHECK ('' @ name @ '' = '' @ show_int n @ '')''"
| "option_sql name (References table key) = ''REFERENCES '' @ table @ ''('' @ key @ '') ON DELETE CASCADE''"

definition column_sql :: "column \<Rightarrow> string" where
  "column_sql c = join_with '' '' (cl_name c # cl_type c # map (option_sql (cl_name c)) (cl_options c))"

definition create_sql :: "table_def \<Rightarrow> string" where
  "create_sql def = ''CREATE TABLE '' @ td_name def @ '' ('' @ join_with '', ''
     (map column_sql (td_columns def) @ map (\<lambda>key. ''UNIQUE('' @ join_with '', '' key @ '')'') (td_unique def)) @ '')''"

definition new_table :: "table_def \<Rightarrow> sql_table" where
  "new_table def = \<lparr>sd_sql = create_sql def, sd_columns = td_columns def, sd_unique = td_unique def, sd_rows = []\<rparr>"

section \<open>Statements\<close>

definition no_such :: "string \<Rightarrow> app_error" where
  "no_such what = Database (OtherSqliteError (''no such '' @ what))"

definition put_table :: "string \<Rightarrow> sql_table \<Rightarrow> catalog \<Rightarrow> catalog" where
  "put_table name t db = db\<lparr>ct_tables := (ct_tables db)(name \<mapsto> t)\<rparr>"

definition create_table :: "table_def \<Rightarrow> unit sql_op" where
  "create_table def db =
     (case ct_tables db (td_name def) of
        Some _ \<Rightarrow> (Inl (Database (OtherSqliteError ''table already exists'')), db)
      | None \<Rightarrow> (Inr (), put_table (td_name def) (new_table def) db))"

definition create_table_if_absent :: "table_def \<Rightarrow> unit sql_op" where
  "create_table_if_absent def db = (if ct_tables db (td_name def) = None then create_table def db else (Inr (), db))"

definition create_index :: "string \<Rightarrow> string \<Rightarrow> string list \<Rightarrow> unit sql_op" where
  "create_index name table columns db =
     (case ct_tables db table of
        None \<Rightarrow> (Inl (no_such ''table''), db)
      | Some t \<Rightarrow>
          if ct_indexes db name \<noteq> None then (Inr (), db)
          else if list_all (\<lambda>c. c \<in> set (column_names t)) columns
            then (Inr (), db\<lparr>ct_indexes := (ct_indexes db)(name \<mapsto> (table, columns))\<rparr>)
          else (Inl (no_such ''column''), db))"

text \<open>
  \<^verbatim>\<open>ALTER TABLE ... RENAME TO\<close>: the indexes stay with the table. \<^verbatim>\<open>DROP TABLE\<close> drops them.
\<close>

definition rename_table :: "string \<Rightarrow> string \<Rightarrow> unit sql_op" where
  "rename_table name to_name db =
     (case ct_tables db name of
        None \<Rightarrow> (Inl (no_such ''table''), db)
      | Some t \<Rightarrow>
          if ct_tables db to_name \<noteq> None then (Inl (Database (OtherSqliteError ''there is already another table'')), db)
          else (Inr (), db\<lparr>ct_tables := (ct_tables db)(name := None, to_name \<mapsto> t),
            ct_indexes := (\<lambda>i. map_option (\<lambda>(table, columns). (if table = name then to_name else table, columns)) (ct_indexes db i))\<rparr>))"

definition drop_table :: "string \<Rightarrow> unit sql_op" where
  "drop_table name db =
     (if ct_tables db name = None then (Inl (no_such ''table''), db)
      else (Inr (), db\<lparr>ct_tables := (ct_tables db)(name := None),
        ct_indexes := (\<lambda>i. case ct_indexes db i of Some (table, columns) \<Rightarrow> if table = name then None else Some (table, columns) | None \<Rightarrow> None)\<rparr>))"

fun default_of :: "column_option list \<Rightarrow> sql_value" where
  "default_of [] = SNull"
| "default_of (DefaultTo v # options) = v"
| "default_of (_ # options) = default_of options"

definition add_column :: "string \<Rightarrow> column \<Rightarrow> unit sql_op" where
  "add_column table c db =
     (case ct_tables db table of
        None \<Rightarrow> (Inl (no_such ''table''), db)
      | Some t \<Rightarrow>
          if cl_name c \<in> set (column_names t) then (Inl (Database (OtherSqliteError ''duplicate column name'')), db)
          else (Inr (), put_table table (t\<lparr>sd_sql := butlast (sd_sql t) @ '', '' @ column_sql c @ '')'',
              sd_columns := sd_columns t @ [c],
              sd_rows := map (\<lambda>row. row @ [(cl_name c, default_of (cl_options c))]) (sd_rows t)\<rparr>) db))"

definition field :: "string \<Rightarrow> sql_row \<Rightarrow> sql_value" where
  "field c row = (case map_of row c of Some v \<Rightarrow> v | None \<Rightarrow> SNull)"

text \<open>The constraints a new row must meet, and the row an \<^verbatim>\<open>INSERT\<close> makes of the values it names.\<close>

fun option_allows :: "sql_value \<Rightarrow> column_option \<Rightarrow> bool" where
  "option_allows v NotNull \<longleftrightarrow> v \<noteq> SNull"
| "option_allows v (OneOf vs) \<longleftrightarrow> v = SNull \<or> v \<in> SText ` set vs"
| "option_allows v (EqualTo n) \<longleftrightarrow> v = SNull \<or> v = SInt n"
| "option_allows v _ \<longleftrightarrow> True"

definition unique_keys :: "sql_table \<Rightarrow> string list list" where
  "unique_keys t = map (\<lambda>c. [cl_name c]) (filter (\<lambda>c. PrimaryKey \<in> set (cl_options c) \<or> Unique \<in> set (cl_options c)) (sd_columns t))
     @ sd_unique t"

definition row_allowed :: "sql_table \<Rightarrow> sql_row \<Rightarrow> bool" where
  "row_allowed t row \<longleftrightarrow>
     list_all (\<lambda>c. list_all (option_allows (field (cl_name c) row)) (cl_options c)) (sd_columns t)
   \<and> list_all (\<lambda>key. list_all (\<lambda>other. SNull \<in> set (map (\<lambda>c. field c row) key) \<or> map (\<lambda>c. field c other) key \<noteq> map (\<lambda>c. field c row) key)
       (sd_rows t)) (unique_keys t)"

fun rowid_of :: "sql_value \<Rightarrow> int" where
  "rowid_of (SInt n) = n"
| "rowid_of _ = 0"

definition filled_row :: "sql_table \<Rightarrow> sql_row \<Rightarrow> sql_row" where
  "filled_row t values = map (\<lambda>c. (cl_name c, case map_of values (cl_name c) of
       Some v \<Rightarrow> v
     | None \<Rightarrow> if PrimaryKey \<in> set (cl_options c) then SInt (next_rowid (map (\<lambda>row. rowid_of (field (cl_name c) row)) (sd_rows t)))
         else default_of (cl_options c))) (sd_columns t)"

definition insert_row :: "sql_table \<Rightarrow> sql_row \<Rightarrow> sql_table result" where
  "insert_row t values =
     (if row_allowed t (filled_row t values) then Inr (t\<lparr>sd_rows := sd_rows t @ [filled_row t values]\<rparr>)
      else Inl (constraint ''row''))"

fun insert_rows :: "sql_table \<Rightarrow> sql_row list \<Rightarrow> sql_table result" where
  "insert_rows t [] = Inr t"
| "insert_rows t (values # rest) = bind_result (insert_row t values) (\<lambda>u. insert_rows u rest)"

text \<open>\<^verbatim>\<open>INSERT INTO table (columns) SELECT columns FROM source\<close>; an \<^verbatim>\<open>UPDATE\<close> of one column.\<close>

definition insert_select :: "string \<Rightarrow> string list \<Rightarrow> string \<Rightarrow> unit sql_op" where
  "insert_select table columns source db =
     (case (ct_tables db table, ct_tables db source) of
        (Some t, Some s) \<Rightarrow>
          if list_all (\<lambda>c. c \<in> set (column_names t) \<and> c \<in> set (column_names s)) columns then
            (case insert_rows t (map (\<lambda>row. map (\<lambda>c. (c, field c row)) columns) (sd_rows s)) of
               Inl e \<Rightarrow> (Inl e, db)
             | Inr u \<Rightarrow> (Inr (), put_table table u db))
          else (Inl (no_such ''column''), db)
      | _ \<Rightarrow> (Inl (no_such ''table''), db))"

definition set_field :: "string \<Rightarrow> sql_value \<Rightarrow> sql_row \<Rightarrow> sql_row" where
  "set_field c v row = map (\<lambda>(k, w). (k, if k = c then v else w)) row"

definition update_rows :: "string \<Rightarrow> (sql_row \<Rightarrow> bool) \<Rightarrow> string \<Rightarrow> (sql_row \<Rightarrow> sql_value) \<Rightarrow> unit sql_op" where
  "update_rows table p c v db =
     (case ct_tables db table of
        None \<Rightarrow> (Inl (no_such ''table''), db)
      | Some t \<Rightarrow> (Inr (), put_table table (t\<lparr>sd_rows := map (\<lambda>row. if p row then set_field c (v row) row else row) (sd_rows t)\<rparr>) db))"

section \<open>The schema\<close>

definition wallet_identity_table :: table_def where
  "wallet_identity_table = \<lparr>td_name = ''wallet_identity'', td_columns =
    [col ''singleton_id'' ''INTEGER'' [PrimaryKey, EqualTo 1],
     col ''canonical_uivk'' ''TEXT'' [NotNull],
     col ''uivk_fingerprint'' ''TEXT'' [NotNull],
     col ''network'' ''TEXT'' [NotNull],
     col ''birthday_height'' ''INTEGER'' [NotNull],
     col ''wallet_db_path'' ''TEXT'' [NotNull],
     col ''wallet_account_uuid'' ''BLOB'' [],
     col ''initialized_at'' ''TEXT'' [NotNull],
     col ''last_validated_at'' ''TEXT'' [NotNull],
     col ''startup_uivk_required'' ''INTEGER'' [NotNull, DefaultTo (SInt 1)]],
    td_unique = []\<rparr>"

definition simulated_data_marker_table :: table_def where
  "simulated_data_marker_table = \<lparr>td_name = ''simulated_data_marker'', td_columns =
    [col ''singleton_id'' ''INTEGER'' [PrimaryKey, EqualTo 1],
     col ''first_simulated_at'' ''TEXT'' [NotNull]],
    td_unique = []\<rparr>"

definition service_metadata_table :: table_def where
  "service_metadata_table = \<lparr>td_name = ''service_metadata'', td_columns =
    [col ''singleton_id'' ''INTEGER'' [PrimaryKey, EqualTo 1],
     col ''app_schema_version'' ''INTEGER'' [NotNull],
     col ''wallet_schema_version_seen'' ''INTEGER'' [NotNull],
     col ''last_seen_tip_height'' ''INTEGER'' [NotNull],
     col ''last_scanned_height'' ''INTEGER'' [NotNull],
     col ''last_stable_tip_height'' ''INTEGER'' [NotNull],
     col ''current_sync_state'' ''TEXT'' [NotNull],
     col ''current_scan_epoch'' ''INTEGER'' [NotNull],
     col ''catch_up_entered_at'' ''TEXT'' [],
     col ''catch_up_exited_at'' ''TEXT'' [],
     col ''webhook_report_confirmations'' ''INTEGER'' [NotNull],
     col ''finality_confirmations'' ''INTEGER'' [NotNull]],
    td_unique = []\<rparr>"

definition issued_addresses_table :: table_def where
  "issued_addresses_table = \<lparr>td_name = ''issued_addresses'', td_columns =
    [col ''address_id'' ''INTEGER'' [PrimaryKey],
     col ''unified_address'' ''TEXT'' [NotNull, Unique],
     col ''address_source'' ''TEXT'' [NotNull, OneOf [''fresh'']],
     col ''diversifier_index_be'' ''BLOB'' [],
     col ''diversifier_bytes'' ''BLOB'' [],
     col ''created_at'' ''TEXT'' [NotNull],
     col ''request_label'' ''TEXT'' [],
     col ''request_memo'' ''TEXT'' [],
     col ''request_message'' ''TEXT'' [],
     col ''requested_amount'' ''TEXT'' [],
     col ''retired_at'' ''TEXT'' []],
    td_unique = []\<rparr>"

definition payment_links_table :: table_def where
  "payment_links_table = \<lparr>td_name = ''payment_links'', td_columns =
    [col ''payment_id'' ''TEXT'' [PrimaryKey],
     col ''address_id'' ''INTEGER'' [NotNull, Unique, References ''issued_addresses'' ''address_id''],
     col ''return_url'' ''TEXT'' [],
     col ''created_at'' ''TEXT'' [NotNull]],
    td_unique = []\<rparr>"

definition address_receivers_table :: table_def where
  "address_receivers_table = \<lparr>td_name = ''address_receivers'', td_columns =
    [col ''receiver_id'' ''INTEGER'' [PrimaryKey],
     col ''address_id'' ''INTEGER'' [NotNull, References ''issued_addresses'' ''address_id''],
     col ''pool'' ''TEXT'' [NotNull, OneOf [''orchard'', ''ironwood'', ''sapling'']],
     col ''receiver_encoding'' ''TEXT'' [NotNull],
     col ''receiver_fingerprint'' ''BLOB'' [NotNull],
     col ''is_active'' ''INTEGER'' [NotNull, DefaultTo (SInt 1)],
     col ''created_at'' ''TEXT'' [NotNull]],
    td_unique = [[''address_id'', ''pool''], [''pool'', ''receiver_encoding''], [''pool'', ''receiver_fingerprint'']]\<rparr>"

definition address_totals_table :: table_def where
  "address_totals_table = \<lparr>td_name = ''address_totals'', td_columns =
    [col ''address_id'' ''INTEGER'' [PrimaryKey, References ''issued_addresses'' ''address_id''],
     col ''finalized_through_height'' ''INTEGER'' [NotNull, DefaultTo (SInt 0)],
     col ''finalized_total_zat'' ''INTEGER'' [NotNull, DefaultTo (SInt 0)],
     col ''recent_total_zat'' ''INTEGER'' [NotNull, DefaultTo (SInt 0)],
     col ''current_total_zat'' ''INTEGER'' [NotNull, DefaultTo (SInt 0)],
     col ''last_computed_tip_height'' ''INTEGER'' [NotNull, DefaultTo (SInt 0)],
     col ''dirty_state'' ''TEXT'' [NotNull, OneOf [''clean'', ''dirty'', ''queued_for_webhook'']],
     col ''dirty_reason'' ''TEXT'' [],
     col ''dirty_since_height'' ''INTEGER'' [],
     col ''state_version'' ''INTEGER'' [NotNull, DefaultTo (SInt 0)],
     col ''last_changed_at'' ''TEXT'' [NotNull],
     col ''last_notified_total_zat'' ''INTEGER'' [NotNull, DefaultTo (SInt 0)],
     col ''last_notified_event_id'' ''TEXT'' [],
     col ''last_notified_at'' ''TEXT'' []],
    td_unique = []\<rparr>"

definition address_receipts_recent_table :: table_def where
  "address_receipts_recent_table = \<lparr>td_name = ''address_receipts_recent'', td_columns =
    [col ''receipt_id'' ''INTEGER'' [PrimaryKey],
     col ''address_id'' ''INTEGER'' [NotNull, References ''issued_addresses'' ''address_id''],
     col ''txid'' ''TEXT'' [NotNull],
     col ''pool'' ''TEXT'' [NotNull, OneOf [''orchard'', ''ironwood'', ''sapling'']],
     col ''receipt_uid'' ''TEXT'' [NotNull, Unique],
     col ''value_zat'' ''INTEGER'' [NotNull],
     col ''mined_height'' ''INTEGER'' [NotNull],
     col ''confirmation_depth'' ''INTEGER'' [NotNull],
     col ''eligible_for_webhook'' ''INTEGER'' [NotNull],
     col ''receipt_kind'' ''TEXT'' [NotNull, OneOf [''mined'', ''mempool''], DefaultTo (SText ''mined'')],
     col ''first_observed_at'' ''TEXT'' [NotNull],
     col ''observed_at'' ''TEXT'' [NotNull],
     col ''receipt_state'' ''TEXT'' [NotNull, OneOf [''active'', ''revoked'']],
     col ''state_version'' ''INTEGER'' [NotNull]],
    td_unique = []\<rparr>"

definition address_finality_checkpoints_table :: table_def where
  "address_finality_checkpoints_table = \<lparr>td_name = ''address_finality_checkpoints'', td_columns =
    [col ''checkpoint_id'' ''INTEGER'' [PrimaryKey],
     col ''address_id'' ''INTEGER'' [NotNull, References ''issued_addresses'' ''address_id''],
     col ''finalized_height'' ''INTEGER'' [NotNull],
     col ''finalized_total_zat'' ''INTEGER'' [NotNull],
     col ''receipt_count'' ''INTEGER'' [NotNull],
     col ''created_at'' ''TEXT'' [NotNull],
     col ''receipt_set_hash'' ''BLOB'' []],
    td_unique = [[''address_id'', ''finalized_height'']]\<rparr>"

definition sync_state_transitions_table :: table_def where
  "sync_state_transitions_table = \<lparr>td_name = ''sync_state_transitions'', td_columns =
    [col ''transition_id'' ''INTEGER'' [PrimaryKey],
     col ''from_state'' ''TEXT'' [NotNull],
     col ''to_state'' ''TEXT'' [NotNull],
     col ''reason'' ''TEXT'' [NotNull],
     col ''tip_height'' ''INTEGER'' [NotNull],
     col ''scanned_height'' ''INTEGER'' [NotNull],
     col ''scan_epoch'' ''INTEGER'' [NotNull],
     col ''detected_at'' ''TEXT'' [NotNull],
     col ''reorg_depth_estimate'' ''INTEGER'' []],
    td_unique = []\<rparr>"

definition reorg_events_table :: table_def where
  "reorg_events_table = \<lparr>td_name = ''reorg_events'', td_columns =
    [col ''reorg_id'' ''INTEGER'' [PrimaryKey],
     col ''scan_epoch'' ''INTEGER'' [NotNull],
     col ''detected_at'' ''TEXT'' [NotNull],
     col ''previous_tip_height'' ''INTEGER'' [NotNull],
     col ''new_tip_height'' ''INTEGER'' [NotNull],
     col ''rewind_height'' ''INTEGER'' [NotNull],
     col ''affected_address_count'' ''INTEGER'' [NotNull],
     col ''notes'' ''TEXT'' []],
    td_unique = []\<rparr>"

definition webhook_deliveries_table :: table_def where
  "webhook_deliveries_table = \<lparr>td_name = ''webhook_deliveries'', td_columns =
    [col ''delivery_id'' ''INTEGER'' [PrimaryKey],
     col ''address_id'' ''INTEGER'' [NotNull, References ''issued_addresses'' ''address_id''],
     col ''event_id'' ''TEXT'' [NotNull, Unique],
     col ''total_received_zat'' ''INTEGER'' [NotNull],
     col ''observed_at'' ''TEXT'' [NotNull],
     col ''request_body_json'' ''TEXT'' [NotNull],
     col ''delivery_state'' ''TEXT'' [NotNull, OneOf [''queued'', ''sending'', ''retry_wait'', ''succeeded'', ''permanent_failure'']],
     col ''attempt_count'' ''INTEGER'' [NotNull, DefaultTo (SInt 0)],
     col ''next_attempt_at'' ''TEXT'' [],
     col ''last_http_status'' ''INTEGER'' [],
     col ''last_response_body'' ''TEXT'' [],
     col ''last_attempt_at'' ''TEXT'' []],
    td_unique = []\<rparr>"

definition webhook_delivery_attempts_table :: table_def where
  "webhook_delivery_attempts_table = \<lparr>td_name = ''webhook_delivery_attempts'', td_columns =
    [col ''attempt_id'' ''INTEGER'' [PrimaryKey],
     col ''delivery_id'' ''INTEGER'' [NotNull, References ''webhook_deliveries'' ''delivery_id''],
     col ''attempted_at'' ''TEXT'' [NotNull],
     col ''http_status'' ''INTEGER'' [],
     col ''response_body'' ''TEXT'' [],
     col ''transport_error'' ''TEXT'' [],
     col ''duration_ms'' ''INTEGER'' []],
    td_unique = []\<rparr>"

datatype schema_statement = CreateTable table_def | CreateIndex string string "string list"

fun execute_statement :: "schema_statement \<Rightarrow> unit sql_op" where
  "execute_statement (CreateTable def) = create_table_if_absent def"
| "execute_statement (CreateIndex name table columns) = create_index name table columns"

definition schema_batch :: "schema_statement list" where
  "schema_batch =
    [CreateTable wallet_identity_table,
     CreateTable simulated_data_marker_table,
     CreateTable service_metadata_table,
     CreateTable issued_addresses_table,
     CreateIndex ''issued_addresses_created_at_idx'' ''issued_addresses'' [''created_at''],
     CreateTable payment_links_table,
     CreateTable address_receivers_table,
     CreateTable address_totals_table,
     CreateIndex ''address_totals_dirty_state_idx'' ''address_totals'' [''dirty_state''],
     CreateTable address_receipts_recent_table,
     CreateIndex ''address_receipts_recent_address_height_idx'' ''address_receipts_recent'' [''address_id'', ''mined_height''],
     CreateIndex ''address_receipts_recent_address_eligibility_idx'' ''address_receipts_recent'' [''address_id'', ''eligible_for_webhook'', ''receipt_state''],
     CreateIndex ''address_receipts_recent_mempool_txid_idx'' ''address_receipts_recent'' [''receipt_kind'', ''receipt_state'', ''txid''],
     CreateTable address_finality_checkpoints_table,
     CreateTable sync_state_transitions_table,
     CreateIndex ''sync_state_transitions_epoch_detected_idx'' ''sync_state_transitions'' [''scan_epoch'', ''detected_at''],
     CreateTable reorg_events_table,
     CreateIndex ''reorg_events_detected_idx'' ''reorg_events'' [''detected_at''],
     CreateTable webhook_deliveries_table,
     CreateIndex ''webhook_deliveries_state_next_idx'' ''webhook_deliveries'' [''delivery_state'', ''next_attempt_at''],
     CreateIndex ''webhook_deliveries_address_observed_idx'' ''webhook_deliveries'' [''address_id'', ''observed_at''],
     CreateIndex ''webhook_deliveries_address_delivery_idx'' ''webhook_deliveries'' [''address_id'', ''delivery_id''],
     CreateTable webhook_delivery_attempts_table]"

section \<open>Upgrades\<close>

fun contains :: "string \<Rightarrow> string \<Rightarrow> bool" where
  "contains text pattern =
     (take (length pattern) text = pattern \<or> (case text of [] \<Rightarrow> False | _ # rest \<Rightarrow> contains rest pattern))"

declare contains.simps [simp del]

definition table_sql :: "string \<Rightarrow> catalog \<Rightarrow> string option" where
  "table_sql table_name db = map_option sd_sql (ct_tables db table_name)"

definition table_allows_ironwood_pool :: "string \<Rightarrow> catalog \<Rightarrow> bool" where
  "table_allows_ironwood_pool table_name db =
     (case table_sql table_name db of Some sql \<Rightarrow> contains sql (quoted ''ironwood'') | None \<Rightarrow> True)"

definition table_column_exists :: "string \<Rightarrow> string \<Rightarrow> catalog \<Rightarrow> bool" where
  "table_column_exists table_name column_name db =
     (case ct_tables db table_name of Some t \<Rightarrow> column_name \<in> set (column_names t) | None \<Rightarrow> False)"

definition rebuild_pool_table :: "string \<Rightarrow> table_def \<Rightarrow> string list \<Rightarrow> (string \<times> string list) list \<Rightarrow> unit sql_op" where
  "rebuild_pool_table table_name def copied extra_indexes =
     (let tmp_name = table_name @ ''_ironwood_upgrade'' in
      andThen (rename_table table_name tmp_name) (\<lambda>_.
      andThen (create_table def) (\<lambda>_.
      andThen (insert_select table_name copied tmp_name) (\<lambda>_.
      andThen (drop_table tmp_name) (\<lambda>_.
      for_each (\<lambda>(name, columns) _. create_index name table_name columns) extra_indexes ())))))"

definition receivers_columns :: "string list" where
  "receivers_columns = [''receiver_id'', ''address_id'', ''pool'', ''receiver_encoding'', ''receiver_fingerprint'', ''is_active'', ''created_at'']"

definition receipts_columns :: "string list" where
  "receipts_columns = [''receipt_id'', ''address_id'', ''txid'', ''pool'', ''receipt_uid'', ''value_zat'', ''mined_height'',
     ''confirmation_depth'', ''eligible_for_webhook'', ''receipt_kind'', ''first_observed_at'', ''observed_at'', ''receipt_state'', ''state_version'']"

definition receipts_indexes :: "(string \<times> string list) list" where
  "receipts_indexes =
     [(''address_receipts_recent_address_height_idx'', [''address_id'', ''mined_height'']),
      (''address_receipts_recent_address_eligibility_idx'', [''address_id'', ''eligible_for_webhook'', ''receipt_state'']),
      (''address_receipts_recent_mempool_txid_idx'', [''receipt_kind'', ''receipt_state'', ''txid''])]"

definition unpaired_orchard :: "sql_table \<Rightarrow> sql_row list" where
  "unpaired_orchard t = filter (\<lambda>row. field ''pool'' row = SText ''orchard''
     \<and> \<not> list_ex (\<lambda>other. field ''address_id'' other = field ''address_id'' row \<and> field ''address_id'' row \<noteq> SNull
           \<and> field ''pool'' other = SText ''ironwood'') (sd_rows t)) (sd_rows t)"

definition ironwood_values :: "sql_row \<Rightarrow> sql_row" where
  "ironwood_values row = [(''address_id'', field ''address_id'' row), (''pool'', SText ''ironwood''),
     (''receiver_encoding'', field ''receiver_encoding'' row), (''receiver_fingerprint'', field ''receiver_fingerprint'' row),
     (''is_active'', field ''is_active'' row), (''created_at'', field ''created_at'' row)]"

definition copy_orchard_rows :: "unit sql_op" where
  "copy_orchard_rows db =
     (case ct_tables db ''address_receivers'' of
        None \<Rightarrow> (Inl (no_such ''table''), db)
      | Some t \<Rightarrow>
          if list_all (\<lambda>c. c \<in> set (column_names t)) (tl receivers_columns) then
            (case insert_rows t (map ironwood_values (unpaired_orchard t)) of
               Inl e \<Rightarrow> (Inl e, db)
             | Inr u \<Rightarrow> (Inr (), put_table ''address_receivers'' u db))
          else (Inl (no_such ''column''), db))"

definition older_version :: "sql_row \<Rightarrow> bool" where
  "older_version row \<longleftrightarrow> field ''singleton_id'' row = SInt 1
     \<and> (case field ''app_schema_version'' row of SInt n \<Rightarrow> n < APP_SCHEMA_VERSION | _ \<Rightarrow> False)"

definition set_foreign_keys :: "bool \<Rightarrow> unit sql_op" where
  "set_foreign_keys b = writes (\<lambda>db. db\<lparr>ct_foreign_keys := b\<rparr>)"

definition ironwood_upgrade :: "unit sql_op" where
  "ironwood_upgrade = in_tx (
     andThen (\<lambda>db. (if \<not> table_allows_ironwood_pool ''address_receivers'' db
        then rebuild_pool_table ''address_receivers'' address_receivers_table receivers_columns [] else ret ()) db) (\<lambda>_.
     andThen (\<lambda>db. (if \<not> table_allows_ironwood_pool ''address_receipts_recent'' db
        then rebuild_pool_table ''address_receipts_recent'' address_receipts_recent_table receipts_columns receipts_indexes else ret ()) db) (\<lambda>_.
     andThen copy_orchard_rows (\<lambda>_.
     update_rows ''service_metadata'' older_version ''app_schema_version'' (\<lambda>_. SInt APP_SCHEMA_VERSION)))))"

text \<open>The foreign keys are switched back on whatever the upgrade did.\<close>

definition ensure_ironwood_pool_support :: "unit sql_op" where
  "ensure_ironwood_pool_support db =
     (case ironwood_upgrade (db\<lparr>ct_foreign_keys := False\<rparr>) of (result, d) \<Rightarrow> (result, d\<lparr>ct_foreign_keys := True\<rparr>))"

definition add_column_if_absent :: "string \<Rightarrow> column \<Rightarrow> unit sql_op" where
  "add_column_if_absent table c db = (if table_column_exists table (cl_name c) db then (Inr (), db) else add_column table c db)"

definition ensure_address_receipts_recent_mempool_columns :: "unit sql_op" where
  "ensure_address_receipts_recent_mempool_columns =
     andThen (add_column_if_absent ''address_receipts_recent'' (col ''receipt_kind'' ''TEXT'' [NotNull, DefaultTo (SText ''mined'')])) (\<lambda>_.
     andThen (\<lambda>db. (if table_column_exists ''address_receipts_recent'' ''first_observed_at'' db then ret ()
        else andThen (add_column ''address_receipts_recent'' (col ''first_observed_at'' ''TEXT'' [NotNull, DefaultTo (SText [])])) (\<lambda>_.
          update_rows ''address_receipts_recent'' (\<lambda>row. field ''first_observed_at'' row = SText []) ''first_observed_at''
            (field ''observed_at''))) db) (\<lambda>_.
     create_index ''address_receipts_recent_mempool_txid_idx'' ''address_receipts_recent'' [''receipt_kind'', ''receipt_state'', ''txid'']))"

definition confirmations_columns :: "(string \<times> column) list" where
  "confirmations_columns =
     [(''service_metadata'', col ''required_confirmations'' ''INTEGER'' []),
      (''address_totals'', col ''received_by_confirmations'' ''TEXT'' []),
      (''address_totals'', col ''last_notified_by_confirmations'' ''TEXT'' []),
      (''webhook_deliveries'', col ''received_by_confirmations'' ''TEXT'' [])]"

definition ensure_received_by_confirmations_columns :: "unit sql_op" where
  "ensure_received_by_confirmations_columns = for_each (\<lambda>(table, c) _. add_column_if_absent table c) confirmations_columns ()"

text \<open>\<^verbatim>\<open>execute_batch\<close> commits each statement as it runs.\<close>

definition upgrade_schema :: "unit sql_op" where
  "upgrade_schema =
     andThen (for_each (\<lambda>statement _. execute_statement statement) schema_batch ()) (\<lambda>_.
     andThen ensure_address_receipts_recent_mempool_columns (\<lambda>_.
     andThen ensure_ironwood_pool_support (\<lambda>_.
     ensure_received_by_confirmations_columns)))"

end
