(* ===== verification/Schema_Guarantees.thy ===== *)
theory Schema_Guarantees
  imports Schema_Upgrade
begin

text \<open>
  What the upgrade of the schema keeps and reaches: no row is lost, everything the other theories take for granted
  is there afterwards, and a second run changes nothing.
\<close>

section \<open>Rows\<close>

lemma field_append: "field c (row @ [(k, v)]) = (if c = k \<and> c \<notin> fst ` set row then v else field c row)"
  by (auto simp: field_def map_add_def map_of_eq_None_iff [symmetric] split: option.splits)

lemma map_of_set_field: "map_of (set_field c v row) k = (if k = c then map_option (\<lambda>_. v) (map_of row k) else map_of row k)"
  by (induction row) (auto simp: set_field_def)

lemma field_set_field: "field k (set_field c v row) = (if k = c \<and> k \<in> fst ` set row then v else field k row)"
  using map_of_eq_None_iff [of row k] by (auto simp: field_def map_of_set_field split: option.splits)

lemma field_missing: "c \<notin> fst ` set row \<Longrightarrow> field c row = SNull"
  by (simp add: field_def map_of_eq_None_iff [symmetric])

lemma field_selected: "c \<in> set columns \<Longrightarrow> field c (map (\<lambda>c. (c, field c row)) columns) = field c row"
  by (induction columns) (auto simp: field_def)

lemma map_of_selected: "map_of (map (\<lambda>c. (c, f c)) columns) c = (if c \<in> set columns then Some (f c) else None)"
  by (induction columns) auto

lemma map_of_filled:
  "c \<in> cl_name ` set columns \<Longrightarrow> map_of values c = Some v \<Longrightarrow>
   map_of (map (\<lambda>c. (cl_name c, case map_of values (cl_name c) of Some v \<Rightarrow> v | None \<Rightarrow> g c)) columns) c = Some v"
  by (induction columns) auto

lemma field_filled:
  "c \<in> set (column_names t) \<Longrightarrow> map_of values c = Some v \<Longrightarrow> field c (filled_row t values) = v"
  by (simp add: field_def filled_row_def map_of_filled column_names_def)

lemma keys_filled: "map fst (filled_row t values) = column_names t"
  by (simp add: filled_row_def column_names_def)

text \<open>Inserted rows: each has the values it names, and the rest of the table is as it was.\<close>

definition takes :: "sql_table \<Rightarrow> sql_row \<Rightarrow> sql_row \<Rightarrow> bool" where
  "takes t values row \<longleftrightarrow> map fst row = column_names t
     \<and> (\<forall>c v. c \<in> set (column_names t) \<longrightarrow> map_of values c = Some v \<longrightarrow> field c row = v)"

lemma insert_rows_Inr:
  "insert_rows t vs = Inr u \<Longrightarrow> \<exists>new. u = t\<lparr>sd_rows := sd_rows t @ new\<rparr> \<and> list_all2 (takes t) vs new"
proof (induction vs arbitrary: t)
  case Nil
  then show ?case by (intro exI [of _ "[]"]) simp
next
  case (Cons vals vs)
  then obtain s where s: "s = t\<lparr>sd_rows := sd_rows t @ [filled_row t vals]\<rparr>" "insert_rows s vs = Inr u"
    by (auto simp: insert_row_def bind_result_Inr split: if_splits)
  from Cons.IH [OF s(2)] obtain new where new: "u = s\<lparr>sd_rows := sd_rows s @ new\<rparr>" "list_all2 (takes s) vs new" by blast
  have "takes s = takes t" by (simp add: s(1) takes_def column_names_def fun_eq_iff)
  moreover have "takes t vals (filled_row t vals)"
    by (auto simp: takes_def keys_filled field_filled)
  ultimately show ?case using new s(1) by (intro exI [of _ "filled_row t vals # new"]) simp
qed

section \<open>What an upgrade must not lose\<close>

text \<open>
  A file of any earlier version: rows have the columns of their table, receivers belong to an address, and an index
  with a name of the schema is on the table the schema puts it on.
\<close>

definition table_ok :: "sql_table \<Rightarrow> bool" where
  "table_ok t \<longleftrightarrow> list_all (\<lambda>row. map fst row = column_names t) (sd_rows t)"

definition catalog_ok :: "catalog \<Rightarrow> bool" where
  "catalog_ok db \<longleftrightarrow> (\<forall>n t. ct_tables db n = Some t \<longrightarrow> table_ok t)
     \<and> (\<forall>t. ct_tables db ''address_receivers'' = Some t \<longrightarrow> list_all (\<lambda>row. field ''address_id'' row \<noteq> SNull) (sd_rows t))"

definition indexes_ok :: "catalog \<Rightarrow> bool" where
  "indexes_ok db \<longleftrightarrow> (\<forall>i t cs u ds. CreateIndex i t cs \<in> set schema_batch \<longrightarrow> ct_indexes db i = Some (u, ds) \<longrightarrow> u = t)"

text \<open>The two rebuilt tables keep the columns their copies name; the schema version is the one value an upgrade changes.\<close>

definition kept_column :: "string \<Rightarrow> string \<Rightarrow> bool" where
  "kept_column n c \<longleftrightarrow> (n = ''address_receivers'' \<longrightarrow> c \<in> set receivers_columns)
     \<and> (n = ''address_receipts_recent'' \<longrightarrow> c \<in> set receipts_columns)
     \<and> (n, c) \<noteq> (''service_metadata'', ''app_schema_version'')"

definition kept_columns :: "string \<Rightarrow> sql_table \<Rightarrow> string list" where
  "kept_columns n t = filter (kept_column n) (column_names t)"

definition table_carried :: "string \<Rightarrow> sql_table \<Rightarrow> sql_table \<Rightarrow> bool" where
  "table_carried n t u \<longleftrightarrow> set (kept_columns n t) \<subseteq> set (kept_columns n u)
     \<and> (\<forall>row \<in> set (sd_rows t). \<exists>copy \<in> set (sd_rows u). \<forall>c \<in> set (kept_columns n t). field c copy = field c row)"

definition carried :: "catalog \<Rightarrow> catalog \<Rightarrow> bool" where
  "carried db db' \<longleftrightarrow> (\<forall>n t. ct_tables db n = Some t \<longrightarrow> (\<exists>u. ct_tables db' n = Some u \<and> table_carried n t u))"

lemma table_carried_refl: "table_carried n t t"
  by (auto simp: table_carried_def)

lemma table_carried_trans: "table_carried n s t \<Longrightarrow> table_carried n t u \<Longrightarrow> table_carried n s u"
  unfolding table_carried_def by (metis (no_types, lifting) order_trans subsetD)

lemma carried_refl: "carried db db"
  by (auto simp: carried_def intro: table_carried_refl)

lemma carried_trans: "carried a b \<Longrightarrow> carried b c \<Longrightarrow> carried a c"
  unfolding carried_def by (metis table_carried_trans)

lemma carried_put:
  "ct_tables db n = Some t \<Longrightarrow> table_carried n t u \<Longrightarrow> carried db (put_table n u db)"
  by (auto simp: carried_def put_table_def intro: table_carried_refl)

lemma carried_same_tables: "ct_tables db' = ct_tables db \<Longrightarrow> carried db db'"
  by (auto simp: carried_def intro: table_carried_refl)

section \<open>Statements\<close>

lemma put_table_simps [simp]:
  "ct_tables (put_table n t db) = (ct_tables db)(n \<mapsto> t)" "ct_indexes (put_table n t db) = ct_indexes db"
  "ct_foreign_keys (put_table n t db) = ct_foreign_keys db"
  by (simp_all add: put_table_def)

lemma create_table_Inr:
  "create_table def db = (Inr u, db') \<longleftrightarrow> ct_tables db (td_name def) = None \<and> db' = put_table (td_name def) (new_table def) db"
  by (auto simp: create_table_def split: option.splits)

lemma create_if_absent_Inr:
  "create_table_if_absent def db = (Inr u, db') \<longleftrightarrow>
     db' = (if ct_tables db (td_name def) = None then put_table (td_name def) (new_table def) db else db)"
  by (auto simp: create_table_if_absent_def create_table_Inr)

lemma create_index_Inr:
  "create_index i n cs db = (Inr u, db') \<longleftrightarrow> (\<exists>t. ct_tables db n = Some t \<and>
     (if ct_indexes db i \<noteq> None then db' = db
      else set cs \<subseteq> set (column_names t) \<and> db' = db\<lparr>ct_indexes := (ct_indexes db)(i \<mapsto> (n, cs))\<rparr>))"
  by (auto simp: create_index_def list_all_iff split: option.splits if_splits)

lemma add_column_Inr:
  "add_column n c db = (Inr u, db') \<longleftrightarrow> (\<exists>t. ct_tables db n = Some t \<and> cl_name c \<notin> set (column_names t) \<and>
     db' = put_table n (t\<lparr>sd_sql := butlast (sd_sql t) @ '', '' @ column_sql c @ '')'', sd_columns := sd_columns t @ [c],
       sd_rows := map (\<lambda>row. row @ [(cl_name c, default_of (cl_options c))]) (sd_rows t)\<rparr>) db)"
  by (auto simp: add_column_def split: option.splits if_splits)

lemma update_rows_Inr:
  "update_rows n p c v db = (Inr u, db') \<longleftrightarrow> (\<exists>t. ct_tables db n = Some t \<and>
     db' = put_table n (t\<lparr>sd_rows := map (\<lambda>row. if p row then set_field c (v row) row else row) (sd_rows t)\<rparr>) db)"
  by (auto simp: update_rows_def split: option.splits)

lemma new_table_ok: "table_ok (new_table def)" "sd_rows (new_table def) = []" "sd_sql (new_table def) = create_sql def"
  "column_names (new_table def) = map cl_name (td_columns def)"
  by (simp_all add: table_ok_def new_table_def column_names_def)

section \<open>The batch\<close>

fun in_place :: "schema_statement \<Rightarrow> catalog \<Rightarrow> bool" where
  "in_place (CreateTable def) db \<longleftrightarrow> ct_tables db (td_name def) \<noteq> None"
| "in_place (CreateIndex i t cs) db \<longleftrightarrow> ct_tables db t \<noteq> None \<and> (\<exists>ds. ct_indexes db i = Some (t, ds))"

lemma index_tables_agree:
  "list_all (\<lambda>s. case s of CreateIndex i t cs \<Rightarrow>
     list_all (\<lambda>s'. case s' of CreateIndex j u ds \<Rightarrow> i \<noteq> j \<or> t = u | _ \<Rightarrow> True) schema_batch | _ \<Rightarrow> True) schema_batch"
  by code_simp

lemma index_table_unique: "CreateIndex i t cs \<in> set schema_batch \<Longrightarrow> CreateIndex i u ds \<in> set schema_batch \<Longrightarrow> t = u"
  using index_tables_agree by (fastforce simp: list_all_iff)

lemma statement_run:
  assumes db: "catalog_ok db" "indexes_ok db" and s: "s \<in> set schema_batch" "execute_statement s db = (Inr u, db')"
  shows "catalog_ok db'" "indexes_ok db'" "carried db db'" "in_place s db'" "\<And>s'. in_place s' db \<Longrightarrow> in_place s' db'"
proof -
  have "catalog_ok db' \<and> indexes_ok db' \<and> carried db db' \<and> in_place s db' \<and> (\<forall>s'. in_place s' db \<longrightarrow> in_place s' db')"
  proof (cases s)
    case (CreateTable def)
    show ?thesis
    proof (cases "ct_tables db (td_name def)")
      case None
      then have db': "db' = put_table (td_name def) (new_table def) db" using s(2) CreateTable by (simp add: create_if_absent_Inr)
      have "in_place s' db'" if "in_place s' db" for s' using that None by (cases s') (auto simp: db')
      moreover have "carried db db'" using None by (auto simp: carried_def db' intro: table_carried_refl)
      moreover have "catalog_ok db'" "indexes_ok db'" using db new_table_ok
        by (auto simp: catalog_ok_def indexes_ok_def db' split: if_splits)
      ultimately show ?thesis by (simp add: CreateTable db')
    next
      case (Some t)
      then have "db' = db" using s(2) CreateTable by (simp add: create_if_absent_Inr)
      with db Some show ?thesis by (simp add: CreateTable carried_refl)
    qed
  next
    case (CreateIndex i n cs)
    with s(2) obtain t where t: "ct_tables db n = Some t"
      "if ct_indexes db i \<noteq> None then db' = db else db' = db\<lparr>ct_indexes := (ct_indexes db)(i \<mapsto> (n, cs))\<rparr>"
      by (auto simp: create_index_Inr split: if_splits)
    show ?thesis
    proof (cases "ct_indexes db i")
      case None
      then have db': "db' = db\<lparr>ct_indexes := (ct_indexes db)(i \<mapsto> (n, cs))\<rparr>" using t(2) by simp
      have "in_place s' db'" if "in_place s' db" for s' using that None by (cases s') (auto simp: db')
      moreover have "indexes_ok db'" using db(2) s(1) index_table_unique
        by (auto simp: indexes_ok_def db' CreateIndex split: if_splits)
      ultimately show ?thesis using db(1) t(1) by (simp add: CreateIndex db' carried_same_tables catalog_ok_def)
    next
      case (Some p)
      obtain m ds where p: "p = (m, ds)" by fastforce
      have "m = n" using db(2) s(1) Some p by (auto simp: indexes_ok_def CreateIndex)
      with Some p t db show ?thesis by (simp add: CreateIndex carried_refl)
    qed
  qed
  then show "catalog_ok db'" "indexes_ok db'" "carried db db'" "in_place s db'" "\<And>s'. in_place s' db \<Longrightarrow> in_place s' db'" by blast+
qed

lemma batch_run:
  assumes "catalog_ok db" "indexes_ok db" "set ss \<subseteq> set schema_batch" "for_each (\<lambda>s _. execute_statement s) ss u db = (Inr v, db')"
  shows "catalog_ok db' \<and> carried db db' \<and> (\<forall>s \<in> set ss. in_place s db') \<and> (\<forall>s. in_place s db \<longrightarrow> in_place s db')"
  using assms
proof (induction ss arbitrary: u db)
  case Nil
  then show ?case by (simp add: carried_refl)
next
  case (Cons s ss)
  then obtain w d where 1: "execute_statement s db = (Inr w, d)" and 2: "for_each (\<lambda>s _. execute_statement s) ss w d = (Inr v, db')"
    by (auto simp: andThen_Inr)
  have s: "s \<in> set schema_batch" "set ss \<subseteq> set schema_batch" using Cons.prems(3) by auto
  note run = statement_run [OF Cons.prems(1,2) s(1) 1]
  from Cons.IH [OF run(1,2) s(2) 2] run show ?case by (auto intro: carried_trans)
qed

lemma statement_in_place: "in_place s db \<Longrightarrow> execute_statement s db = (Inr (), db)"
  by (cases s) (auto simp: create_table_if_absent_def create_index_def split: option.splits)

lemma batch_in_place: "\<forall>s \<in> set ss. in_place s db \<Longrightarrow> for_each (\<lambda>s _. execute_statement s) ss () db = (Inr (), db)"
  by (induction ss) (simp_all add: ret_def andThen_def statement_in_place)

section \<open>New columns\<close>

lemma column_names_simps [simp]:
  "column_names (t\<lparr>sd_rows := rows\<rparr>) = column_names t"
  "column_names (t\<lparr>sd_sql := sql, sd_columns := sd_columns t @ cs\<rparr>) = column_names t @ map cl_name cs"
  "column_names (t\<lparr>sd_sql := sql, sd_columns := sd_columns t @ cs, sd_rows := rows\<rparr>) = column_names t @ map cl_name cs"
  by (simp_all add: column_names_def)

lemma mapped_carried:
  assumes "set (column_names t) \<subseteq> set (column_names u)" "sd_rows u = map f (sd_rows t)"
    and "\<And>row c. row \<in> set (sd_rows t) \<Longrightarrow> c \<in> set (kept_columns n t) \<Longrightarrow> field c (f row) = field c row"
  shows "table_carried n t u"
  using assms by (auto simp: table_carried_def kept_columns_def)

lemma keys_set_field [simp]: "map fst (set_field c v row) = map fst row"
  by (induction row) (auto simp: set_field_def)

lemma names_of_rows: "table_ok t \<Longrightarrow> row \<in> set (sd_rows t) \<Longrightarrow> map fst row = column_names t"
  by (simp add: table_ok_def list_all_iff)

lemma row_keys: "table_ok t \<Longrightarrow> row \<in> set (sd_rows t) \<Longrightarrow> fst ` set row = set (column_names t)"
  using names_of_rows by (metis set_map)

lemma catalog_put:
  "catalog_ok db \<Longrightarrow> table_ok u \<Longrightarrow> n = ''address_receivers'' \<longrightarrow> list_all (\<lambda>row. field ''address_id'' row \<noteq> SNull) (sd_rows u) \<Longrightarrow>
   catalog_ok (put_table n u db)"
  by (auto simp: catalog_ok_def)

lemma add_if_absent_run:
  assumes db: "catalog_ok db" "n \<noteq> ''address_receivers''" and run: "add_column_if_absent n c db = (Inr u, db')"
  shows "catalog_ok db'" "carried db db'" "table_column_exists n (cl_name c) db'"
    "\<And>m. m \<noteq> n \<Longrightarrow> ct_tables db' m = ct_tables db m" "ct_indexes db' = ct_indexes db" "ct_foreign_keys db' = ct_foreign_keys db"
    "\<And>m k. table_column_exists m k db \<Longrightarrow> table_column_exists m k db'" "ct_tables db' n \<noteq> None"
proof -
  have "catalog_ok db' \<and> carried db db' \<and> table_column_exists n (cl_name c) db' \<and> (\<forall>m. m \<noteq> n \<longrightarrow> ct_tables db' m = ct_tables db m)
    \<and> ct_indexes db' = ct_indexes db \<and> ct_foreign_keys db' = ct_foreign_keys db
    \<and> (\<forall>m k. table_column_exists m k db \<longrightarrow> table_column_exists m k db') \<and> ct_tables db' n \<noteq> None"
  proof (cases "table_column_exists n (cl_name c) db")
    case True
    with db run show ?thesis by (auto simp: add_column_if_absent_def carried_refl table_column_exists_def split: option.splits)
  next
    case False
    with run obtain t where t: "ct_tables db n = Some t" "cl_name c \<notin> set (column_names t)"
      "db' = put_table n (t\<lparr>sd_sql := butlast (sd_sql t) @ '', '' @ column_sql c @ '')'', sd_columns := sd_columns t @ [c],
       sd_rows := map (\<lambda>row. row @ [(cl_name c, default_of (cl_options c))]) (sd_rows t)\<rparr>) db"
      by (auto simp: add_column_if_absent_def add_column_Inr)
    let ?u = "t\<lparr>sd_sql := butlast (sd_sql t) @ '', '' @ column_sql c @ '')'', sd_columns := sd_columns t @ [c],
       sd_rows := map (\<lambda>row. row @ [(cl_name c, default_of (cl_options c))]) (sd_rows t)\<rparr>"
    have ok: "table_ok t" using db(1) t(1) by (auto simp: catalog_ok_def)
    have "table_ok ?u" using ok by (auto simp: table_ok_def list_all_iff)
    moreover have "table_carried n t ?u"
      by (rule mapped_carried [where f = "\<lambda>row. row @ [(cl_name c, default_of (cl_options c))]"])
         (use t(2) in \<open>auto simp: kept_columns_def field_append\<close>)
    ultimately show ?thesis unfolding t(3) using db t(1)
      by (auto intro: catalog_put carried_put simp: table_column_exists_def column_names_def split: option.splits)
  qed
  then show "catalog_ok db'" "carried db db'" "table_column_exists n (cl_name c) db'"
    "\<And>m. m \<noteq> n \<Longrightarrow> ct_tables db' m = ct_tables db m" "ct_indexes db' = ct_indexes db" "ct_foreign_keys db' = ct_foreign_keys db"
    "\<And>m k. table_column_exists m k db \<Longrightarrow> table_column_exists m k db'" "ct_tables db' n \<noteq> None" by blast+
qed

lemma in_place_tables:
  "in_place s db \<Longrightarrow> (\<And>m. ct_tables db m \<noteq> None \<Longrightarrow> ct_tables db' m \<noteq> None) \<Longrightarrow> ct_indexes db' = ct_indexes db \<Longrightarrow> in_place s db'"
  by (cases s) auto

lemma update_run:
  assumes db: "catalog_ok db" "n \<noteq> ''address_receivers''" and run: "update_rows n p c v db = (Inr u, db')"
    and free: "\<not> kept_column n c"
  shows "catalog_ok db'" "carried db db'"
proof -
  from run obtain t where t: "ct_tables db n = Some t"
    "db' = put_table n (t\<lparr>sd_rows := map (\<lambda>row. if p row then set_field c (v row) row else row) (sd_rows t)\<rparr>) db"
    by (auto simp: update_rows_Inr)
  have ok: "table_ok t" using db(1) t(1) by (auto simp: catalog_ok_def)
  let ?u = "t\<lparr>sd_rows := map (\<lambda>row. if p row then set_field c (v row) row else row) (sd_rows t)\<rparr>"
  have "table_ok ?u" using ok by (auto simp: table_ok_def list_all_iff)
  then show "catalog_ok db'" unfolding t(2) using db by (intro catalog_put) auto
  have "table_carried n t ?u"
    by (rule mapped_carried [where f = "\<lambda>row. if p row then set_field c (v row) row else row"])
       (use free in \<open>auto simp: kept_columns_def field_set_field\<close>)
  then show "carried db db'" unfolding t(2) by (rule carried_put [OF t(1)])
qed

lemma andThen_unit: "andThen m (\<lambda>_ :: unit. k) s = (Inr y, t) \<longleftrightarrow> (\<exists>u. m s = (Inr (), u) \<and> k u = (Inr y, t))"
  by (simp add: andThen_Inr)

definition first_observed :: column where
  "first_observed = col ''first_observed_at'' ''TEXT'' [NotNull, DefaultTo (SText [])]"

lemma first_observed_run:
  assumes db: "catalog_ok db" "\<not> table_column_exists ''address_receipts_recent'' ''first_observed_at'' db"
    and run: "add_column ''address_receipts_recent'' first_observed db = (Inr u, d)"
      "update_rows ''address_receipts_recent'' p ''first_observed_at'' v d = (Inr w, db')"
  shows "catalog_ok db'" "carried db db'" "ct_tables db' ''address_receipts_recent'' \<noteq> None" "ct_indexes db' = ct_indexes db"
    "\<And>m. m \<noteq> ''address_receipts_recent'' \<Longrightarrow> ct_tables db' m = ct_tables db m" "ct_foreign_keys db' = ct_foreign_keys db"
    "table_column_exists ''address_receipts_recent'' ''first_observed_at'' db'"
    "\<And>m k. table_column_exists m k db \<Longrightarrow> table_column_exists m k db'"
proof -
  let ?n = "''address_receipts_recent''"
  let ?row = "\<lambda>row. row @ [(cl_name first_observed, default_of (cl_options first_observed))]"
  let ?f = "\<lambda>row. if p (?row row) then set_field ''first_observed_at'' (v (?row row)) (?row row) else ?row row"
  from run(1) obtain t where t: "ct_tables db ?n = Some t" "cl_name first_observed \<notin> set (column_names t)"
    "d = put_table ?n (t\<lparr>sd_sql := butlast (sd_sql t) @ '', '' @ column_sql first_observed @ '')'', sd_columns := sd_columns t @ [first_observed],
       sd_rows := map ?row (sd_rows t)\<rparr>) db"
    by (auto simp: add_column_Inr)
  define w where "w = t\<lparr>sd_sql := butlast (sd_sql t) @ '', '' @ column_sql first_observed @ '')'', sd_columns := sd_columns t @ [first_observed],
       sd_rows := map ?f (sd_rows t)\<rparr>"
  have db': "db' = put_table ?n w db"
    using run(2) by (auto simp: t(3) update_rows_Inr w_def put_table_def comp_def)
  have ok: "table_ok t" using db(1) t(1) by (auto simp: catalog_ok_def)
  have w: "table_ok w" using ok by (auto simp: table_ok_def list_all_iff w_def)
  have "table_carried ?n t w"
    by (rule mapped_carried [where f = ?f])
       (use t(2) in \<open>auto simp: w_def kept_columns_def field_append field_set_field first_observed_def\<close>)
  then show "carried db db'" unfolding db' by (rule carried_put [OF t(1)])
  show "catalog_ok db'" unfolding db' using db(1) w by (intro catalog_put) auto
  show "ct_tables db' ?n \<noteq> None" "ct_indexes db' = ct_indexes db" "\<And>m. m \<noteq> ?n \<Longrightarrow> ct_tables db' m = ct_tables db m"
    "ct_foreign_keys db' = ct_foreign_keys db" by (simp_all add: db')
  show "table_column_exists ?n ''first_observed_at'' db'"
    by (simp add: db' table_column_exists_def w_def first_observed_def)
  show "table_column_exists m k db'" if "table_column_exists m k db" for m k
    using that t(1) by (auto simp: db' table_column_exists_def w_def split: option.splits)
qed

lemma index_kept:
  assumes "create_index i n cs db = (Inr u, db')"
  shows "ct_tables db' = ct_tables db" "ct_foreign_keys db' = ct_foreign_keys db" "ct_indexes db' i \<noteq> None"
    "\<And>j p. ct_indexes db j = Some p \<Longrightarrow> ct_indexes db' j = Some p"
    "\<And>j p. ct_indexes db' j = Some p \<Longrightarrow> ct_indexes db j = Some p \<or> fst p = n"
proof -
  from assms obtain t where t: "if ct_indexes db i \<noteq> None then db' = db else db' = db\<lparr>ct_indexes := (ct_indexes db)(i \<mapsto> (n, cs))\<rparr>"
    by (auto simp: create_index_Inr split: if_splits)
  show "ct_tables db' = ct_tables db" "ct_foreign_keys db' = ct_foreign_keys db" "ct_indexes db' i \<noteq> None"
    "\<And>j p. ct_indexes db j = Some p \<Longrightarrow> ct_indexes db' j = Some p"
    "\<And>j p. ct_indexes db' j = Some p \<Longrightarrow> ct_indexes db j = Some p \<or> fst p = n"
    using t by (cases "ct_indexes db i"; auto split: if_splits)+
qed

lemma mempool_columns_run:
  assumes db: "catalog_ok db" and run: "ensure_address_receipts_recent_mempool_columns db = (Inr u, db')"
  shows "catalog_ok db'" "carried db db'" "\<And>s. in_place s db \<Longrightarrow> in_place s db'"
    "table_column_exists ''address_receipts_recent'' ''receipt_kind'' db'" "table_column_exists ''address_receipts_recent'' ''first_observed_at'' db'"
proof -
  let ?n = "''address_receipts_recent''"
  let ?kind = "col ''receipt_kind'' ''TEXT'' [NotNull, DefaultTo (SText ''mined'')]"
  from run have "\<exists>a b. add_column_if_absent ?n ?kind db = (Inr (), a)
    \<and> (if table_column_exists ?n ''first_observed_at'' a then ret ()
        else andThen (add_column ?n first_observed) (\<lambda>_.
          update_rows ?n (\<lambda>row. field ''first_observed_at'' row = SText []) ''first_observed_at'' (field ''observed_at''))) a = (Inr (), b)
    \<and> create_index ''address_receipts_recent_mempool_txid_idx'' ?n [''receipt_kind'', ''receipt_state'', ''txid''] b = (Inr (), db')"
    unfolding ensure_address_receipts_recent_mempool_columns_def first_observed_def andThen_unit by simp
  then obtain a b where 1: "add_column_if_absent ?n ?kind db = (Inr (), a)"
    and 2: "(if table_column_exists ?n ''first_observed_at'' a then ret ()
        else andThen (add_column ?n first_observed) (\<lambda>_.
          update_rows ?n (\<lambda>row. field ''first_observed_at'' row = SText []) ''first_observed_at'' (field ''observed_at''))) a = (Inr (), b)"
    and 3: "create_index ''address_receipts_recent_mempool_txid_idx'' ?n [''receipt_kind'', ''receipt_state'', ''txid''] b = (Inr (), db')"
    by blast
  have n: "?n \<noteq> ''address_receivers''" by simp
  note a = add_if_absent_run [OF db n 1]
  have b: "catalog_ok b" "carried a b" "ct_tables b ?n \<noteq> None" "ct_indexes b = ct_indexes a"
    "\<And>m. m \<noteq> ?n \<Longrightarrow> ct_tables b m = ct_tables a m" "table_column_exists ?n ''first_observed_at'' b"
    "\<And>m k. table_column_exists m k a \<Longrightarrow> table_column_exists m k b"
  proof -
    have "catalog_ok b \<and> carried a b \<and> ct_tables b ?n \<noteq> None \<and> ct_indexes b = ct_indexes a
      \<and> (\<forall>m. m \<noteq> ?n \<longrightarrow> ct_tables b m = ct_tables a m) \<and> table_column_exists ?n ''first_observed_at'' b
      \<and> (\<forall>m k. table_column_exists m k a \<longrightarrow> table_column_exists m k b)"
    proof (cases "table_column_exists ?n ''first_observed_at'' a")
      case True
      with 2 a(1,8) show ?thesis by (auto simp: carried_refl)
    next
      case False
      with 2 obtain d where d: "add_column ?n first_observed a = (Inr (), d)"
        "update_rows ?n (\<lambda>row. field ''first_observed_at'' row = SText []) ''first_observed_at'' (field ''observed_at'') d = (Inr (), b)"
        by (auto simp: andThen_Inr)
      from first_observed_run [OF a(1) False d] show ?thesis by blast
    qed
    then show "catalog_ok b" "carried a b" "ct_tables b ?n \<noteq> None" "ct_indexes b = ct_indexes a"
      "\<And>m. m \<noteq> ?n \<Longrightarrow> ct_tables b m = ct_tables a m" "table_column_exists ?n ''first_observed_at'' b"
      "\<And>m k. table_column_exists m k a \<Longrightarrow> table_column_exists m k b" by blast+
  qed
  note c = index_kept [OF 3]
  have "in_place s b" if "in_place s db" for s
    by (rule in_place_tables [OF that]) (use a(4,5) b(3,4,5) in metis)+
  moreover have "in_place s db'" if "in_place s b" for s using that c(1,4) by (cases s) auto
  ultimately show "in_place s db'" if "in_place s db" for s using that by blast
  show "catalog_ok db'" using b(1) c(1) by (simp add: catalog_ok_def)
  show "carried db db'" using a(2) b(2) carried_same_tables [OF c(1)] carried_trans by blast
  show "table_column_exists ?n ''receipt_kind'' db'" "table_column_exists ?n ''first_observed_at'' db'"
    using a(3) b(6,7) c(1) by (simp_all add: table_column_exists_def)
qed

section \<open>The rebuilt tables\<close>

lemma indexes_run:
  assumes "for_each (\<lambda>(i, cs) _. create_index i n cs) idx u db = (Inr v, db')"
  shows "ct_tables db' = ct_tables db \<and> ct_foreign_keys db' = ct_foreign_keys db \<and> (\<forall>(i, cs) \<in> set idx. ct_indexes db' i \<noteq> None)
    \<and> (\<forall>j p. ct_indexes db j = Some p \<longrightarrow> ct_indexes db' j = Some p)
    \<and> (\<forall>j p. ct_indexes db' j = Some p \<longrightarrow> ct_indexes db j = Some p \<or> fst p = n)"
  using assms
proof (induction idx arbitrary: u db)
  case Nil
  then show ?case by simp
next
  case (Cons x idx)
  obtain i cs where x: "x = (i, cs)" by fastforce
  with Cons.prems obtain w d where 1: "create_index i n cs db = (Inr w, d)"
    and 2: "for_each (\<lambda>(i, cs) _. create_index i n cs) idx w d = (Inr v, db')"
    by (auto simp: andThen_Inr)
  note one = index_kept [OF 1]
  note rest = Cons.IH [OF 2]
  have "ct_indexes db' i \<noteq> None" using one(3) rest by auto
  moreover have "ct_indexes db' j = Some p" if "ct_indexes db j = Some p" for j p using one(4) rest that by blast
  moreover have "ct_indexes db j = Some p \<or> fst p = n" if "ct_indexes db' j = Some p" for j p using one(5) rest that by blast
  ultimately show ?case using one(1,2) rest x by auto
qed

lemma insert_select_Inr:
  assumes "insert_select n cols m db = (Inr u, db')" "ct_tables db n = Some t" "ct_tables db m = Some s"
  obtains new where "db' = put_table n (t\<lparr>sd_rows := sd_rows t @ new\<rparr>) db"
    "list_all2 (takes t) (map (\<lambda>row. map (\<lambda>c. (c, field c row)) cols) (sd_rows s)) new"
    "set cols \<subseteq> set (column_names t)" "set cols \<subseteq> set (column_names s)"
proof -
  from assms obtain v where v: "insert_rows t (map (\<lambda>row. map (\<lambda>c. (c, field c row)) cols) (sd_rows s)) = Inr v" "db' = put_table n v db"
    "set cols \<subseteq> set (column_names t)" "set cols \<subseteq> set (column_names s)"
    by (auto simp: insert_select_def list_all_iff split: if_splits sum.splits)
  from insert_rows_Inr [OF v(1)] obtain new where "v = t\<lparr>sd_rows := sd_rows t @ new\<rparr>"
    "list_all2 (takes t) (map (\<lambda>row. map (\<lambda>c. (c, field c row)) cols) (sd_rows s)) new" by blast
  with v that show thesis by simp
qed

lemma rebuild_run:
  assumes run: "rebuild_pool_table n def cols idx db = (Inr u, db')" and name: "td_name def = n"
  obtains t new where "ct_tables db n = Some t"
    "ct_tables db' = (ct_tables db)(n \<mapsto> (new_table def)\<lparr>sd_rows := new\<rparr>)" "ct_foreign_keys db' = ct_foreign_keys db"
    "list_all2 (takes (new_table def)) (map (\<lambda>row. map (\<lambda>c. (c, field c row)) cols) (sd_rows t)) new"
    "set cols \<subseteq> set (map cl_name (td_columns def))"
    "\<forall>i m ds. ct_indexes db i = Some (m, ds) \<and> m \<noteq> n \<and> ct_tables db m \<noteq> None \<longrightarrow> ct_indexes db' i = Some (m, ds)"
    "\<forall>i cs ds. (i, cs) \<in> set idx \<and> ct_indexes db i = Some (n, ds) \<longrightarrow> (\<exists>ds. ct_indexes db' i = Some (n, ds))"
proof -
  let ?tmp = "n @ ''_ironwood_upgrade''"
  have tmp: "?tmp \<noteq> n" by simp
  from run obtain a b c d where 1: "rename_table n ?tmp db = (Inr (), a)" and 2: "create_table def a = (Inr (), b)"
    and 3: "insert_select n cols ?tmp b = (Inr (), c)" and 4: "drop_table ?tmp c = (Inr (), d)"
    and 5: "for_each (\<lambda>(i, cs) _. create_index i n cs) idx () d = (Inr u, db')"
    by (auto simp: rebuild_pool_table_def andThen_Inr Let_def)
  from 1 obtain t where t: "ct_tables db n = Some t" "ct_tables db ?tmp = None" and
    a: "a = db\<lparr>ct_tables := (ct_tables db)(n := None, ?tmp \<mapsto> t),
      ct_indexes := (\<lambda>i. map_option (\<lambda>(table, columns). (if table = n then ?tmp else table, columns)) (ct_indexes db i))\<rparr>"
    by (auto simp: rename_table_def split: option.splits if_splits)
  from 2 have b: "b = put_table n (new_table def) a" by (simp add: create_table_Inr name)
  have bt: "ct_tables b n = Some (new_table def)" "ct_tables b ?tmp = Some t" using tmp by (simp_all add: a b)
  from insert_select_Inr [OF 3 bt] obtain new where
    c: "c = put_table n ((new_table def)\<lparr>sd_rows := new\<rparr>) b" and new: "list_all2 (takes (new_table def)) (map (\<lambda>row. map (\<lambda>c. (c, field c row)) cols) (sd_rows t)) new"
      "set cols \<subseteq> set (map cl_name (td_columns def))"
    by (auto simp: new_table_ok)
  from 4 have d: "d = c\<lparr>ct_tables := (ct_tables c)(?tmp := None),
        ct_indexes := (\<lambda>i. case ct_indexes c i of Some (table, columns) \<Rightarrow> if table = ?tmp then None else Some (table, columns) | None \<Rightarrow> None)\<rparr>"
    by (auto simp: drop_table_def split: if_splits)
  note idx = indexes_run [OF 5]
  have tables: "ct_tables d = (ct_tables db)(n \<mapsto> (new_table def)\<lparr>sd_rows := new\<rparr>)"
    using t(2) tmp by (auto simp: d c b a fun_eq_iff)
  show thesis
  proof (rule that [OF t(1) _ _ new])
    show "ct_tables db' = (ct_tables db)(n \<mapsto> (new_table def)\<lparr>sd_rows := new\<rparr>)" using idx tables by simp
    show "ct_foreign_keys db' = ct_foreign_keys db" using idx by (simp add: d c b a)
    have "ct_indexes db' i = Some (m, ds)" if "ct_indexes db i = Some (m, ds)" "m \<noteq> n" "ct_tables db m \<noteq> None" for i m ds
    proof -
      have "m \<noteq> ?tmp" using that(3) t(2) by auto
      then have "ct_indexes d i = Some (m, ds)" using that(1,2) by (simp add: d c b a)
      with idx show ?thesis by blast
    qed
    then show "\<forall>i m ds. ct_indexes db i = Some (m, ds) \<and> m \<noteq> n \<and> ct_tables db m \<noteq> None \<longrightarrow> ct_indexes db' i = Some (m, ds)" by blast
    have "\<exists>ds. ct_indexes db' i = Some (n, ds)" if i: "(i, cs) \<in> set idx" "ct_indexes db i = Some (n, ds)" for i cs ds
    proof -
      have none: "ct_indexes d i = None" using i(2) by (simp add: d c b a)
      obtain p where p: "ct_indexes db' i = Some p" using idx i(1) by fastforce
      then have "ct_indexes d i = Some p \<or> fst p = n" using idx by blast
      with none p show ?thesis by (cases p) auto
    qed
    then show "\<forall>i cs ds. (i, cs) \<in> set idx \<and> ct_indexes db i = Some (n, ds) \<longrightarrow> (\<exists>ds. ct_indexes db' i = Some (n, ds))" by blast
  qed
qed

text \<open>What the Ironwood upgrade starts from, and keeps.\<close>

definition laid_out :: "catalog \<Rightarrow> bool" where
  "laid_out db \<longleftrightarrow> catalog_ok db \<and> (\<forall>s \<in> set schema_batch. in_place s db)
     \<and> table_column_exists ''address_receipts_recent'' ''receipt_kind'' db
     \<and> table_column_exists ''address_receipts_recent'' ''first_observed_at'' db"

lemma created_texts:
  "contains (create_sql address_receivers_table) (quoted ''ironwood'')"
  "contains (create_sql address_receipts_recent_table) (quoted ''ironwood'')"
  by code_simp+

lemma receivers_def_columns: "map cl_name (td_columns address_receivers_table) = receivers_columns"
  by code_simp

lemma receipts_def_columns: "map cl_name (td_columns address_receipts_recent_table) = receipts_columns"
  by code_simp

lemma selected_carried:
  assumes t: "table_ok t" and new: "list_all2 (takes (new_table def)) (map (\<lambda>row. map (\<lambda>c. (c, field c row)) cols) (sd_rows t)) new"
    and cols: "map cl_name (td_columns def) = cols" "set (kept_columns n t) \<subseteq> set cols" "\<And>c. c \<in> set cols \<Longrightarrow> kept_column n c"
  shows "table_ok ((new_table def)\<lparr>sd_rows := new\<rparr>)" "table_carried n t ((new_table def)\<lparr>sd_rows := new\<rparr>)"
    "\<And>copy. copy \<in> set new \<Longrightarrow> \<exists>row \<in> set (sd_rows t). \<forall>c \<in> set cols. field c copy = field c row"
proof -
  have taken: "map fst copy = cols \<and> (\<forall>c \<in> set cols. field c copy = field c row)"
    if "takes (new_table def) (map (\<lambda>c. (c, field c row)) cols) copy" for row copy
    using that by (auto simp: takes_def new_table_ok cols(1) map_of_selected)
  have pairs: "list_all2 (\<lambda>row copy. takes (new_table def) (map (\<lambda>c. (c, field c row)) cols) copy) (sd_rows t) new"
    using new by (simp add: list_all2_map1)
  have from_row: "\<exists>row \<in> set (sd_rows t). takes (new_table def) (map (\<lambda>c. (c, field c row)) cols) copy" if "copy \<in> set new" for copy
    using pairs that by (metis (no_types, lifting) in_set_conv_nth list_all2_conv_all_nth)
  have to_row: "\<exists>copy \<in> set new. takes (new_table def) (map (\<lambda>c. (c, field c row)) cols) copy" if "row \<in> set (sd_rows t)" for row
    using pairs that by (metis (no_types, lifting) in_set_conv_nth list_all2_conv_all_nth)
  show "table_ok ((new_table def)\<lparr>sd_rows := new\<rparr>)"
    using from_row taken by (fastforce simp: table_ok_def list_all_iff new_table_ok cols(1))
  have "\<exists>copy \<in> set new. \<forall>c \<in> set (kept_columns n t). field c copy = field c row" if "row \<in> set (sd_rows t)" for row
    using to_row [OF that] taken cols(2) by blast
  then show "table_carried n t ((new_table def)\<lparr>sd_rows := new\<rparr>)"
    using cols by (auto simp: table_carried_def kept_columns_def new_table_ok)
  show "\<exists>row \<in> set (sd_rows t). \<forall>c \<in> set cols. field c copy = field c row" if "copy \<in> set new" for copy
    using from_row [OF that] taken by blast
qed

lemma pool_indexes_listed:
  "list_all (\<lambda>s. case s of CreateIndex i m cs \<Rightarrow> m \<noteq> ''address_receivers'' \<and> (m = ''address_receipts_recent'' \<longrightarrow> (i, cs) \<in> set receipts_indexes)
     | _ \<Rightarrow> True) schema_batch"
  by code_simp

lemma batch_pool_indexes:
  "CreateIndex i m cs \<in> set schema_batch \<Longrightarrow> m \<noteq> ''address_receivers'' \<and> (m = ''address_receipts_recent'' \<longrightarrow> (i, cs) \<in> set receipts_indexes)"
  using pool_indexes_listed by (fastforce simp: list_all_iff)

lemma pool_table_run:
  assumes db: "laid_out db" and run: "rebuild_pool_table n def cols idx db = (Inr u, db')"
    and which: "n = ''address_receivers'' \<and> def = address_receivers_table \<and> cols = receivers_columns \<and> idx = []
      \<or> n = ''address_receipts_recent'' \<and> def = address_receipts_recent_table \<and> cols = receipts_columns \<and> idx = receipts_indexes"
  shows "laid_out db'" "carried db db'" "table_allows_ironwood_pool n db'" "\<And>m. m \<noteq> n \<Longrightarrow> ct_tables db' m = ct_tables db m"
    "ct_foreign_keys db' = ct_foreign_keys db"
proof -
  have name: "td_name def = n" using which by (auto simp: address_receivers_table_def address_receipts_recent_table_def)
  obtain t new where
    t: "ct_tables db n = Some t" and tables: "ct_tables db' = (ct_tables db)(n \<mapsto> (new_table def)\<lparr>sd_rows := new\<rparr>)"
    and fk: "ct_foreign_keys db' = ct_foreign_keys db"
    and new: "list_all2 (takes (new_table def)) (map (\<lambda>row. map (\<lambda>c. (c, field c row)) cols) (sd_rows t)) new"
    and subset: "set cols \<subseteq> set (map cl_name (td_columns def))"
    and other: "\<forall>i m ds. ct_indexes db i = Some (m, ds) \<and> m \<noteq> n \<and> ct_tables db m \<noteq> None \<longrightarrow> ct_indexes db' i = Some (m, ds)"
    and own: "\<forall>i cs ds. (i, cs) \<in> set idx \<and> ct_indexes db i = Some (n, ds) \<longrightarrow> (\<exists>ds. ct_indexes db' i = Some (n, ds))"
    using rebuild_run [OF run name] by blast
  have cols: "map cl_name (td_columns def) = cols" using which receivers_def_columns receipts_def_columns by auto
  have kept: "set (kept_columns n t) \<subseteq> set cols" using which by (auto simp: kept_columns_def kept_column_def)
  have keeps: "kept_column n c" if "c \<in> set cols" for c using which that by (auto simp: kept_column_def)
  have t_ok: "table_ok t" using db t by (auto simp: laid_out_def catalog_ok_def)
  note carry = selected_carried [OF t_ok new cols kept keeps]
  show "carried db db'" using carry(2) t by (auto simp: carried_def tables intro: table_carried_refl)
  show "\<And>m. m \<noteq> n \<Longrightarrow> ct_tables db' m = ct_tables db m" "ct_foreign_keys db' = ct_foreign_keys db" by (simp_all add: tables fk)
  show "table_allows_ironwood_pool n db'"
    using which created_texts by (auto simp: table_allows_ironwood_pool_def table_sql_def tables new_table_ok)
  have "list_all (\<lambda>row. field ''address_id'' row \<noteq> SNull) new" if "n = ''address_receivers''"
  proof -
    have "list_all (\<lambda>row. field ''address_id'' row \<noteq> SNull) (sd_rows t)" using db t that by (simp add: laid_out_def catalog_ok_def)
    moreover have "''address_id'' \<in> set cols" using which that by (auto simp: receivers_columns_def)
    ultimately show ?thesis using carry(3) by (fastforce simp: list_all_iff)
  qed
  then have catalog: "catalog_ok db'" using db carry(1) which by (auto simp: laid_out_def catalog_ok_def tables)
  have "in_place s db'" if s: "s \<in> set schema_batch" for s
  proof (cases s)
    case (CreateTable def')
    with db s show ?thesis by (auto simp: laid_out_def tables)
  next
    case (CreateIndex i m cs)
    have "in_place s db" using db s by (simp add: laid_out_def)
    then obtain ds where i: "ct_tables db m \<noteq> None" "ct_indexes db i = Some (m, ds)" by (auto simp: CreateIndex)
    have "(i, cs) \<in> set idx" if "m = n"
      using batch_pool_indexes [OF s [unfolded CreateIndex]] which that by auto
    with i other own show ?thesis by (cases "m = n") (auto simp: CreateIndex tables)
  qed
  moreover have "table_column_exists ''address_receipts_recent'' c db'"
    if "table_column_exists ''address_receipts_recent'' c db" "c = ''receipt_kind'' \<or> c = ''first_observed_at''" for c
  proof (cases "n = ''address_receipts_recent''")
    case True
    then have "column_names ((new_table def)\<lparr>sd_rows := new\<rparr>) = receipts_columns" using which cols by (simp add: new_table_ok)
    with True that(2) show ?thesis by (auto simp: table_column_exists_def tables receipts_columns_def)
  next
    case False
    with that(1) show ?thesis by (simp add: table_column_exists_def tables)
  qed
  ultimately show "laid_out db'" using catalog db by (simp add: laid_out_def)
qed

section \<open>The Ironwood upgrade\<close>

lemma field_takes:
  "takes t (ironwood_values row) copy \<Longrightarrow> set (tl receivers_columns) \<subseteq> set (column_names t) \<Longrightarrow>
   field ''pool'' copy = SText ''ironwood'' \<and> field ''address_id'' copy = field ''address_id'' row"
  by (simp add: takes_def ironwood_values_def receivers_columns_def)

lemma copy_orchard_run:
  assumes db: "laid_out db" and run: "copy_orchard_rows db = (Inr u, db')"
  shows "laid_out db'" "carried db db'" "\<And>m. m \<noteq> ''address_receivers'' \<Longrightarrow> ct_tables db' m = ct_tables db m"
    "\<exists>t. ct_tables db' ''address_receivers'' = Some t \<and> unpaired_orchard t = [] \<and> set (tl receivers_columns) \<subseteq> set (column_names t)"
    "ct_foreign_keys db' = ct_foreign_keys db" "\<And>n. table_allows_ironwood_pool n db' = table_allows_ironwood_pool n db"
proof -
  let ?n = "''address_receivers''"
  from run obtain t v where t: "ct_tables db ?n = Some t" "set (tl receivers_columns) \<subseteq> set (column_names t)"
    "insert_rows t (map ironwood_values (unpaired_orchard t)) = Inr v" "db' = put_table ?n v db"
    by (auto simp: copy_orchard_rows_def list_all_iff split: option.splits if_splits sum.splits)
  from insert_rows_Inr [OF t(3)] obtain new where v: "v = t\<lparr>sd_rows := sd_rows t @ new\<rparr>"
    and new: "list_all2 (takes t) (map ironwood_values (unpaired_orchard t)) new" by blast
  have pairs: "list_all2 (\<lambda>row copy. takes t (ironwood_values row) copy) (unpaired_orchard t) new" using new by (simp add: list_all2_map1)
  have from_row: "\<exists>row \<in> set (unpaired_orchard t). takes t (ironwood_values row) copy" if "copy \<in> set new" for copy
    using pairs that by (metis (no_types, lifting) in_set_conv_nth list_all2_conv_all_nth)
  have to_row: "\<exists>copy \<in> set new. takes t (ironwood_values row) copy" if "row \<in> set (unpaired_orchard t)" for row
    using pairs that by (metis (no_types, lifting) in_set_conv_nth list_all2_conv_all_nth)
  have t_ok: "table_ok t" "list_all (\<lambda>row. field ''address_id'' row \<noteq> SNull) (sd_rows t)"
    using db t(1) by (auto simp: laid_out_def catalog_ok_def)
  have addressed: "field ''address_id'' copy \<noteq> SNull" if "copy \<in> set new" for copy
    using from_row [OF that] field_takes [OF _ t(2)] t_ok(2) by (fastforce simp: list_all_iff unpaired_orchard_def)
  have "table_ok v" using t_ok(1) from_row by (fastforce simp: v table_ok_def list_all_iff takes_def)
  moreover have "list_all (\<lambda>row. field ''address_id'' row \<noteq> SNull) (sd_rows v)" using t_ok(2) addressed by (auto simp: v list_all_iff)
  ultimately have catalog: "catalog_ok db'" using db by (auto simp: t(4) laid_out_def intro!: catalog_put)
  show "carried db db'" unfolding t(4)
    by (rule carried_put [OF t(1)]) (auto simp: table_carried_def v kept_columns_def)
  show other: "\<And>m. m \<noteq> ?n \<Longrightarrow> ct_tables db' m = ct_tables db m" "ct_foreign_keys db' = ct_foreign_keys db" by (simp_all add: t(4))
  have "in_place s db'" if "s \<in> set schema_batch" for s
  proof (rule in_place_tables)
    show "in_place s db" using that db by (simp add: laid_out_def)
  qed (simp_all add: t(4))
  with catalog db show "laid_out db'" by (simp add: laid_out_def table_column_exists_def t(4))
  have "unpaired_orchard v = []"
  proof (rule ccontr)
    assume "unpaired_orchard v \<noteq> []"
    then obtain row where "row \<in> set (unpaired_orchard v)" using list.set_sel(1) by blast
    then have row: "row \<in> set (sd_rows v)" "field ''pool'' row = SText ''orchard''"
      "other \<in> set (sd_rows v) \<Longrightarrow> field ''address_id'' other = field ''address_id'' row \<Longrightarrow> field ''address_id'' row \<noteq> SNull \<Longrightarrow> field ''pool'' other \<noteq> SText ''ironwood''" for other
      by (auto simp: unpaired_orchard_def list_ex_iff)
    have "row \<notin> set new" using row(2) from_row field_takes [OF _ t(2)] by fastforce
    then have old: "row \<in> set (sd_rows t)" using row(1) by (auto simp: v)
    then have addr: "field ''address_id'' row \<noteq> SNull" using t_ok(2) by (auto simp: list_all_iff)
    have "row \<in> set (unpaired_orchard t)"
      using old row addr by (auto simp: unpaired_orchard_def list_ex_iff v)
    from to_row [OF this] obtain copy where "copy \<in> set new" "takes t (ironwood_values row) copy" by blast
    with field_takes [OF this(2) t(2)] row(3) [of copy] addr show False by (simp add: v)
  qed
  with t v show "\<exists>t. ct_tables db' ?n = Some t \<and> unpaired_orchard t = [] \<and> set (tl receivers_columns) \<subseteq> set (column_names t)"
    by simp
  show "table_allows_ironwood_pool n db' = table_allows_ironwood_pool n db" for n
    using t(1) v by (simp add: table_allows_ironwood_pool_def table_sql_def t(4))
qed

text \<open>What the Ironwood upgrade reaches.\<close>

definition ironwood_ready :: "catalog \<Rightarrow> bool" where
  "ironwood_ready db \<longleftrightarrow> table_allows_ironwood_pool ''address_receivers'' db \<and> table_allows_ironwood_pool ''address_receipts_recent'' db
     \<and> (\<exists>t. ct_tables db ''address_receivers'' = Some t \<and> unpaired_orchard t = [] \<and> set (tl receivers_columns) \<subseteq> set (column_names t))
     \<and> (\<exists>t. ct_tables db ''service_metadata'' = Some t \<and> list_all (\<lambda>row. \<not> older_version row) (sd_rows t))
     \<and> ct_foreign_keys db"

lemma pool_step:
  assumes db: "laid_out db"
    and run: "(if \<not> table_allows_ironwood_pool n db then rebuild_pool_table n def cols idx else ret ()) db = (Inr u, db')"
    and which: "n = ''address_receivers'' \<and> def = address_receivers_table \<and> cols = receivers_columns \<and> idx = []
      \<or> n = ''address_receipts_recent'' \<and> def = address_receipts_recent_table \<and> cols = receipts_columns \<and> idx = receipts_indexes"
  shows "laid_out db' \<and> carried db db' \<and> table_allows_ironwood_pool n db' \<and> (\<forall>m. m \<noteq> n \<longrightarrow> ct_tables db' m = ct_tables db m)"
proof (cases "table_allows_ironwood_pool n db")
  case True
  with db run show ?thesis by (simp add: carried_refl)
next
  case False
  with run have "rebuild_pool_table n def cols idx db = (Inr u, db')" by simp
  from pool_table_run [OF db this which] show ?thesis by blast
qed

lemma version_run:
  assumes db: "laid_out db" and run: "update_rows ''service_metadata'' older_version ''app_schema_version'' (\<lambda>_. SInt APP_SCHEMA_VERSION) db = (Inr u, db')"
  shows "laid_out db'" "carried db db'" "\<And>m. m \<noteq> ''service_metadata'' \<Longrightarrow> ct_tables db' m = ct_tables db m"
    "\<exists>t. ct_tables db' ''service_metadata'' = Some t \<and> list_all (\<lambda>row. \<not> older_version row) (sd_rows t)"
proof -
  from run obtain t where t: "ct_tables db ''service_metadata'' = Some t"
    "db' = put_table ''service_metadata'' (t\<lparr>sd_rows := map (\<lambda>row. if older_version row then set_field ''app_schema_version'' (SInt APP_SCHEMA_VERSION) row else row) (sd_rows t)\<rparr>) db"
    by (auto simp: update_rows_Inr)
  have "catalog_ok db" using db by (simp add: laid_out_def)
  note step = update_run [OF this _ run]
  have ok: "catalog_ok db'" "carried db db'" by (rule step; simp add: kept_column_def)+
  show "carried db db'" by (rule ok(2))
  show "\<And>m. m \<noteq> ''service_metadata'' \<Longrightarrow> ct_tables db' m = ct_tables db m" by (simp add: t(2))
  have "in_place s db'" if "s \<in> set schema_batch" for s
  proof (rule in_place_tables)
    show "in_place s db" using that db by (simp add: laid_out_def)
  qed (simp_all add: t(2))
  with ok(1) db show "laid_out db'" by (simp add: laid_out_def table_column_exists_def t(2))
  have "\<not> older_version (set_field ''app_schema_version'' (SInt APP_SCHEMA_VERSION) row)" for row
    using field_missing [of "''app_schema_version''" row] by (auto simp: older_version_def field_set_field)
  then show "\<exists>t. ct_tables db' ''service_metadata'' = Some t \<and> list_all (\<lambda>row. \<not> older_version row) (sd_rows t)"
    by (auto simp: t(2) list_all_iff)
qed

lemma allows_same: "ct_tables db' n = ct_tables db n \<Longrightarrow> table_allows_ironwood_pool n db' = table_allows_ironwood_pool n db"
  by (simp add: table_allows_ironwood_pool_def table_sql_def)

lemma laid_out_foreign_keys: "laid_out (db\<lparr>ct_foreign_keys := b\<rparr>) = laid_out db"
proof -
  have "in_place s (db\<lparr>ct_foreign_keys := b\<rparr>) = in_place s db" for s by (cases s) auto
  then show ?thesis by (simp add: laid_out_def catalog_ok_def table_column_exists_def)
qed

lemma ironwood_upgrade_run:
  assumes db: "laid_out db" and run: "ensure_ironwood_pool_support db = (Inr u, db')"
  shows "laid_out db'" "carried db db'" "ironwood_ready db'"
proof -
  from run obtain e where e: "ironwood_upgrade (db\<lparr>ct_foreign_keys := False\<rparr>) = (Inr u, e)" "db' = e\<lparr>ct_foreign_keys := True\<rparr>"
    by (auto simp: ensure_ironwood_pool_support_def split: prod.splits)
  let ?d = "db\<lparr>ct_foreign_keys := False\<rparr>"
  from e(1) obtain a b c where
    1: "(if \<not> table_allows_ironwood_pool ''address_receivers'' ?d
        then rebuild_pool_table ''address_receivers'' address_receivers_table receivers_columns [] else ret ()) ?d = (Inr (), a)"
    and 2: "(if \<not> table_allows_ironwood_pool ''address_receipts_recent'' a
        then rebuild_pool_table ''address_receipts_recent'' address_receipts_recent_table receipts_columns receipts_indexes else ret ()) a = (Inr (), b)"
    and 3: "copy_orchard_rows b = (Inr (), c)"
    and 4: "update_rows ''service_metadata'' older_version ''app_schema_version'' (\<lambda>_. SInt APP_SCHEMA_VERSION) c = (Inr u, e)"
    unfolding ironwood_upgrade_def in_tx_Inr andThen_unit by blast
  have d: "laid_out ?d" using db by (simp add: laid_out_foreign_keys)
  have a: "laid_out a" "carried ?d a" "table_allows_ironwood_pool ''address_receivers'' a"
    using pool_step [OF d 1] by auto
  have b: "laid_out b" "carried a b" "table_allows_ironwood_pool ''address_receipts_recent'' b" "table_allows_ironwood_pool ''address_receivers'' b"
    using pool_step [OF a(1) 2] a(3) allows_same [of b "''address_receivers''" a] by auto
  note c = copy_orchard_run [OF b(1) 3]
  note v = version_run [OF c(1) 4]
  have "carried ?d e" using a(2) b(2) c(2) v(2) carried_trans by blast
  then show "carried db db'" by (simp add: carried_def e(2))
  show "laid_out db'" using v(1) by (simp add: e(2) laid_out_foreign_keys)
  have "table_allows_ironwood_pool n e" if "table_allows_ironwood_pool n b" "n \<noteq> ''service_metadata''" for n
    using that c(6) [of n] allows_same [OF v(3) [OF that(2)]] by simp
  then have "table_allows_ironwood_pool ''address_receivers'' db'" "table_allows_ironwood_pool ''address_receipts_recent'' db'"
    using b(3,4) by (simp_all add: e(2) table_allows_ironwood_pool_def table_sql_def)
  with c(4) v(3,4) show "ironwood_ready db'" by (simp add: ironwood_ready_def e(2))
qed

section \<open>The columns of received by confirmations\<close>

lemma add_ready:
  assumes db: "laid_out db" "ironwood_ready db" and run: "add_column_if_absent n c db = (Inr u, db')"
    and n: "n \<noteq> ''address_receivers''" "n \<noteq> ''address_receipts_recent''" "cl_name c \<noteq> ''singleton_id''" "cl_name c \<noteq> ''app_schema_version''"
  shows "laid_out db'" "carried db db'" "ironwood_ready db'" "table_column_exists n (cl_name c) db'"
    "\<And>m k. table_column_exists m k db \<Longrightarrow> table_column_exists m k db'"
proof -
  have "catalog_ok db" using db(1) by (simp add: laid_out_def)
  note step = add_if_absent_run [OF this n(1) run]
  show "carried db db'" "table_column_exists n (cl_name c) db'" "\<And>m k. table_column_exists m k db \<Longrightarrow> table_column_exists m k db'"
    by (fact step(2,3,7))+
  have "in_place s db'" if "s \<in> set schema_batch" for s
  proof (rule in_place_tables)
    show "in_place s db" using that db(1) by (simp add: laid_out_def)
    show "ct_tables db m \<noteq> None \<Longrightarrow> ct_tables db' m \<noteq> None" for m using step(4) [of m] step(8) by (cases "m = n") auto
  qed (rule step(5))
  with step(1,7) db(1) show "laid_out db'" by (simp add: laid_out_def)
  have pools: "ct_tables db' ''address_receivers'' = ct_tables db ''address_receivers''"
    "ct_tables db' ''address_receipts_recent'' = ct_tables db ''address_receipts_recent''"
    by (rule step(4), use n in simp)+
  have "\<exists>t. ct_tables db' ''service_metadata'' = Some t \<and> list_all (\<lambda>row. \<not> older_version row) (sd_rows t)"
  proof -
    from db(2) obtain t where t: "ct_tables db ''service_metadata'' = Some t" "list_all (\<lambda>row. \<not> older_version row) (sd_rows t)"
      by (auto simp: ironwood_ready_def)
    show ?thesis
    proof (cases "n = ''service_metadata'' \<and> \<not> table_column_exists n (cl_name c) db")
      case True
      have same: "older_version (row @ [(cl_name c, w)]) = older_version row" for row w
        using n(3,4) by (simp add: older_version_def field_append)
      from True run t show ?thesis by (auto simp: add_column_if_absent_def add_column_Inr list_all_iff same)
    next
      case False
      then have "ct_tables db' ''service_metadata'' = ct_tables db ''service_metadata''"
        using run step(4) [of "''service_metadata''"] by (cases "n = ''service_metadata''") (auto simp: add_column_if_absent_def)
      with t show ?thesis by simp
    qed
  qed
  then show "ironwood_ready db'" using db(2) pools allows_same [OF pools(1)] allows_same [OF pools(2)] step(6) by (simp add: ironwood_ready_def)
qed

lemma confirmations_run:
  assumes "laid_out db" "ironwood_ready db" "for_each (\<lambda>(n, c) _. add_column_if_absent n c) ncs u db = (Inr v, db')"
    and "list_all (\<lambda>(n, c). n \<noteq> ''address_receivers'' \<and> n \<noteq> ''address_receipts_recent'' \<and> cl_name c \<noteq> ''singleton_id''
      \<and> cl_name c \<noteq> ''app_schema_version'') ncs"
  shows "laid_out db' \<and> carried db db' \<and> ironwood_ready db' \<and> (\<forall>(n, c) \<in> set ncs. table_column_exists n (cl_name c) db')
    \<and> (\<forall>m k. table_column_exists m k db \<longrightarrow> table_column_exists m k db')"
  using assms
proof (induction ncs arbitrary: u db)
  case Nil
  then show ?case by (simp add: carried_refl)
next
  case (Cons x ncs)
  obtain n c where x: "x = (n, c)" by fastforce
  with Cons.prems(3) obtain w d where 1: "add_column_if_absent n c db = (Inr w, d)"
    and 2: "for_each (\<lambda>(n, c) _. add_column_if_absent n c) ncs w d = (Inr v, db')"
    by (auto simp: andThen_Inr)
  from Cons.prems(4) x have "n \<noteq> ''address_receivers''" "n \<noteq> ''address_receipts_recent''" "cl_name c \<noteq> ''singleton_id''" "cl_name c \<noteq> ''app_schema_version''" by auto
  note one = add_ready [OF Cons.prems(1,2) 1 this]
  from Cons.IH [OF one(1,3) 2] Cons.prems(4) one x show ?case by (auto intro: carried_trans)
qed

section \<open>The whole upgrade\<close>

definition up_to_date :: "catalog \<Rightarrow> bool" where
  "up_to_date db \<longleftrightarrow> laid_out db \<and> ironwood_ready db \<and> list_all (\<lambda>(n, c). table_column_exists n (cl_name c) db) confirmations_columns"

lemma upgrade_run:
  assumes db: "catalog_ok db" "indexes_ok db" and run: "upgrade_schema db = (Inr u, db')"
  shows "up_to_date db'" "carried db db'"
proof -
  from run obtain a b c where 1: "for_each (\<lambda>s _. execute_statement s) schema_batch () db = (Inr (), a)"
    and 2: "ensure_address_receipts_recent_mempool_columns a = (Inr (), b)" and 3: "ensure_ironwood_pool_support b = (Inr (), c)"
    and 4: "for_each (\<lambda>(n, c) _. add_column_if_absent n c) confirmations_columns () c = (Inr u, db')"
    unfolding upgrade_schema_def ensure_received_by_confirmations_columns_def andThen_unit by blast
  have a: "catalog_ok a" "carried db a" "\<forall>s \<in> set schema_batch. in_place s a" using batch_run [OF db _ 1] by auto
  note b = mempool_columns_run [OF a(1) 2]
  have laid: "laid_out b" using a(3) b by (simp add: laid_out_def)
  note c = ironwood_upgrade_run [OF laid 3]
  have "list_all (\<lambda>(n, c). n \<noteq> ''address_receivers'' \<and> n \<noteq> ''address_receipts_recent'' \<and> cl_name c \<noteq> ''singleton_id''
      \<and> cl_name c \<noteq> ''app_schema_version'') confirmations_columns" by code_simp
  note d = confirmations_run [OF c(1,3) 4 this]
  then show "up_to_date db'" by (simp add: up_to_date_def list_all_iff)
  have "carried c db'" using d by simp
  then show "carried db db'" using a(2) b(2) c(2) carried_trans by blast
qed

lemma put_same: "ct_tables db n = Some t \<Longrightarrow> put_table n t db = db"
  by (simp add: put_table_def map_upd_triv)

lemma confirmations_present:
  "list_all (\<lambda>(n, c). table_column_exists n (cl_name c) db) ncs \<Longrightarrow> for_each (\<lambda>(n, c) _. add_column_if_absent n c) ncs () db = (Inr (), db)"
  by (induction ncs) (auto simp: ret_def andThen_def add_column_if_absent_def)

lemma version_current:
  assumes "ct_tables db ''service_metadata'' = Some t" "list_all (\<lambda>row. \<not> older_version row) (sd_rows t)"
  shows "update_rows ''service_metadata'' older_version ''app_schema_version'' (\<lambda>_. SInt APP_SCHEMA_VERSION) db = (Inr (), db)"
proof -
  have "map (\<lambda>row. if older_version row then set_field ''app_schema_version'' (SInt APP_SCHEMA_VERSION) row else row) (sd_rows t) = sd_rows t"
    using assms(2) by (auto simp: list_all_iff intro: map_idI)
  then show ?thesis using assms(1) by (simp add: update_rows_def put_same)
qed

lemma ironwood_at_rest:
  assumes "ironwood_ready db"
  shows "ensure_ironwood_pool_support db = (Inr (), db)"
proof -
  let ?d = "db\<lparr>ct_foreign_keys := False\<rparr>"
  from assms obtain r m where r: "ct_tables db ''address_receivers'' = Some r" "unpaired_orchard r = []" "set (tl receivers_columns) \<subseteq> set (column_names r)"
    and m: "ct_tables db ''service_metadata'' = Some m" "list_all (\<lambda>row. \<not> older_version row) (sd_rows m)"
    by (auto simp: ironwood_ready_def)
  have allows: "table_allows_ironwood_pool ''address_receivers'' ?d" "table_allows_ironwood_pool ''address_receipts_recent'' ?d"
    using assms by (simp_all add: ironwood_ready_def table_allows_ironwood_pool_def table_sql_def)
  have copy: "copy_orchard_rows ?d = (Inr (), ?d)"
    using r by (simp add: copy_orchard_rows_def list_all_iff subset_iff put_same)
  have version: "update_rows ''service_metadata'' older_version ''app_schema_version'' (\<lambda>_. SInt APP_SCHEMA_VERSION) ?d = (Inr (), ?d)"
    by (rule version_current) (use m in simp_all)
  have "ironwood_upgrade ?d = (Inr (), ?d)"
    using allows copy version by (simp add: ironwood_upgrade_def in_tx_def andThen_def ret_def)
  then show ?thesis using assms by (simp add: ensure_ironwood_pool_support_def ironwood_ready_def)
qed

lemma upgrade_at_rest:
  assumes db: "up_to_date db"
  shows "upgrade_schema db = (Inr (), db)"
proof -
  have laid: "laid_out db" "ironwood_ready db" "list_all (\<lambda>(n, c). table_column_exists n (cl_name c) db) confirmations_columns"
    using db by (simp_all add: up_to_date_def)
  have batch: "for_each (\<lambda>s _. execute_statement s) schema_batch () db = (Inr (), db)"
    using laid(1) by (intro batch_in_place) (simp add: laid_out_def)
  have idx: "CreateIndex ''address_receipts_recent_mempool_txid_idx'' ''address_receipts_recent'' [''receipt_kind'', ''receipt_state'', ''txid''] \<in> set schema_batch"
    by (simp add: schema_batch_def)
  then have "in_place (CreateIndex ''address_receipts_recent_mempool_txid_idx'' ''address_receipts_recent'' [''receipt_kind'', ''receipt_state'', ''txid'']) db"
    using laid(1) unfolding laid_out_def by blast
  then have "create_index ''address_receipts_recent_mempool_txid_idx'' ''address_receipts_recent'' [''receipt_kind'', ''receipt_state'', ''txid''] db = (Inr (), db)"
    using statement_in_place by fastforce
  then have mempool: "ensure_address_receipts_recent_mempool_columns db = (Inr (), db)"
    using laid(1) by (simp add: ensure_address_receipts_recent_mempool_columns_def andThen_def add_column_if_absent_def laid_out_def ret_def)
  show ?thesis unfolding upgrade_schema_def ensure_received_by_confirmations_columns_def andThen_unit
    using batch mempool ironwood_at_rest [OF laid(2)] confirmations_present [OF laid(3)] by blast
qed

end
