(* ===== verification/Schema_Properties.thy ===== *)
theory Schema_Properties
  imports Schema_Guarantees
begin

text \<open>
  The upgrade of the schema on concrete files, a file it refuses, and its properties.
\<close>

section \<open>A file the upgrade refuses\<close>

lemma statement_keeps:
  assumes "execute_statement s db = (r, db')" "ct_tables db n = Some t"
  shows "ct_tables db' n = Some t"
    and "\<And>i. ct_indexes db i = None \<Longrightarrow> (\<And>m cs. s \<noteq> CreateIndex i m cs) \<Longrightarrow> ct_indexes db' i = None"
  using assms by (cases s; auto simp: create_table_if_absent_def create_table_def create_index_def split: option.splits if_splits)+

lemma batch_refuses:
  assumes "ct_tables db n = Some t" "ct_indexes db i = None" "CreateIndex i n cs \<in> set ss" "\<not> set cs \<subseteq> set (column_names t)"
    and "\<And>m ds. CreateIndex i m ds \<in> set ss \<Longrightarrow> m = n \<and> ds = cs"
  shows "\<exists>e d. for_each (\<lambda>s _. execute_statement s) ss () db = (Inl e, d) \<and> ct_tables d n = Some t \<and> ct_indexes d i = None"
  using assms
proof (induction ss arbitrary: db)
  case Nil
  then show ?case by simp
next
  case (Cons s ss)
  obtain r d where step: "execute_statement s db = (r, d)" by fastforce
  show ?case
  proof (cases "s = CreateIndex i n cs")
    case True
    with Cons.prems(1,2,4) show ?thesis by (auto simp: andThen_def create_index_def list_all_iff)
  next
    case False
    then have other: "s \<noteq> CreateIndex i m ds" for m ds using Cons.prems(5) [of m ds] by auto
    note kept = statement_keeps [OF step Cons.prems(1)]
    have none: "ct_indexes d i = None" by (rule kept(2) [OF Cons.prems(2)]) (rule other)
    show ?thesis
    proof (cases r)
      case (Inl e)
      with step kept(1) none show ?thesis by (simp add: andThen_def)
    next
      case (Inr u)
      have "CreateIndex i n cs \<in> set ss" using Cons.prems(3) False by auto
      moreover have "m = n \<and> ds = cs" if "CreateIndex i m ds \<in> set ss" for m ds using Cons.prems(5) [of m ds] that by simp
      ultimately have "\<exists>e f. for_each (\<lambda>s _. execute_statement s) ss () d = (Inl e, f) \<and> ct_tables f n = Some t \<and> ct_indexes f i = None"
        using Cons.IH [OF kept(1) none _ Cons.prems(4)] by blast
      with step Inr show ?thesis by (simp add: andThen_def)
    qed
  qed
qed

lemma mempool_index_listed:
  "CreateIndex ''address_receipts_recent_mempool_txid_idx'' m ds \<in> set schema_batch \<Longrightarrow>
   m = ''address_receipts_recent'' \<and> ds = [''receipt_kind'', ''receipt_state'', ''txid'']"
  by (simp add: schema_batch_def)

section \<open>A file from before Ironwood\<close>

definition empty_catalog :: catalog where
  "empty_catalog = \<lparr>ct_tables = (\<lambda>_. None), ct_indexes = (\<lambda>_. None), ct_foreign_keys = True\<rparr>"

text \<open>A file from before Ironwood, with one receiver, and one from before receipt kinds.\<close>

definition sample_receiver :: sql_row where
  "sample_receiver = [(''receiver_id'', SInt 4), (''address_id'', SInt 1), (''pool'', SText ''orchard''), (''receiver_encoding'', SText ''aa''),
     (''receiver_fingerprint'', SBlob [1]), (''is_active'', SInt 1), (''created_at'', SText ''t'')]"

definition old_receivers :: sql_table where
  "old_receivers = (new_table address_receivers_table)\<lparr>sd_sql := ''CREATE TABLE address_receivers (...)'', sd_rows := [sample_receiver]\<rparr>"

definition old_file :: catalog where
  "old_file = put_table ''address_receivers'' old_receivers empty_catalog"

definition old_receipts :: sql_table where
  "old_receipts = (new_table address_receipts_recent_table)\<lparr>sd_columns := filter (\<lambda>c. cl_name c \<noteq> ''receipt_kind'') (td_columns address_receipts_recent_table)\<rparr>"

lemma old_file_ok: "catalog_ok old_file" "indexes_ok old_file"
proof -
  have "table_ok old_receivers" by code_simp
  moreover have "list_all (\<lambda>row. field ''address_id'' row \<noteq> SNull) (sd_rows old_receivers)" by code_simp
  ultimately show "catalog_ok old_file" by (auto simp: catalog_ok_def old_file_def empty_catalog_def)
  show "indexes_ok old_file" by (simp add: indexes_ok_def old_file_def empty_catalog_def)
qed

lemma batch_keeps:
  "for_each (\<lambda>s _. execute_statement s) ss () db = (Inr u, db') \<Longrightarrow> ct_tables db n = Some t \<Longrightarrow> ct_tables db' n = Some t"
proof (induction ss arbitrary: db)
  case (Cons s ss)
  then obtain d where d: "execute_statement s db = (Inr (), d)" "for_each (\<lambda>s _. execute_statement s) ss () d = (Inr u, db')"
    by (auto simp: andThen_Inr)
  from Cons.IH [OF d(2) statement_keeps(1) [OF d(1) Cons.prems(2)]] show ?case .
qed simp

lemma batch_creates:
  "for_each (\<lambda>s _. execute_statement s) ss () db = (Inr u, db') \<Longrightarrow> ct_tables db' n = Some t \<Longrightarrow>
   ct_tables db n = Some t \<or> (\<exists>def. CreateTable def \<in> set ss \<and> td_name def = n \<and> t = new_table def)"
proof (induction ss arbitrary: db)
  case (Cons s ss)
  then obtain d where 1: "execute_statement s db = (Inr (), d)" and 2: "for_each (\<lambda>s _. execute_statement s) ss () d = (Inr u, db')"
    by (auto simp: andThen_Inr)
  have "ct_tables d n = Some t \<longrightarrow> ct_tables db n = Some t \<or> (\<exists>def. s = CreateTable def \<and> td_name def = n \<and> t = new_table def)"
    using 1 by (cases s) (auto simp: create_if_absent_Inr create_index_Inr split: if_splits)
  with Cons.IH [OF 2 Cons.prems(2)] show ?case by auto
qed simp

lemma table_names:
  "td_name wallet_identity_table = ''wallet_identity''" "td_name simulated_data_marker_table = ''simulated_data_marker''"
  "td_name service_metadata_table = ''service_metadata''" "td_name issued_addresses_table = ''issued_addresses''"
  "td_name payment_links_table = ''payment_links''" "td_name address_receivers_table = ''address_receivers''"
  "td_name address_totals_table = ''address_totals''" "td_name address_receipts_recent_table = ''address_receipts_recent''"
  "td_name address_finality_checkpoints_table = ''address_finality_checkpoints''" "td_name sync_state_transitions_table = ''sync_state_transitions''"
  "td_name reorg_events_table = ''reorg_events''" "td_name webhook_deliveries_table = ''webhook_deliveries''"
  "td_name webhook_delivery_attempts_table = ''webhook_delivery_attempts''"
  by (simp_all add: wallet_identity_table_def simulated_data_marker_table_def service_metadata_table_def issued_addresses_table_def
      payment_links_table_def address_receivers_table_def address_totals_table_def address_receipts_recent_table_def
      address_finality_checkpoints_table_def sync_state_transitions_table_def reorg_events_table_def webhook_deliveries_table_def
      webhook_delivery_attempts_table_def)

lemma new_table_columns: "sd_columns (new_table def) = td_columns def"
  by (simp add: new_table_def)

lemma rebuild_succeeds:
  assumes "ct_tables db n = Some t" "ct_tables db (n @ ''_ironwood_upgrade'') = None" "td_name def = n"
    and "set cols \<subseteq> set (column_names t)" "set cols \<subseteq> set (map cl_name (td_columns def))"
    and "insert_rows (new_table def) (map (\<lambda>row. map (\<lambda>c. (c, field c row)) cols) (sd_rows t)) = Inr u"
  shows "\<exists>db'. rebuild_pool_table n def cols [] db = (Inr (), db') \<and> ct_tables db' = (ct_tables db)(n \<mapsto> u)"
  using assms by (auto simp: rebuild_pool_table_def Let_def andThen_def rename_table_def create_table_def insert_select_def drop_table_def
      list_all_iff subset_iff new_table_columns ret_def fun_eq_iff column_names_def)

lemma add_succeeds:
  assumes "ct_tables db n \<noteq> None"
  shows "\<exists>db'. add_column_if_absent n c db = (Inr (), db') \<and> (\<forall>m. ct_tables db m \<noteq> None \<longrightarrow> ct_tables db' m \<noteq> None)"
  using assms by (cases "table_column_exists n (cl_name c) db") (auto simp: add_column_if_absent_def add_column_def table_column_exists_def)

lemma adds_succeed:
  "\<forall>(n, c) \<in> set ncs. ct_tables db n \<noteq> None \<Longrightarrow> \<exists>db'. for_each (\<lambda>(n, c) _. add_column_if_absent n c) ncs () db = (Inr (), db')"
proof (induction ncs arbitrary: db)
  case Nil
  then show ?case by (simp add: ret_def)
next
  case (Cons x ncs)
  obtain n c where x: "x = (n, c)" by fastforce
  with Cons.prems add_succeeds [of db n c] obtain d where d: "add_column_if_absent n c db = (Inr (), d)"
    "\<forall>m. ct_tables db m \<noteq> None \<longrightarrow> ct_tables d m \<noteq> None" by auto
  with Cons.prems have "\<forall>(n, c) \<in> set ncs. ct_tables d n \<noteq> None" by fastforce
  from Cons.IH [OF this] d(1) x show ?case by (auto simp: andThen_def)
qed

lemma receiver_rebuilt:
  "\<exists>u v. insert_rows (new_table address_receivers_table) (map (\<lambda>row. map (\<lambda>c. (c, field c row)) receivers_columns) [sample_receiver]) = Inr u
     \<and> insert_rows u (map ironwood_values (unpaired_orchard u)) = Inr v"
proof -
  have "case insert_rows (new_table address_receivers_table) (map (\<lambda>row. map (\<lambda>c. (c, field c row)) receivers_columns) [sample_receiver]) of
      Inl e \<Rightarrow> False | Inr u \<Rightarrow> (case insert_rows u (map ironwood_values (unpaired_orchard u)) of Inl e \<Rightarrow> False | Inr v \<Rightarrow> True)" by code_simp
  then show ?thesis by (auto split: sum.splits)
qed

lemma old_file_batch:
  obtains d where "for_each (\<lambda>s _. execute_statement s) schema_batch () old_file = (Inr (), d)" "\<forall>s \<in> set schema_batch. in_place s d"
    "ct_tables d ''address_receivers'' = Some old_receivers" "ct_tables d ''address_receivers_ironwood_upgrade'' = None"
    "ct_tables d ''address_receipts_recent'' = Some (new_table address_receipts_recent_table)"
proof -
  have "fst (for_each (\<lambda>s _. execute_statement s) schema_batch () old_file) = Inr ()" by code_simp
  then obtain d where d: "for_each (\<lambda>s _. execute_statement s) schema_batch () old_file = (Inr (), d)" by (metis prod.collapse)
  from batch_run [OF old_file_ok _ d] have placed: "\<forall>s \<in> set schema_batch. in_place s d" by simp
  have kept: "ct_tables d ''address_receivers'' = Some old_receivers"
    by (rule batch_keeps [OF d]) (simp add: old_file_def)
  have created: "\<exists>def. CreateTable def \<in> set schema_batch \<and> td_name def = n \<and> t = new_table def"
    if "ct_tables d n = Some t" "n \<noteq> ''address_receivers''" for n t
    using batch_creates [OF d that(1)] that(2) by (auto simp: old_file_def empty_catalog_def)
  have "ct_tables d ''address_receivers_ironwood_upgrade'' = None"
  proof (rule ccontr)
    assume "ct_tables d ''address_receivers_ironwood_upgrade'' \<noteq> None"
    then obtain t where t: "ct_tables d ''address_receivers_ironwood_upgrade'' = Some t" by blast
    have "''address_receivers_ironwood_upgrade'' \<noteq> ''address_receivers''" by simp
    from created [OF t this] show False by (auto simp: schema_batch_def table_names)
  qed
  moreover have "ct_tables d ''address_receipts_recent'' = Some (new_table address_receipts_recent_table)"
  proof -
    have "in_place (CreateTable address_receipts_recent_table) d" using placed by (simp add: schema_batch_def)
    then obtain t where t: "ct_tables d ''address_receipts_recent'' = Some t" by (auto simp: table_names)
    have "''address_receipts_recent'' \<noteq> ''address_receivers''" by simp
    from created [OF t this] t show ?thesis by (auto simp: schema_batch_def table_names)
  qed
  ultimately show thesis using that d placed kept by blast
qed

lemma old_receivers_upgraded:
  assumes r: "ct_tables d ''address_receivers'' = Some old_receivers" "ct_tables d ''address_receivers_ironwood_upgrade'' = None"
    and receipts: "ct_tables d ''address_receipts_recent'' = Some (new_table address_receipts_recent_table)"
    and m: "ct_tables d ''service_metadata'' = Some m"
  shows "\<exists>f. ensure_ironwood_pool_support d = (Inr (), f) \<and> (\<forall>n. ct_tables d n \<noteq> None \<longrightarrow> ct_tables f n \<noteq> None)"
proof -
  let ?d = "d\<lparr>ct_foreign_keys := False\<rparr>"
  obtain u v where uv: "insert_rows (new_table address_receivers_table) (map (\<lambda>row. map (\<lambda>c. (c, field c row)) receivers_columns) [sample_receiver]) = Inr u"
    "insert_rows u (map ironwood_values (unpaired_orchard u)) = Inr v" using receiver_rebuilt by blast
  have names: "column_names old_receivers = receivers_columns"
    by (simp add: old_receivers_def column_names_def new_table_def receivers_def_columns)
  obtain e where e: "rebuild_pool_table ''address_receivers'' address_receivers_table receivers_columns [] ?d = (Inr (), e)"
    "ct_tables e = (ct_tables d)(''address_receivers'' \<mapsto> u)"
    using rebuild_succeeds [of ?d "''address_receivers''" old_receivers address_receivers_table receivers_columns u] r names uv(1)
    by (auto simp: table_names receivers_def_columns old_receivers_def)
  have "contains (sd_sql old_receivers) (quoted ''ironwood'') = False" by code_simp
  then have stage1: "\<not> table_allows_ironwood_pool ''address_receivers'' ?d"
    using r(1) by (simp add: table_allows_ironwood_pool_def table_sql_def)
  have stage2: "table_allows_ironwood_pool ''address_receipts_recent'' e"
    using receipts created_texts by (simp add: table_allows_ironwood_pool_def table_sql_def e(2) new_table_ok)
  obtain new where "u = (new_table address_receivers_table)\<lparr>sd_rows := sd_rows (new_table address_receivers_table) @ new\<rparr>"
    using insert_rows_Inr [OF uv(1)] by blast
  then have "column_names u = receivers_columns" by (simp add: new_table_ok receivers_def_columns)
  then have stage3: "copy_orchard_rows e = (Inr (), put_table ''address_receivers'' v e)"
    using uv(2) by (simp add: copy_orchard_rows_def e(2) list_all_iff receivers_columns_def)
  obtain f where f: "update_rows ''service_metadata'' older_version ''app_schema_version'' (\<lambda>_. SInt APP_SCHEMA_VERSION) (put_table ''address_receivers'' v e) = (Inr (), f)"
    "\<forall>n. ct_tables d n \<noteq> None \<longrightarrow> ct_tables f n \<noteq> None"
    using m by (simp add: update_rows_def e(2))
  have "ironwood_upgrade ?d = (Inr (), f)"
    using stage1 e(1) stage2 stage3 f(1) by (simp add: ironwood_upgrade_def in_tx_def andThen_def ret_def)
  then have "ensure_ironwood_pool_support d = (Inr (), f\<lparr>ct_foreign_keys := True\<rparr>)" by (simp add: ensure_ironwood_pool_support_def)
  with f(2) show ?thesis by auto
qed

lemma old_file_upgraded: "\<exists>db'. upgrade_schema old_file = (Inr (), db')"
proof -
  obtain d where d: "for_each (\<lambda>s _. execute_statement s) schema_batch () old_file = (Inr (), d)" "\<forall>s \<in> set schema_batch. in_place s d"
    and r: "ct_tables d ''address_receivers'' = Some old_receivers" "ct_tables d ''address_receivers_ironwood_upgrade'' = None"
    and receipts: "ct_tables d ''address_receipts_recent'' = Some (new_table address_receipts_recent_table)"
    by (rule old_file_batch)
  have columns: "table_column_exists ''address_receipts_recent'' c d" if "c = ''receipt_kind'' \<or> c = ''first_observed_at''" for c
    using that receipts by (auto simp: table_column_exists_def new_table_ok receipts_def_columns receipts_columns_def)
  have "CreateIndex ''address_receipts_recent_mempool_txid_idx'' ''address_receipts_recent'' [''receipt_kind'', ''receipt_state'', ''txid''] \<in> set schema_batch"
    by (simp add: schema_batch_def)
  with d(2) have "execute_statement (CreateIndex ''address_receipts_recent_mempool_txid_idx'' ''address_receipts_recent'' [''receipt_kind'', ''receipt_state'', ''txid'']) d = (Inr (), d)"
    by (blast intro: statement_in_place)
  then have mempool: "ensure_address_receipts_recent_mempool_columns d = (Inr (), d)"
    using columns by (simp add: ensure_address_receipts_recent_mempool_columns_def andThen_def add_column_if_absent_def ret_def)
  have "in_place (CreateTable service_metadata_table) d" "in_place (CreateTable address_totals_table) d" "in_place (CreateTable webhook_deliveries_table) d"
    using d(2) by (simp_all add: schema_batch_def)
  then have there: "ct_tables d ''service_metadata'' \<noteq> None" "ct_tables d ''address_totals'' \<noteq> None" "ct_tables d ''webhook_deliveries'' \<noteq> None"
    by (simp_all add: table_names)
  from there(1) obtain m where "ct_tables d ''service_metadata'' = Some m" by blast
  from old_receivers_upgraded [OF r receipts this] obtain f where ironwood: "ensure_ironwood_pool_support d = (Inr (), f)"
    and kept: "\<forall>n. ct_tables d n \<noteq> None \<longrightarrow> ct_tables f n \<noteq> None" by blast
  have "\<forall>(n, c) \<in> set confirmations_columns. ct_tables f n \<noteq> None" using kept there by (simp add: confirmations_columns_def)
  from adds_succeed [OF this] obtain g where
    "for_each (\<lambda>(n, c) _. add_column_if_absent n c) confirmations_columns () f = (Inr (), g)" by blast
  with d(1) mempool ironwood show ?thesis
    unfolding upgrade_schema_def ensure_received_by_confirmations_columns_def andThen_unit by blast
qed

section \<open>Properties\<close>

text \<open>C38: An upgrade of the schema loses no row: whatever version wrote the file, after a successful upgrade every row of
  every table is still in the table of that name, with the value it had in every column that the schema keeps
  (only the schema version itself is changed).\<close>
theorem schema_upgrade_loses_no_row:
  assumes "catalog_ok db" "indexes_ok db" "upgrade_schema db = (Inr (), db')" "ct_tables db n = Some t" "row \<in> set (sd_rows t)"
  shows "\<exists>u copy. ct_tables db' n = Some u \<and> copy \<in> set (sd_rows u)
    \<and> list_all (\<lambda>c. c \<in> set (column_names u) \<and> field c copy = field c row) (filter (kept_column n) (column_names t))"
proof -
  from upgrade_run(2) [OF assms(1-3)] assms(4) obtain u where u: "ct_tables db' n = Some u" "table_carried n t u"
    by (auto simp: carried_def)
  from u(2) assms(5) obtain copy where "copy \<in> set (sd_rows u)" "\<forall>c \<in> set (kept_columns n t). field c copy = field c row"
    by (auto simp: table_carried_def)
  with u show ?thesis by (auto simp: table_carried_def kept_columns_def list_all_iff)
qed

text \<open>C39: An upgrade is complete and idempotent: after it both pool tables accept Ironwood, every address with an Orchard
  receiver has an Ironwood one, the added columns exist and foreign keys are enforced again; and opening the file
  once more changes nothing.\<close>
theorem schema_upgrade_is_complete_and_idempotent:
  assumes "catalog_ok db" "indexes_ok db" "upgrade_schema db = (Inr (), db')"
  shows "table_allows_ironwood_pool ''address_receivers'' db' \<and> table_allows_ironwood_pool ''address_receipts_recent'' db'
    \<and> (\<exists>t. ct_tables db' ''address_receivers'' = Some t \<and> unpaired_orchard t = [])
    \<and> list_all (\<lambda>(n, c). table_column_exists n (cl_name c) db') confirmations_columns
    \<and> ct_foreign_keys db' \<and> upgrade_schema db' = (Inr (), db')"
proof -
  have "up_to_date db'" by (rule upgrade_run(1) [OF assms])
  moreover have "upgrade_schema db' = (Inr (), db')" by (rule upgrade_at_rest) fact
  ultimately show ?thesis by (auto simp: up_to_date_def ironwood_ready_def)
qed

text \<open>C40: A receipts table from before receipt kinds is never upgraded: the batch creates an index on the column before the
  upgrade that would add it, so opening the file fails, leaves the table as it was and fails again the next time.\<close>
theorem receipts_without_kind_are_never_upgraded:
  assumes "ct_tables db ''address_receipts_recent'' = Some t" "''receipt_kind'' \<notin> set (column_names t)"
    and "ct_indexes db ''address_receipts_recent_mempool_txid_idx'' = None"
  shows "\<exists>e db'. upgrade_schema db = (Inl e, db') \<and> ct_tables db' ''address_receipts_recent'' = Some t
    \<and> ct_indexes db' ''address_receipts_recent_mempool_txid_idx'' = None"
proof -
  have listed: "CreateIndex ''address_receipts_recent_mempool_txid_idx'' ''address_receipts_recent'' [''receipt_kind'', ''receipt_state'', ''txid'']
      \<in> set schema_batch" by (simp add: schema_batch_def)
  have missing: "\<not> set [''receipt_kind'', ''receipt_state'', ''txid''] \<subseteq> set (column_names t)" using assms(2) by simp
  from batch_refuses [OF assms(1,3) listed missing mempool_index_listed] show ?thesis
    by (auto simp: upgrade_schema_def andThen_def)
qed

theorem schema_upgrade_loses_no_row_witness:
  "\<exists>db' u copy. upgrade_schema old_file = (Inr (), db') \<and> ct_tables db' ''address_receivers'' = Some u \<and> copy \<in> set (sd_rows u)
    \<and> field ''receiver_id'' copy = SInt 4 \<and> field ''pool'' copy = SText ''orchard''"
proof -
  from old_file_upgraded obtain db' where run: "upgrade_schema old_file = (Inr (), db')" by blast
  have t: "ct_tables old_file ''address_receivers'' = Some old_receivers" "sample_receiver \<in> set (sd_rows old_receivers)"
    by (simp_all add: old_file_def old_receivers_def)
  have columns: "filter (kept_column ''address_receivers'') (column_names old_receivers) = receivers_columns" by code_simp
  from schema_upgrade_loses_no_row [OF old_file_ok run t] obtain u copy where
    "ct_tables db' ''address_receivers'' = Some u" "copy \<in> set (sd_rows u)" "list_all (\<lambda>c. c \<in> set (column_names u) \<and> field c copy = field c sample_receiver) receivers_columns"
    unfolding columns by blast
  moreover have "field ''receiver_id'' sample_receiver = SInt 4" "field ''pool'' sample_receiver = SText ''orchard''" by code_simp+
  ultimately show ?thesis using run by (auto simp: receivers_columns_def)
qed

theorem schema_upgrade_is_complete_and_idempotent_witness:
  "\<exists>db' t. upgrade_schema old_file = (Inr (), db') \<and> ct_tables db' ''address_receivers'' = Some t \<and> unpaired_orchard t = []
    \<and> upgrade_schema db' = (Inr (), db')"
proof -
  from old_file_upgraded obtain db' where "upgrade_schema old_file = (Inr (), db')" by blast
  with schema_upgrade_is_complete_and_idempotent [OF old_file_ok this] show ?thesis by blast
qed

theorem receipts_without_kind_are_never_upgraded_witness:
  "\<exists>e db'. upgrade_schema (put_table ''address_receipts_recent'' old_receipts empty_catalog) = (Inl e, db')
    \<and> ct_tables db' ''address_receipts_recent'' = Some old_receipts"
proof -
  have "''receipt_kind'' \<notin> set (column_names old_receipts)" by code_simp
  with receipts_without_kind_are_never_upgraded [of "put_table ''address_receipts_recent'' old_receipts empty_catalog" old_receipts]
  show ?thesis by (auto simp: empty_catalog_def)
qed

end
