(* ===== verification/Spec2Isabelle.thy ===== *)
theory Spec2Isabelle
  imports Service_Guarantees Env_Config Webhook_Worker Receipt_Guarantees Whole_Service Wallet_Db_Init Pay_Page Schema_Properties
begin

text \<open>
  A verification library for the Zcash payment service: a Rust program that hands out one unified address per
  payment, scans the chain with a viewing key for what the addresses receive, and posts every change of an address
  total to a webhook. Line and function names below refer to \<^verbatim>\<open>src/src/\<close>.

  The parts and how they interact. \<^verbatim>\<open>run_with_config\<close> (\<^verbatim>\<open>lib.rs\<close>) opens the two databases, checks the
  stored identity, recovers the webhook queue, and then runs three tasks at the same time: the HTTP handlers
  (\<^verbatim>\<open>service.rs\<close>, \<^verbatim>\<open>pay_page.rs\<close>), the chain synchronisation (\<^verbatim>\<open>wallet_runtime.rs\<close> over \<^verbatim>\<open>scanner.rs\<close>,
  \<^verbatim>\<open>zcash.rs\<close>, \<^verbatim>\<open>wallet_db.rs\<close> and \<^verbatim>\<open>receipt_ingest.rs\<close>) and the delivery worker
  (\<^verbatim>\<open>webhook_delivery.rs\<close>). They share nothing but the application database (\<^verbatim>\<open>db.rs\<close>), and each of its
  operations is one transaction. So the model has three layers: the operations as programs on a record of tables; the
  service as a transition system whose steps are those operations in any order, with its invariants; and the
  handlers and workers as programs, each shown to move the database by steps of that system only.
\<close>

text \<open>
  Vocabulary. \<^theory_text>\<open>Prelude\<close>: a program is a function from a state to a result (an error or a value) and a new
  state; \<open>andThen\<close> is \<^verbatim>\<open>?\<close> with sequencing, \<open>in_tx\<close> a transaction, \<open>for_each\<close> a loop, \<open>keeps\<close> an
  invariant of a program; ordered maps and sets stand for \<^verbatim>\<open>BTreeMap\<close> and \<^verbatim>\<open>BTreeSet\<close>. \<^theory_text>\<open>Rust_Std\<close>:
  the integer operations (checked, saturating, \<^verbatim>\<open>try_from\<close>), parsing and printing, strings as UTF-8 bytes.
  \<^theory_text>\<open>App_Error\<close>: \<^verbatim>\<open>error.rs\<close>. \<^theory_text>\<open>Zec_Amount\<close>: amounts and the payment status. \<^theory_text>\<open>Text_Encoding\<close>:
  hex, FNV-1a, base64url, percent encoding and HTML escaping. \<^theory_text>\<open>Env_Config\<close>: \<^verbatim>\<open>config.rs\<close> and
  \<^verbatim>\<open>constants.rs\<close>; the environment is a map of names and the URI parser a parameter.

  The database, \<^verbatim>\<open>db.rs\<close>. \<^theory_text>\<open>App_Db\<close>: a record per table, rows in key order, constraints as errors.
  \<^theory_text>\<open>Db_Totals\<close>: \<^verbatim>\<open>recompute_address_totals\<close>. \<^theory_text>\<open>Db_Receipts\<close>: every operation that writes
  receipts; \<^theory_text>\<open>Receipt_Ledger\<close> and \<^theory_text>\<open>Receipt_Owners\<close> show that each leaves the totals exact and every
  receipt with its address. \<^theory_text>\<open>Db_Addresses\<close>: addresses, receivers and links. \<^theory_text>\<open>Db_Identity\<close>: the rows that
  exist once, the metadata and the logs. \<^theory_text>\<open>Db_Webhooks\<close>: the queue; \<^theory_text>\<open>Webhook_Ledger\<close> is the bookkeeping
  of one address and \<^theory_text>\<open>Notification_Safety\<close> lifts it to the tables. \<^theory_text>\<open>Schema_Upgrade\<close>,
  \<^theory_text>\<open>Schema_Guarantees\<close> and \<^theory_text>\<open>Schema_Properties\<close>: \<^verbatim>\<open>initialize_schema\<close> on files of any age, over a
  catalog of tables with their columns, rows and indexes.

  The transition system. \<^theory_text>\<open>Service_System\<close>: the steps, reachability and the invariant \<open>service_ok\<close>;
  \<^theory_text>\<open>Service_Guarantees\<close>: what it means to a receiver of webhooks. A step has one guard, \<open>action_ok\<close>: a
  receipt uid never moves to another address. The refinements below prove that the callers respect it.

  The tasks. \<^theory_text>\<open>Webhook_Worker\<close>: an iteration of the delivery worker, the retry schedule, the retried open.
  \<^theory_text>\<open>Zcash_Wallet\<close>: viewing key and derivation of addresses. \<^theory_text>\<open>Lightwalletd\<close>: the client with its channel
  cache, retries and time limits. \<^theory_text>\<open>Chain_Scanner\<close>: blocks and mempool transactions to receipts.
  \<^theory_text>\<open>Receipt_Ingest\<close>: receipts to issued addresses. \<^theory_text>\<open>Scan_Plan\<close>: which heights to scan, and the downloader.
  \<^theory_text>\<open>Sync_Runtime\<close>: one iteration of the synchronisation; \<^theory_text>\<open>Sync_Guarantees\<close> and
  \<^theory_text>\<open>Receipt_Guarantees\<close>: what it promises. \<^theory_text>\<open>Payment_Service\<close>, \<^theory_text>\<open>Payment_Issuing\<close> and
  \<^theory_text>\<open>Payment_Guarantees\<close>: the requests. \<^theory_text>\<open>Pay_Page\<close>: the page, its headers, and its script as the function
  that handles one poll. \<^theory_text>\<open>Wallet_Db_Init\<close>: \<^verbatim>\<open>wallet_db.rs\<close>, threads that open and migrate the wallet
  database, as interleaved steps. \<^theory_text>\<open>Startup\<close>: \<^verbatim>\<open>lib.rs\<close>.

  The composition. \<^theory_text>\<open>Other_Tasks\<close>: what handlers and worker do while the chain is synchronised. An iteration
  of the synchronisation gives them a turn before each of its transactions (\<open>on_app_db\<close>), in which they take any
  steps, and its guarantees hold whatever they do. \<^theory_text>\<open>Delivery_Drain\<close>: a far end that answers lets the queue run
  empty. \<^theory_text>\<open>Whole_Service\<close>: any sequence of starts, requests, synchronisations with the others at work in between,
  deliveries and single steps, by the functions that run. The process may die at any of these points, with a delivery
  claimed or not; one that dies inside an iteration leaves the database of an iteration whose clock failed there.
\<close>

text \<open>
  What the lemmas show. Safety of money: stored totals are the sums of the receipts that count, receipts agree with
  the chain after a rescan, depths follow the tip, provisional receipts survive an unscanned block. Safety of
  notification: the last word to a receiver is the current total, acknowledgements never go back, an address at rest
  has been told, and after a restart a bounded number of answered attempts tells every address. Bounds: attempts,
  retry delays, batches, requests to lightwalletd, the settings. Round trips: amounts, the payment URI, encodings.
  Equivalences: batched with sequential scanning, concurrent with sequential downloads. Security: return URLs, texts
  on the page, diversifier indices that only grow. Upgrades: no row is lost, the result is complete and stable; and a
  file for which every opening fails.

  Interfaces are locales (ordered maps, singleton tables, row updates and others), each interpreted on the definitions
  of the component that provides it. Lemmas named \<open>keeps\<close>, \<open>refines\<close>, \<open>stepped\<close> and \<open>sound\<close> are the
  rules by which invariants pass through programs: one rule per combinator, one per operation.

  Numbers. Heights, counts and sizes are \<open>nat\<close> with the bound of their Rust type written out where the code
  computes near it (\<open>u32_max\<close>, \<open>u64_max\<close>, saturating and checked operations); values of the database are
  \<open>int\<close> (\<^verbatim>\<open>i64\<close>); bytes and hashes are words. Loops are structural recursion, except where the code may
  not end: the retried open and the downloader are partial functions, proved to return (the downloader for ranges that
  end below the largest height); the batches of a catch-up and the retries of a call recurse on a measure;
  \<open>delivery_loop\<close> runs over the list of its iterations, and \<open>backlog\<close> iterations are enough for every
  delivery to be finished when each is answered, because an answered one shrinks it.

  Parameters, with what is assumed of them as named hypotheses: the Zcash libraries (\<open>zcash_lib\<close>, \<open>scan_lib\<close>;
  \<open>diversifiers_documented\<close>, \<open>scans_follow\<close>), lightwalletd, the HTTP client and HMAC of the worker, the JSON
  printer and parser, the URI parser, clocks, random bytes, the file system and the wallet library under
  \<^verbatim>\<open>wallet_db.rs\<close>, and the QR encoder.

  Not modelled. \<^verbatim>\<open>logging.rs\<close>, \<^verbatim>\<open>main.rs\<close> and every log line, which only write; the listener and the
  shutdown signal in \<^verbatim>\<open>lib.rs\<close>; the progress logs of the synchronisation; the thread pool of
  \<^verbatim>\<open>scan_thread_pool\<close> (whether it could be built is a parameter) and the conversion
  \<^verbatim>\<open>tree_state_to_chain_state\<close>, both library calls; the text of library errors beyond what the code makes of
  it; SQLite itself, whose statements are modelled by their effect on rows, with a busy or broken database as an error
  of the operation that opens it; and the constructors that wrap results as JSON for the HTTP library.
\<close>

end
